(* ===== verification/Prelude.thy ===== *)
theory Prelude
  imports Main "HOL-Library.Word" "HOL-Library.Monad_Syntax"
begin

text \<open>
  The library every component shares: names for the machine's integer widths, the byte-addressed
  memory with its little-endian cells, C pointers and the way C code reads through them,
  NUL-terminated strings, and the lemma collections the component proofs use.

  Conventions.  A function that may never give control back (an endless loop, a jump
  through a null function pointer) returns an option: None is ``control does not come back''.
  Global arrays and stack buffers live in the byte memory, at addresses that are
  parameters of the model; scalar globals are record fields.
\<close>

unbundle bit_operations_syntax

type_synonym u8 = "8 word"
type_synonym u16 = "16 word"
type_synonym u32 = "32 word"
type_synonym u64 = "64 word"
type_synonym addr = "64 word"
type_synonym memory = "addr \<Rightarrow> u8"

named_theorems ld_st \<open>reading memory cells back after a write\<close>
named_theorems frame \<open>what an operation leaves unchanged\<close>

text \<open>A memory is a function; an update is read at known addresses only.\<close>

declare fun_upd_apply [simp del]
declare fun_upd_same [simp] fun_upd_other [simp]

section \<open>Words as numbers\<close>

lemma sint_of_nat32: "n < 2 ^ 31 \<Longrightarrow> sint (of_nat n :: u32) = int n"
proof -
  assume n: "n < 2 ^ 31"
  then have "take_bit 32 n = n" by (simp add: take_bit_nat_eq_self)
  with n show ?thesis by (simp add: sint_uint unsigned_of_nat signed_take_bit_int_eq_self)
qed

lemma sint_of_nat64: "n < 2 ^ 63 \<Longrightarrow> sint (of_nat n :: u64) = int n"
proof -
  assume n: "n < 2 ^ 63"
  then have "take_bit 64 n = n" by (simp add: take_bit_nat_eq_self)
  with n show ?thesis by (simp add: sint_uint unsigned_of_nat signed_take_bit_int_eq_self)
qed

lemma uint_of_nat: "n < 2 ^ LENGTH('a) \<Longrightarrow> uint (of_nat n :: 'a::len word) = int n"
  by (simp add: unsigned_of_nat take_bit_nat_eq_self)

lemma unat_of_nat_lt: "n < 2 ^ LENGTH('a) \<Longrightarrow> unat (of_nat n :: 'a::len word) = n"
  by (simp add: unsigned_of_nat take_bit_nat_eq_self)

lemma unat_ucast_32_64: "unat (ucast (w :: u32) :: u64) = unat w"
proof -
  have "unat w < 2 ^ 32" using unsigned_less [of w] by simp
  then have "take_bit 64 (unat w) = unat w" by (intro take_bit_nat_eq_self) simp
  then show ?thesis by (simp add: unsigned_ucast_eq)
qed

lemma unat_drop_bit_div: "unat (drop_bit n (w :: 'a::len word)) = unat w div 2 ^ n"
  unfolding unat_drop_bit_eq by (rule drop_bit_eq_div)

lemma less_16_cases:
  "(n::nat) < 16 \<Longrightarrow> n \<in> {0, 1, 2, 3, 4, 5, 6, 7, 8, 9, 10, 11, 12, 13, 14, 15}"
  by (auto simp: eval_nat_numeral less_Suc_eq)

lemma unat_Suc_less: "(i :: 'a::len word) < n \<Longrightarrow> unat (i + 1) = Suc (unat i)"
proof -
  assume "i < n"
  moreover have "unat n < 2 ^ LENGTH('a)" by (rule unsigned_less)
  ultimately have "Suc (unat i) < 2 ^ LENGTH('a)" unfolding word_less_nat_alt by linarith
  then show ?thesis by (simp add: unat_word_ariths)
qed

lemma unat_pred: "(n :: 'a::len word) \<noteq> 0 \<Longrightarrow> unat (n - 1) = unat n - 1"
  by (simp add: unat_minus_one)

section \<open>Address spans\<close>

text \<open>The \<open>n\<close> addresses from \<open>a\<close> on; the address space wraps, as it does on the machine.\<close>

definition span :: "addr \<Rightarrow> nat \<Rightarrow> addr set" where
  "span a n = {a + of_nat i | i. i < n}"

lemma span_0 [simp]: "span a 0 = {}"
  by (simp add: span_def)

lemma in_span: "b \<in> span a n \<longleftrightarrow> (\<exists>i<n. b = a + of_nat i)"
  by (auto simp: span_def)

lemma span_nth [simp, intro]: "i < n \<Longrightarrow> a + of_nat i \<in> span a n"
  by (auto simp: span_def)

lemma span_mono: "n \<le> k \<Longrightarrow> span a n \<subseteq> span a k"
  by (auto simp: span_def)

lemma span_sub: "i + n \<le> k \<Longrightarrow> span (a + of_nat i) n \<subseteq> span a k"
proof
  fix b assume "i + n \<le> k" "b \<in> span (a + of_nat i) n"
  then obtain j where "j < n" "b = a + of_nat (i + j)"
    by (auto simp: in_span add.assoc)
  with \<open>i + n \<le> k\<close> show "b \<in> span a k"
    by (auto simp: in_span intro!: exI [of _ "i + j"])
qed

lemma span_Suc: "span a (Suc n) = insert a (span (a + 1) n)"
proof -
  have "b \<in> span a (Suc n) \<longleftrightarrow> b = a \<or> b \<in> span (a + 1) n" for b
    by (auto simp: in_span less_Suc_eq_0_disj add.assoc)
  then show ?thesis by auto
qed

lemma of_nat_word_inj:
  "(of_nat i :: addr) = of_nat j \<Longrightarrow> i < 2 ^ 64 \<Longrightarrow> j < 2 ^ 64 \<Longrightarrow> i = j"
  by (auto dest!: arg_cong [where f = unat] simp: unat_of_nat)

lemma unat_mem_span:
  assumes "b \<in> span a n" and "unat a + n \<le> 2 ^ 64"
  shows "unat a \<le> unat b \<and> unat b < unat a + n"
proof -
  from assms(1) obtain i where i: "i < n" "b = a + of_nat i" by (auto simp: in_span)
  have "i < 2 ^ 64" using i(1) assms(2) by linarith
  then have "unat (of_nat i :: addr) = i" by (simp add: unat_of_nat)
  then have "unat b = unat a + i"
    using i assms(2) by (simp add: unat_plus_if_size word_size)
  with i show ?thesis by simp
qed

lemma span_disjI:
  assumes "unat a + n \<le> unat b" and "unat b + k \<le> 2 ^ 64"
  shows "span a n \<inter> span b k = {}"
proof -
  have "unat a + n \<le> 2 ^ 64" using assms by linarith
  then show ?thesis
    using assms unat_mem_span [of _ a n] unat_mem_span [of _ b k] by fastforce
qed

lemma span_disjI':
  assumes "unat b + k \<le> unat a" and "unat a + n \<le> 2 ^ 64"
  shows "span a n \<inter> span b k = {}"
  using span_disjI [OF assms] by blast

text \<open>Addresses from \<open>lo\<close> to below \<open>hi\<close>.\<close>

definition region :: "nat \<Rightarrow> nat \<Rightarrow> addr set" where
  "region lo hi = {b. lo \<le> unat b \<and> unat b < hi}"

lemma span_region: "lo \<le> unat a \<Longrightarrow> unat a + n \<le> hi \<Longrightarrow> hi \<le> 2 ^ 64 \<Longrightarrow> span a n \<subseteq> region lo hi"
  using unat_mem_span [of _ a n] by (force simp: region_def)

lemma region_disjoint: "hi \<le> lo' \<or> hi' \<le> lo \<Longrightarrow> region lo hi \<inter> region lo' hi' = {}"
  by (auto simp: region_def)

lemma span_memI:
  assumes "unat a \<le> unat b" and "unat b < unat a + n"
  shows "b \<in> span a n"
proof -
  let ?i = "unat (b - a)"
  have "?i = unat b - unat a"
    using assms(1) by (simp add: unat_sub word_le_nat_alt)
  then have "?i < n" using assms by linarith
  moreover have "b = a + of_nat ?i" by simp
  ultimately show ?thesis unfolding in_span by blast
qed

lemma span_append: "span a (n + k) = span a n \<union> span (a + of_nat n) k"
proof
  show "span a n \<union> span (a + of_nat n) k \<subseteq> span a (n + k)"
    using span_mono [of n "n + k" a] span_sub [of n k "n + k" a] by auto
  show "span a (n + k) \<subseteq> span a n \<union> span (a + of_nat n) k"
  proof
    fix b assume "b \<in> span a (n + k)"
    then obtain i where i: "i < n + k" "b = a + of_nat i" by (auto simp: in_span)
    show "b \<in> span a n \<union> span (a + of_nat n) k"
    proof (cases "i < n")
      case True with i show ?thesis by (auto simp: in_span)
    next
      case False
      with i have "i - n < k" "b = a + of_nat n + of_nat (i - n)" by auto
      then show ?thesis by (auto simp: in_span)
    qed
  qed
qed

lemma span_next_disj:
  assumes "n + k \<le> 2 ^ 64"
  shows "span (a + of_nat n) k \<inter> span a n = {}"
proof (rule ccontr)
  assume "\<not> ?thesis"
  then obtain i j where ij: "j < k" "i < n" "a + of_nat n + of_nat j = a + of_nat i"
    by (auto simp: in_span)
  then have "(of_nat (n + j) :: addr) = of_nat i" by (simp add: add.assoc)
  moreover have "n + j < 2 ^ 64" "i < 2 ^ 64" using ij(1,2) assms by simp_all
  ultimately have "n + j = i" by (rule of_nat_word_inj)
  with ij show False by simp
qed

lemma span_shift_disj:
  assumes "i + n \<le> j" and "j + k \<le> 2 ^ 64"
  shows "span (a + of_nat i) n \<inter> span (a + of_nat j) k = {}"
proof -
  have eq: "a + of_nat j = a + of_nat i + of_nat (j - i)" using assms(1) by (simp add: of_nat_diff)
  have "span (a + of_nat i + of_nat (j - i)) k \<inter> span (a + of_nat i) (j - i) = {}"
    by (rule span_next_disj) (use assms in linarith)
  moreover have "span (a + of_nat i) n \<subseteq> span (a + of_nat i) (j - i)" using assms(1) by (intro span_mono) simp
  ultimately show ?thesis unfolding eq by blast
qed

text \<open>The cells of an array of 32-bit values do not overlap.\<close>

lemma cells_disjoint:
  assumes "k \<noteq> k'" and "4 * k + 4 \<le> 2 ^ 64" and "4 * k' + 4 \<le> 2 ^ 64"
  shows "span (a + 4 * of_nat k) 4 \<inter> span (a + 4 * of_nat k') 4 = {}"
proof -
  have *: "span (a + 4 * of_nat i) 4 \<inter> span (a + 4 * of_nat j) 4 = {}"
    if "i < j" "4 * j + 4 \<le> 2 ^ 64" for i j
  proof -
    let ?b = "a + 4 * of_nat i" and ?n = "4 * (j - i)"
    have eq: "a + 4 * of_nat j = ?b + of_nat ?n" using that(1) by (simp add: of_nat_diff algebra_simps)
    have "span (?b + of_nat ?n) 4 \<inter> span ?b ?n = {}"
      by (rule span_next_disj) (use that in linarith)
    moreover have "span ?b 4 \<subseteq> span ?b ?n" using that(1) by (intro span_mono) simp
    ultimately show ?thesis unfolding eq by blast
  qed
  show ?thesis using assms * [of k k'] * [of k' k] by (cases "k < k'") auto
qed

section \<open>Byte runs\<close>

fun store_bytes :: "memory \<Rightarrow> addr \<Rightarrow> u8 list \<Rightarrow> memory" where
  "store_bytes m a [] = m"
| "store_bytes m a (b # bs) = store_bytes (m(a := b)) (a + 1) bs"

fun load_bytes :: "memory \<Rightarrow> addr \<Rightarrow> nat \<Rightarrow> u8 list" where
  "load_bytes m a 0 = []"
| "load_bytes m a (Suc n) = m a # load_bytes m (a + 1) n"

lemma length_load_bytes [simp]: "length (load_bytes m a n) = n"
  by (induction n arbitrary: a) auto

lemma nth_load_bytes: "i < n \<Longrightarrow> load_bytes m a n ! i = m (a + of_nat i)"
  by (induction n arbitrary: a i) (auto simp: nth_Cons add.assoc split: nat.splits)

lemma load_bytes_eq_map: "load_bytes m a n = map (\<lambda>i. m (a + of_nat i)) [0..<n]"
  by (rule nth_equalityI) (auto simp: nth_load_bytes)

lemma load_bytes_cong:
  "(\<And>b. b \<in> span a n \<Longrightarrow> m b = m' b) \<Longrightarrow> load_bytes m a n = load_bytes m' a n"
  by (auto simp: load_bytes_eq_map)

lemma store_bytes_frame [frame]:
  "b \<notin> span a (length bs) \<Longrightarrow> store_bytes m a bs b = m b"
  by (induction bs arbitrary: m a) (auto simp: span_Suc)

lemma load_bytes_frame:
  "span a n \<inter> span b (length bs) = {} \<Longrightarrow> load_bytes (store_bytes m b bs) a n = load_bytes m a n"
  by (rule load_bytes_cong) (auto intro: store_bytes_frame)

lemma store_bytes_append:
  "store_bytes m a (xs @ ys) = store_bytes (store_bytes m a xs) (a + of_nat (length xs)) ys"
  by (induction xs arbitrary: m a) (auto simp: add.assoc)

lemma load_bytes_append:
  "load_bytes m a (n + k) = load_bytes m a n @ load_bytes m (a + of_nat n) k"
  by (induction n arbitrary: a) (auto simp: add.assoc)

lemma store_bytes_upd_commute:
  "x \<notin> span b (length ys) \<Longrightarrow> store_bytes (m(x := v)) b ys = (store_bytes m b ys)(x := v)"
proof (induction ys arbitrary: m b)
  case (Cons y ys)
  then have "x \<noteq> b" "x \<notin> span (b + 1) (length ys)" by (auto simp: span_Suc)
  with Cons.IH [of "b + 1" "m(b := y)"] show ?case
    by (simp add: fun_upd_twist [of b x])
qed simp

lemma store_bytes_commute:
  "span a (length xs) \<inter> span b (length ys) = {} \<Longrightarrow>
     store_bytes (store_bytes m a xs) b ys = store_bytes (store_bytes m b ys) a xs"
proof (induction xs arbitrary: m a)
  case (Cons x xs)
  then have "a \<notin> span b (length ys)" "span (a + 1) (length xs) \<inter> span b (length ys) = {}"
    by (auto simp: span_Suc)
  with Cons.IH [of "a + 1" "m(a := x)"] show ?case
    by (simp add: store_bytes_upd_commute)
qed simp

lemma load_bytes_snoc: "load_bytes m a (Suc n) = load_bytes m a n @ [m (a + of_nat n)]"
  using load_bytes_append [of m a n 1] by simp

lemma load_bytes_upd:
  assumes "i < n" and "n \<le> 2 ^ 64"
  shows "load_bytes (m(a + of_nat i := v)) a n = (load_bytes m a n)[i := v]"
proof (rule nth_equalityI)
  fix j assume "j < length (load_bytes (m(a + of_nat i := v)) a n)"
  then have j: "j < n" by simp
  have "j = i \<or> a + of_nat j \<noteq> a + of_nat i"
    using of_nat_word_inj [of j i] assms j by fastforce
  then show "load_bytes (m(a + of_nat i := v)) a n ! j = (load_bytes m a n)[i := v] ! j"
    using j assms(1) by (cases "j = i") (auto simp: nth_load_bytes)
qed simp

lemma not_in_next_span: "n < 2 ^ 64 \<Longrightarrow> a \<notin> span (a + 1) n"
proof
  assume n: "n < 2 ^ 64" and "a \<in> span (a + 1) n"
  then obtain i where i: "i < n" "a = a + 1 + of_nat i" by (auto simp: in_span)
  then have "(of_nat (Suc i) :: addr) = of_nat 0" by (simp add: add.commute)
  moreover have "Suc i < 2 ^ 64" using i n by linarith
  ultimately have "Suc i = 0" by (metis of_nat_word_inj zero_less_numeral zero_less_power)
  then show False by simp
qed

lemma load_store_bytes [ld_st]:
  "length bs \<le> 2 ^ 64 \<Longrightarrow> load_bytes (store_bytes m a bs) a (length bs) = bs"
proof (induction bs arbitrary: m a)
  case Nil then show ?case by simp
next
  case (Cons b bs)
  then have "length bs < 2 ^ 64" by simp
  then have "a \<notin> span (a + 1) (length bs)" by (rule not_in_next_span)
  then show ?case using Cons by (simp add: store_bytes_frame)
qed

section \<open>Little-endian cells\<close>

fun le_word :: "u8 list \<Rightarrow> 'a::len word" where
  "le_word [] = 0"
| "le_word (b # bs) = ucast b OR push_bit 8 (le_word bs)"

fun le_bytes :: "nat \<Rightarrow> 'a::len word \<Rightarrow> u8 list" where
  "le_bytes 0 w = []"
| "le_bytes (Suc n) w = ucast w # le_bytes n (drop_bit 8 w)"

lemma length_le_bytes [simp]: "length (le_bytes n w) = n"
  by (induction n arbitrary: w) auto

lemma le_word_le_bytes: "le_word (le_bytes n w) = take_bit (8 * n) w"
proof (induction n arbitrary: w)
  case 0 show ?case by simp
next
  case (Suc n)
  show ?case by (rule bit_eqI) (auto simp: Suc bit_simps not_less)
qed

lemma le_word_le_bytes_id:
  fixes w :: "'a::len word"
  assumes "LENGTH('a) \<le> 8 * n"
  shows "le_word (le_bytes n w) = w"
  using assms by (simp add: le_word_le_bytes take_bit_word_eq_self)

definition load16 :: "memory \<Rightarrow> addr \<Rightarrow> u16" where
  "load16 m a = le_word (load_bytes m a 2)"

definition store16 :: "memory \<Rightarrow> addr \<Rightarrow> u16 \<Rightarrow> memory" where
  "store16 m a v = store_bytes m a (le_bytes 2 v)"

definition load32 :: "memory \<Rightarrow> addr \<Rightarrow> u32" where
  "load32 m a = le_word (load_bytes m a 4)"

definition store32 :: "memory \<Rightarrow> addr \<Rightarrow> u32 \<Rightarrow> memory" where
  "store32 m a v = store_bytes m a (le_bytes 4 v)"

definition load64 :: "memory \<Rightarrow> addr \<Rightarrow> u64" where
  "load64 m a = le_word (load_bytes m a 8)"

definition store64 :: "memory \<Rightarrow> addr \<Rightarrow> u64 \<Rightarrow> memory" where
  "store64 m a v = store_bytes m a (le_bytes 8 v)"

text \<open>
  What every client of a memory cell relies on: a write is read back, touches only its own
  bytes, and a read depends only on those bytes.
\<close>

locale cell_store =
  fixes width :: nat
    and ld :: "memory \<Rightarrow> addr \<Rightarrow> 'v"
    and st :: "memory \<Rightarrow> addr \<Rightarrow> 'v \<Rightarrow> memory"
  assumes ld_st_same: "ld (st m a v) a = v"
    and st_frame: "b \<notin> span a width \<Longrightarrow> st m a v b = m b"
    and ld_cong: "(\<And>b. b \<in> span a width \<Longrightarrow> m b = m' b) \<Longrightarrow> ld m a = ld m' a"
begin

lemma ld_st_disj: "span a width \<inter> span b width = {} \<Longrightarrow> ld (st m b v) a = ld m a"
  by (rule ld_cong) (auto intro: st_frame)

lemma ld_store_bytes_disj:
  "span a width \<inter> span b (length bs) = {} \<Longrightarrow> ld (store_bytes m b bs) a = ld m a"
  by (rule ld_cong) (auto intro: store_bytes_frame)

lemma ld_upd_disj: "b \<notin> span a width \<Longrightarrow> ld (m(b := x)) a = ld m a"
  by (rule ld_cong) (auto simp: fun_upd_apply)

lemma load_bytes_st_disj:
  "span a n \<inter> span b width = {} \<Longrightarrow> load_bytes (st m b v) a n = load_bytes m a n"
  by (rule load_bytes_cong) (auto intro: st_frame)

lemma ld_st_cases:
  "a = b \<or> span a width \<inter> span b width = {} \<Longrightarrow>
     ld (st m b v) a = (if a = b then v else ld m a)"
  by (auto simp: ld_st_same ld_st_disj)

lemma fold_st_frame:
  "(\<And>p. p \<in> set ps \<Longrightarrow> c \<notin> span (fst p) width) \<Longrightarrow> fold (\<lambda>(a, v) m. st m a v) ps m c = m c"
proof (induction ps arbitrary: m)
  case (Cons p ps)
  have "st m (fst p) (snd p) c = m c" using Cons.prems by (simp add: st_frame)
  with Cons show ?case by (cases p) simp
qed simp

lemma ld_fold_disj:
  "(\<And>p. p \<in> set ps \<Longrightarrow> span a width \<inter> span (fst p) width = {}) \<Longrightarrow>
     ld (fold (\<lambda>(a, v) m. st m a v) ps m) a = ld m a"
  by (rule ld_cong, rule fold_st_frame) blast

lemma ld_fold_lookup:
  "a \<in> fst ` set ps \<Longrightarrow> (\<And>p. p \<in> set ps \<Longrightarrow> fst p = a \<Longrightarrow> snd p = v) \<Longrightarrow>
     (\<And>p. p \<in> set ps \<Longrightarrow> fst p \<noteq> a \<Longrightarrow> span a width \<inter> span (fst p) width = {}) \<Longrightarrow>
     ld (fold (\<lambda>(a, v) m. st m a v) ps m) a = v"
proof (induction ps arbitrary: m)
  case (Cons p ps)
  show ?case
  proof (cases "a \<in> fst ` set ps")
    case True with Cons show ?thesis by simp
  next
    case False
    then have p: "p = (a, v)" using Cons.prems(1,2) by (cases p) auto
    have "ld (fold (\<lambda>(a, v) m. st m a v) ps (st m a v)) a = ld (st m a v) a"
    proof (rule ld_fold_disj)
      fix q assume q: "q \<in> set ps"
      then have "fst q \<noteq> a" using False by auto
      then show "span a width \<inter> span (fst q) width = {}" using Cons.prems(3) q by simp
    qed
    then show ?thesis using p by (simp add: ld_st_same)
  qed
qed simp

end

interpretation c8: cell_store 1 "\<lambda>m a. m a" "\<lambda>m a v. m(a := v)"
  by unfold_locales (auto simp: span_Suc)

interpretation c16: cell_store 2 load16 store16
proof unfold_locales
  fix m a and v :: u16
  show "load16 (store16 m a v) a = v"
    using load_store_bytes [of "le_bytes 2 v" m a] le_word_le_bytes_id [of 2 v]
    by (simp add: load16_def store16_def)
  show "store16 m a v b = m b" if "b \<notin> span a 2" for b
    using that by (simp add: store16_def store_bytes_frame)
qed (simp add: load16_def cong: load_bytes_cong)

interpretation c32: cell_store 4 load32 store32
proof unfold_locales
  fix m a and v :: u32
  show "load32 (store32 m a v) a = v"
    using load_store_bytes [of "le_bytes 4 v" m a] le_word_le_bytes_id [of 4 v]
    by (simp add: load32_def store32_def)
  show "store32 m a v b = m b" if "b \<notin> span a 4" for b
    using that by (simp add: store32_def store_bytes_frame)
qed (simp add: load32_def cong: load_bytes_cong)

interpretation c64: cell_store 8 load64 store64
proof unfold_locales
  fix m a and v :: u64
  show "load64 (store64 m a v) a = v"
    using load_store_bytes [of "le_bytes 8 v" m a] le_word_le_bytes_id [of 8 v]
    by (simp add: load64_def store64_def)
  show "store64 m a v b = m b" if "b \<notin> span a 8" for b
    using that by (simp add: store64_def store_bytes_frame)
qed (simp add: load64_def cong: load_bytes_cong)

lemmas cell_same [ld_st, simp] = c16.ld_st_same c32.ld_st_same c64.ld_st_same

section \<open>C pointers to characters\<close>

text \<open>
  A \<open>const char *\<close> is an address, or a constant object of the program itself (a string
  literal, a compound literal) given by the bytes before its terminating NUL.  Reading is by
  index; address arithmetic wraps.
\<close>

datatype cptr = Addr addr | Lit "u8 list"

abbreviation NULL :: cptr where
  "NULL \<equiv> Addr 0"

definition lit :: "string \<Rightarrow> cptr" where
  "lit s = Lit (map of_char s)"

fun rd :: "memory \<Rightarrow> cptr \<Rightarrow> int \<Rightarrow> u8" where
  "rd m (Addr a) i = m (a + of_int i)"
| "rd m (Lit s) i = (if 0 \<le> i \<and> i < int (length s) then s ! nat i else 0)"

text \<open>\<open>p + k\<close>, and \<open>p++\<close>.\<close>

fun ptr_add :: "cptr \<Rightarrow> u64 \<Rightarrow> cptr" where
  "ptr_add (Addr a) k = Addr (a + k)"
| "ptr_add (Lit s) k = Lit (drop (unat k) s)"

abbreviation deref :: "memory \<Rightarrow> cptr \<Rightarrow> u8" where
  "deref m p \<equiv> rd m p 0"

abbreviation inc :: "cptr \<Rightarrow> cptr" where
  "inc p \<equiv> ptr_add p 1"

lemma ptr_add_0 [simp]: "ptr_add p 0 = p"
  by (cases p) auto

lemma ptr_add_inc: "Suc k < 2 ^ 64 \<Longrightarrow> ptr_add (inc p) (of_nat k) = ptr_add p (of_nat (Suc k))"
proof (cases p)
  case (Lit s)
  assume "Suc k < 2 ^ 64"
  then have "unat (of_nat k :: u64) = k" "unat (of_nat (Suc k) :: u64) = Suc k"
    by (simp_all add: unat_of_nat_lt del: of_nat_Suc)
  with Lit show ?thesis by simp
qed (simp add: ac_simps)

lemma rd_ptr_add: "0 \<le> i \<Longrightarrow> rd m (ptr_add p k) i = rd m p (uint k + i)"
proof (cases p)
  case (Addr a) then show ?thesis by (simp add: ac_simps)
next
  case (Lit s)
  have *: "0 \<le> i \<Longrightarrow> (if 0 \<le> i \<and> i < int (length (drop n s)) then drop n s ! nat i else 0)
      = (if 0 \<le> int n + i \<and> int n + i < int (length s) then s ! nat (int n + i) else 0)" for n
    by (auto simp: nat_add_distrib add.commute)
  assume "0 \<le> i"
  from * [OF this, of "unat k"] Lit show ?thesis by simp
qed

lemma rd_inc: "rd m (inc p) (int i) = rd m p (int (Suc i))"
  by (simp add: rd_ptr_add add.commute)

text \<open>The bytes a pointer reads, and writes that do not touch them.\<close>

definition read_bytes :: "memory \<Rightarrow> cptr \<Rightarrow> nat \<Rightarrow> u8 list" where
  "read_bytes m p n = map (\<lambda>i. rd m p (int i)) [0..<n]"

lemma length_read_bytes [simp]: "length (read_bytes m p n) = n"
  by (simp add: read_bytes_def)

lemma nth_read_bytes [simp]: "i < n \<Longrightarrow> read_bytes m p n ! i = rd m p (int i)"
  by (simp add: read_bytes_def)

lemma read_bytes_0 [simp]: "read_bytes m p 0 = []"
  by (simp add: read_bytes_def)

lemma read_bytes_Suc: "read_bytes m p (Suc n) = deref m p # read_bytes m (inc p) n"
  by (rule nth_equalityI) (auto simp: nth_Cons rd_inc split: nat.splits)

lemma read_bytes_Addr: "read_bytes m (Addr a) n = load_bytes m a n"
  by (simp add: read_bytes_def load_bytes_eq_map)

fun ptr_span :: "cptr \<Rightarrow> nat \<Rightarrow> addr set" where
  "ptr_span (Addr a) n = span a n"
| "ptr_span (Lit s) n = {}"

lemma rd_cong: "(\<And>b. b \<in> ptr_span p n \<Longrightarrow> m b = m' b) \<Longrightarrow> i < n \<Longrightarrow> rd m p (int i) = rd m' p (int i)"
  by (cases p) auto

lemma read_bytes_cong:
  "(\<And>b. b \<in> ptr_span p n \<Longrightarrow> m b = m' b) \<Longrightarrow> read_bytes m p n = read_bytes m' p n"
  using rd_cong [of p n m m'] by (auto simp: read_bytes_def)

lemma ptr_span_inc: "ptr_span (inc p) n \<subseteq> ptr_span p (Suc n)"
  by (cases p) (auto simp: span_Suc)

text \<open>The pointer reads as the NUL-terminated string \<open>s\<close>.\<close>

definition cstr :: "memory \<Rightarrow> cptr \<Rightarrow> u8 list \<Rightarrow> bool" where
  "cstr m p s \<longleftrightarrow> 0 \<notin> set s \<and> (\<forall>i<length s. rd m p (int i) = s ! i) \<and> rd m p (int (length s)) = 0"

lemma cstr_nth: "cstr m p s \<Longrightarrow> i < length s \<Longrightarrow> rd m p (int i) = s ! i \<and> s ! i \<noteq> 0"
  unfolding cstr_def by (metis nth_mem)

lemma cstr_end: "cstr m p s \<Longrightarrow> rd m p (int (length s)) = 0"
  by (simp add: cstr_def)

lemma cstr_rd: "cstr m p s \<Longrightarrow> i \<le> length s \<Longrightarrow> rd m p (int i) = (s @ [0]) ! i"
  by (cases "i = length s") (auto simp: cstr_def nth_append)

lemma cstr_Lit [simp]: "cstr m (Lit s) s \<longleftrightarrow> 0 \<notin> set s"
  by (auto simp: cstr_def)

lemma cstr_Addr: "cstr m (Addr a) s \<longleftrightarrow> 0 \<notin> set s \<and> load_bytes m a (Suc (length s)) = s @ [0]"
proof -
  have "load_bytes m a (Suc (length s)) = s @ [0] \<longleftrightarrow>
          (\<forall>i\<le>length s. m (a + of_nat i) = (s @ [0]) ! i)"
    by (auto simp: list_eq_iff_nth_eq nth_load_bytes less_Suc_eq_le
          simp del: load_bytes.simps)
  also have "\<dots> \<longleftrightarrow> (\<forall>i<length s. m (a + of_nat i) = s ! i) \<and> m (a + of_nat (length s)) = 0"
    by (auto simp: nth_append le_less)
  finally show ?thesis unfolding cstr_def by simp
qed

lemma cstr_cong:
  "(\<And>b. b \<in> span a (Suc (length s)) \<Longrightarrow> m b = m' b) \<Longrightarrow> cstr m (Addr a) s = cstr m' (Addr a) s"
  unfolding cstr_Addr using load_bytes_cong [of a "Suc (length s)" m m'] by simp

lemma cstr_ptr_cong:
  "(\<And>b. b \<in> ptr_span p (Suc (length s)) \<Longrightarrow> m b = m' b) \<Longrightarrow> cstr m p s = cstr m' p s"
  using rd_cong [of p "Suc (length s)" m m'] by (auto simp: cstr_def)

lemma cstr_Nil [simp]: "cstr m p [] \<longleftrightarrow> deref m p = 0"
  by (simp add: cstr_def)

lemma cstr_Cons: "cstr m p (c # s) \<longleftrightarrow> c \<noteq> 0 \<and> deref m p = c \<and> cstr m (inc p) s"
  by (auto simp: cstr_def less_Suc_eq_0_disj rd_inc rd_inc [symmetric])

lemma cstr_read_bytes: "cstr m p s \<Longrightarrow> n \<le> length s \<Longrightarrow> read_bytes m p n = take n s"
  by (rule nth_equalityI) (auto simp: cstr_def)

lemma cstr_unique: "cstr m p s \<Longrightarrow> cstr m p t \<Longrightarrow> s = t"
proof -
  have le: "length s \<le> length t" if "cstr m p s" "cstr m p t" for s t
  proof (rule ccontr)
    assume "\<not> ?thesis"
    then have "length t < length s" by simp
    with that show False using cstr_nth [of m p s "length t"] cstr_end [of m p t] by simp
  qed
  assume st: "cstr m p s" "cstr m p t"
  then have "length s = length t" using le [of s t] le [of t s] by simp
  then show ?thesis using st by (auto simp: cstr_def intro: nth_equalityI)
qed

text \<open>A memory that holds the given bytes at an address, zero elsewhere.\<close>

definition mem_of :: "addr \<Rightarrow> u8 list \<Rightarrow> memory" where
  "mem_of base bs a = (let i = unat (a - base) in if i < length bs then bs ! i else 0)"

lemma mem_of_nth: "i < 2 ^ 64 \<Longrightarrow> mem_of a bs (a + of_nat i) = (if i < length bs then bs ! i else 0)"
  by (simp add: mem_of_def unat_of_nat)

lemma load_bytes_numeral:
  "load_bytes m a (numeral k) = m a # load_bytes m (a + 1) (pred_numeral k)"
  by (simp add: numeral_eq_Suc)

lemma read_bytes_numeral:
  "read_bytes m p (numeral k) = deref m p # read_bytes m (inc p) (pred_numeral k)"
  by (simp add: numeral_eq_Suc read_bytes_Suc)

lemma read_bytes_1 [simp]: "read_bytes m p (Suc 0) = [deref m p]"
  by (simp add: read_bytes_Suc)

lemmas mem_eval = load_bytes_numeral read_bytes_numeral mem_of_def

lemma cstr_mem_of:
  "0 \<notin> set s \<Longrightarrow> length s < 2 ^ 64 \<Longrightarrow> cstr (mem_of a s) (Addr a) s"
  by (auto simp: cstr_def mem_of_nth)

end
