(* ===== verification/Machine.thy ===== *)
theory Machine
  imports Prelude
begin

text \<open>
  The machine below the kernel and the port accessors of \<open>kernel/io.c\<close>: the byte memory and the
  history of port accesses, oldest first.  What a device answers to a port read is outside the
  program: a function \<open>dev\<close> of the history and the port, an argument of every operation that reads
  a port.
\<close>

datatype io_event =
    Out8 u16 u8 | In8 u16 u8
  | Out16 u16 u16 | In16 u16 u16
  | Out32 u16 u32 | In32 u16 u32

type_synonym device = "io_event list \<Rightarrow> u16 \<Rightarrow> u32"

text \<open>
  What the build fixes before the kernel runs: the link-time addresses of its global arrays and of
  the stack buffers of the operations that have one, the entry points of the interrupt handlers, the
  byte the linker puts behind the keyboard map, the pointers it puts behind the table of PCI device
  classes, and the font (a file the build generates; a
  glyph is 16 rows of 8 bits, the leftmost pixel in bit 7).
\<close>

record image =
  hexTo_StringOutput_at :: addr
  to_hstring_value_at :: addr
  escapeSequence_at :: addr
  colorCode_at :: addr
  input_at :: addr
  headers_at :: addr
  idt_page_at :: addr
  strsplit_p1_at :: addr
  strsplit_p2_at :: addr
  log_str_at :: addr
  BOOT_LoaderName_at :: addr
  BOOT_LoaderVersion_at :: addr
  BOOT_str_at :: addr
  ACPI_str_at :: addr
  ACPI_OEMID_at :: addr
  ACPI_sig_at :: addr
  ACPI_entry_str_at :: addr
  checksum_str_at :: addr
  fullName_at :: addr
  nameInPath_at :: addr
  oldFullName_at :: addr
  oldNameInPath_at :: addr
  DefaultGDT_at :: addr
  PageFault_Handler_at :: addr
  DivideByZero_Handler_at :: addr
  DoubleFault_Handler_at :: addr
  GPFault_Handler_at :: addr
  Keyboard_Handler_at :: addr
  Test_Handler_at :: addr
  after_us_qwerty_ascii_ps2_mapping :: u8
  after_DeviceClasses :: "nat \<Rightarrow> addr"
  font :: "u8 \<Rightarrow> nat \<Rightarrow> u8"

text \<open>
  The answers of the boot loader: the pointers it stored in the request structures (0 when it did not
  answer).  What they point to is in the memory, laid out as \<open>limine.h\<close> says.
\<close>

record limine =
  bootloaderInfo_response :: addr
  fbRequest_response :: addr
  mmap_response :: addr
  module_response :: addr
  kernel_address_response :: addr
  hhdm_response :: addr
  rsdpReq_response :: addr

record machine =
  mem :: memory
  trace :: "io_event list"

definition emit :: "io_event \<Rightarrow> 'a machine_scheme \<Rightarrow> 'a machine_scheme" where
  "emit e s = s\<lparr>trace := trace s @ [e]\<rparr>"

definition outb :: "u16 \<Rightarrow> u8 \<Rightarrow> 'a machine_scheme \<Rightarrow> 'a machine_scheme" where
  "outb port value s = emit (Out8 port value) s"

definition inb :: "device \<Rightarrow> u16 \<Rightarrow> 'a machine_scheme \<Rightarrow> u8 \<times> 'a machine_scheme" where
  "inb dev port s = (let returnVal = ucast (dev (trace s) port) in
     (returnVal, emit (In8 port returnVal) s))"

definition inw :: "device \<Rightarrow> u16 \<Rightarrow> 'a machine_scheme \<Rightarrow> u16 \<times> 'a machine_scheme" where
  "inw dev port s = (let result = ucast (dev (trace s) port) in
     (result, emit (In16 port result) s))"

definition outw :: "u16 \<Rightarrow> u16 \<Rightarrow> 'a machine_scheme \<Rightarrow> 'a machine_scheme" where
  "outw port data s = emit (Out16 port data) s"

text \<open>
  \<open>inl\<close> keeps the 32-bit answer in a 16-bit local before it returns it, so its upper half is lost.
  Its port argument has 32 bits; the instruction addresses the low 16 of them.
\<close>

definition inl_port :: "device \<Rightarrow> u32 \<Rightarrow> 'a machine_scheme \<Rightarrow> u32 \<times> 'a machine_scheme" where
  "inl_port dev port s = (let eax = dev (trace s) (ucast port); result = ucast eax :: u16 in
     (ucast result, emit (In32 (ucast port) eax) s))"

definition outl :: "u16 \<Rightarrow> u32 \<Rightarrow> 'a machine_scheme \<Rightarrow> 'a machine_scheme" where
  "outl port data s = emit (Out32 port data) s"

definition io_wait :: "'a machine_scheme \<Rightarrow> 'a machine_scheme" where
  "io_wait s = emit (Out8 0x80 0) s"

lemma mem_emit [simp, frame]: "mem (emit e s) = mem s"
  by (simp add: emit_def)

lemma trace_emit [simp]: "trace (emit e s) = trace s @ [e]"
  by (simp add: emit_def)

lemmas port_defs = outb_def inb_def inw_def outw_def inl_port_def outl_def io_wait_def

lemma mem_outb [simp, frame]: "mem (outb p v s) = mem s"
  by (simp add: outb_def)

lemma trace_outb [simp]: "trace (outb p v s) = trace s @ [Out8 p v]"
  by (simp add: outb_def)

text \<open>The bytes a history sent to a port, in order.\<close>

fun sent :: "u16 \<Rightarrow> io_event list \<Rightarrow> u8 list" where
  "sent p [] = []"
| "sent p (Out8 q v # es) = (if q = p then v # sent p es else sent p es)"
| "sent p (e # es) = sent p es"

lemma sent_append [simp]: "sent p (xs @ ys) = sent p xs @ sent p ys"
  by (induction p xs rule: sent.induct) auto

end
