(* ===== verification/CMem.thy ===== *)
theory CMem
  imports Machine
begin

text \<open>
  \<open>kernel/memory/mem.c\<close>: \<open>memset\<close>, \<open>memcpy\<close> and \<open>memcmp\<close> byte by byte on the memory, and the two
  summaries of the boot loader's memory map, \<open>getMemSize\<close> and \<open>numPages\<close>.  (The C functions
  \<open>memset\<close> and \<open>memcpy\<close> also return their first argument; no caller uses it.)
\<close>

section \<open>The operations\<close>

text \<open>\<open>len\<close> is a C int that only counts down to 0; the stored byte is the low byte of \<open>c\<close>.\<close>

function memset :: "addr \<Rightarrow> u32 \<Rightarrow> int \<Rightarrow> memory \<Rightarrow> memory" where
  "memset p c len m = (if 0 < len then memset (p + 1) c (len - 1) (m(p := ucast c)) else m)"
  by pat_completeness auto
termination by (relation "measure (\<lambda>(p, c, len, m). nat len)") auto

declare memset.simps [simp del]

function memcpy_loop :: "addr \<Rightarrow> cptr \<Rightarrow> u64 \<Rightarrow> u64 \<Rightarrow> memory \<Rightarrow> memory" where
  "memcpy_loop dest src num i m =
     (if i < num then memcpy_loop dest src num (i + 1) (m(dest + i := rd m src (uint i))) else m)"
  by pat_completeness auto
termination
  by (relation "measure (\<lambda>(dest, src, num, i, m). unat num - unat i)")
    (auto simp: unat_Suc_less word_less_nat_alt)

declare memcpy_loop.simps [simp del]

definition memcpy :: "addr \<Rightarrow> cptr \<Rightarrow> u64 \<Rightarrow> memory \<Rightarrow> memory" where
  "memcpy destination source num m = memcpy_loop destination source num 0 m"

function memcmp_loop :: "memory \<Rightarrow> cptr \<Rightarrow> cptr \<Rightarrow> int \<Rightarrow> int" where
  "memcmp_loop m p q len =
     (if 0 < len
      then if deref m p \<noteq> deref m q then if deref m p > deref m q then 1 else -1
           else memcmp_loop m (inc p) (inc q) (len - 1)
      else 0)"
  by pat_completeness auto
termination by (relation "measure (\<lambda>(m, p, q, len). nat len)") auto

declare memcmp_loop.simps [simp del]

text \<open>The length is a signed 64-bit integer; equal pointers are answered without reading.\<close>

definition memcmp :: "memory \<Rightarrow> cptr \<Rightarrow> cptr \<Rightarrow> u64 \<Rightarrow> int" where
  "memcmp m s1 s2 len = (if s1 = s2 then 0 else memcmp_loop m s1 s2 (sint len))"

text \<open>The boot loader's memory map (\<open>struct limine_memmap_entry\<close>), in its order.\<close>

record limine_memmap_entry =
  me_base :: u64
  me_length :: u64
  me_type :: u64

fun getMemSize_loop :: "u64 \<Rightarrow> limine_memmap_entry list \<Rightarrow> u64" where
  "getMemSize_loop memSize [] = memSize"
| "getMemSize_loop memSize (e # es) = getMemSize_loop (memSize + me_length e) es"

definition getMemSize :: "limine_memmap_entry list \<Rightarrow> u64" where
  "getMemSize entries = getMemSize_loop 0 entries"

text \<open>\<open>pageCount\<close> is a 32-bit int; the sum with the 64-bit quotient is cut back to it.\<close>

fun numPages_loop :: "u32 \<Rightarrow> limine_memmap_entry list \<Rightarrow> u32" where
  "numPages_loop pageCount [] = pageCount"
| "numPages_loop pageCount (e # es) =
     numPages_loop
       (if me_length e > 4096 then ucast (scast pageCount + me_length e div 4194304)
        else pageCount + 1) es"

definition numPages :: "limine_memmap_entry list \<Rightarrow> int" where
  "numPages entries = sint (numPages_loop 0 entries)"

section \<open>\<open>memset\<close>\<close>

lemma memset_store: "memset p c (int n) m = store_bytes m p (replicate n (ucast c))"
proof (induction n arbitrary: p m)
  case 0 show ?case by (subst memset.simps) simp
next
  case (Suc n) then show ?case by (subst memset.simps) simp
qed

lemma memset_nonpos: "len \<le> 0 \<Longrightarrow> memset p c len m = m"
  by (subst memset.simps) simp

section \<open>\<open>memcpy\<close>\<close>

text \<open>
  No byte of the source is overwritten before it is read: true for constant sources, disjoint
  ranges, and a destination below an overlapping source.
\<close>

definition copy_safe :: "addr \<Rightarrow> cptr \<Rightarrow> nat \<Rightarrow> bool" where
  "copy_safe d src n \<longleftrightarrow>
     (case src of Lit s \<Rightarrow> True
      | Addr a \<Rightarrow> \<forall>j<n. \<forall>i<j. d + of_nat i \<noteq> a + of_nat j)"

lemma copy_safe_disjoint: "span d n \<inter> ptr_span src n = {} \<Longrightarrow> copy_safe d src n"
proof (cases src)
  case (Addr a)
  assume disj: "span d n \<inter> ptr_span src n = {}"
  { fix i j assume "j < n" "i < j"
    then have "d + of_nat i \<in> span d n" "a + of_nat j \<in> span a n" by simp_all
    then have "d + of_nat i \<noteq> a + of_nat j" using disj Addr by (auto simp: disjoint_iff) }
  then show ?thesis using Addr by (simp add: copy_safe_def)
qed (simp add: copy_safe_def)

lemma copy_safe_Suc: "copy_safe d src (Suc n) \<Longrightarrow> copy_safe (d + 1) (inc src) n"
proof (cases src)
  case (Addr a)
  assume safe: "copy_safe d src (Suc n)"
  { fix i j :: nat assume "j < n" "i < j"
    then have "d + of_nat (Suc i) \<noteq> a + of_nat (Suc j)"
      using safe Addr by (simp add: copy_safe_def del: of_nat_Suc)
    then have "d + 1 + of_nat i \<noteq> a + 1 + of_nat j" by (simp add: ac_simps) }
  then show ?thesis using Addr by (simp add: copy_safe_def)
qed (simp add: copy_safe_def)

lemma copy_safe_read:
  assumes "copy_safe d src (Suc n)"
  shows "read_bytes (m(d := v)) (inc src) n = read_bytes m (inc src) n"
proof (cases src)
  case (Addr a)
  have safe: "\<forall>j<Suc n. \<forall>i<j. d + of_nat i \<noteq> a + of_nat j"
    using assms Addr by (simp add: copy_safe_def)
  { fix j assume "j < n"
    then have "d + of_nat 0 \<noteq> a + of_nat (Suc j)"
      using safe [rule_format, of "Suc j" 0] by simp
    then have "d \<noteq> a + 1 + of_nat j" by (simp add: ac_simps) }
  then have "d \<notin> ptr_span (inc src) n" using Addr by (auto simp: in_span)
  then show ?thesis by (intro read_bytes_cong) (auto simp: fun_upd_apply)
qed (simp add: read_bytes_def)

text \<open>The loop with the pointers advanced instead of the index.\<close>

lemma memcpy_loop_store:
  assumes "copy_safe (dest + i) (ptr_add src i) n" and "n = unat num - unat i"
  shows "memcpy_loop dest src num i m = store_bytes m (dest + i) (read_bytes m (ptr_add src i) n)"
  using assms
proof (induction n arbitrary: i m)
  case 0
  then have "\<not> i < num" by (simp add: word_less_nat_alt)
  then show ?case by (subst memcpy_loop.simps) simp
next
  case (Suc n)
  then have lt: "i < num" by (simp add: word_less_nat_alt)
  have next_src: "ptr_add src (i + 1) = inc (ptr_add src i)"
    using unat_Suc_less [OF lt] by (cases src) (simp_all add: ac_simps)
  have n: "n = unat num - unat (i + 1)" using Suc.prems(2) unat_Suc_less [OF lt] by simp
  let ?m = "m(dest + i := rd m src (uint i))"
  have "memcpy_loop dest src num i m = memcpy_loop dest src num (i + 1) ?m"
    using lt by (subst memcpy_loop.simps) simp
  also have "\<dots> = store_bytes ?m (dest + (i + 1)) (read_bytes ?m (ptr_add src (i + 1)) n)"
    by (rule Suc.IH [OF _ n]) (use copy_safe_Suc [OF Suc.prems(1)] in \<open>simp add: next_src add.assoc\<close>)
  also have "read_bytes ?m (ptr_add src (i + 1)) n = read_bytes m (ptr_add src (i + 1)) n"
    using copy_safe_read [OF Suc.prems(1)] by (simp add: next_src)
  finally show ?case
    by (simp add: read_bytes_Suc next_src rd_ptr_add add.assoc)
qed

lemma memcpy_store:
  "copy_safe dest src (unat num) \<Longrightarrow>
     memcpy dest src num m = store_bytes m dest (read_bytes m src (unat num))"
  using memcpy_loop_store [of dest 0 src "unat num" num m] by (simp add: memcpy_def)

section \<open>\<open>memcmp\<close>\<close>

text \<open>The lexicographic comparison of two byte strings of one length.\<close>

fun byte_cmp :: "u8 list \<Rightarrow> u8 list \<Rightarrow> int" where
  "byte_cmp (x # xs) (y # ys) = (if x = y then byte_cmp xs ys else if x > y then 1 else -1)"
| "byte_cmp _ _ = 0"

lemma byte_cmp_0_iff: "length xs = length ys \<Longrightarrow> byte_cmp xs ys = 0 \<longleftrightarrow> xs = ys"
  by (induction xs ys rule: byte_cmp.induct) auto

lemma memcmp_loop_cmp:
  "memcmp_loop m p q (int n) = byte_cmp (read_bytes m p n) (read_bytes m q n)"
proof (induction n arbitrary: p q)
  case 0 show ?case by (subst memcmp_loop.simps) simp
next
  case (Suc n) then show ?case by (subst memcmp_loop.simps) (simp add: read_bytes_Suc)
qed

lemma byte_cmp_refl [simp]: "byte_cmp xs xs = 0"
  by (induction xs) auto

lemma memcmp_cmp:
  assumes "0 \<le> sint len" and "n = nat (sint len)"
  shows "memcmp m p q len = byte_cmp (read_bytes m p n) (read_bytes m q n)"
  using assms memcmp_loop_cmp [of m p q n] by (simp add: memcmp_def)

lemma memcmp_eq_0_iff:
  "0 \<le> sint len \<Longrightarrow> memcmp m p q len = 0 \<longleftrightarrow>
     read_bytes m p (nat (sint len)) = read_bytes m q (nat (sint len))"
  by (simp add: memcmp_cmp byte_cmp_0_iff)

section \<open>The memory map\<close>

lemma getMemSize_sum: "getMemSize es = (\<Sum>e\<leftarrow>es. me_length e)"
proof -
  have "getMemSize_loop a es = a + (\<Sum>e\<leftarrow>es. me_length e)" for a
    by (induction es arbitrary: a) auto
  then show ?thesis by (simp add: getMemSize_def)
qed

definition region_pages :: "limine_memmap_entry \<Rightarrow> u32" where
  "region_pages e = (if me_length e > 4096 then ucast (me_length e div 4194304) else 1)"

lemma ucast_add_64_32: "(ucast (a + b :: u64) :: u32) = ucast a + ucast b"
  by (simp add: word_unat_eq_iff unsigned_ucast_eq take_bit_eq_mod unat_word_ariths
        mod_mod_cancel mod_add_eq)

lemma ucast_scast_32_64: "(ucast (scast (w :: u32) :: u64) :: u32) = w"
  by (rule bit_eqI) (auto simp: bit_simps)

lemma numPages_sum: "numPages es = sint (\<Sum>e\<leftarrow>es. region_pages e)"
proof -
  have "numPages_loop c es = c + (\<Sum>e\<leftarrow>es. region_pages e)" for c
    by (induction es arbitrary: c)
      (auto simp: region_pages_def ucast_add_64_32 ucast_scast_32_64)
  then show ?thesis by (simp add: numPages_def)
qed

text \<open>A region larger than one 4 KiB page but smaller than 4 MiB counts no page at all.\<close>

lemma region_pages_small:
  "4096 < me_length e \<Longrightarrow> me_length e < 4194304 \<Longrightarrow> region_pages e = 0"
  by (simp add: region_pages_def word_less_nat_alt word_unat_eq_iff unat_div unsigned_ucast_eq)

section \<open>Properties\<close>

text \<open>
  \<open>memcpy\<close> copies: when the destination does not overwrite source bytes that are still to be
  read (disjoint ranges, or an overlapping destination below the source), the destination
  afterwards holds the bytes the source held before, and nothing else changes.
\<close>

theorem memcpy_copies:
  assumes "copy_safe dest src (unat num)"
  shows "load_bytes (memcpy dest src num m) dest (unat num) = read_bytes m src (unat num) \<and>
    (\<forall>b. b \<notin> span dest (unat num) \<longrightarrow> memcpy dest src num m b = m b)"
proof -
  have "unat num < 2 ^ 64" using unsigned_less [of num] by simp
  then show ?thesis
    using memcpy_store [OF assms, of m] store_bytes_frame [of _ dest "read_bytes m src (unat num)" m]
      load_store_bytes [of "read_bytes m src (unat num)" m dest] by simp
qed

theorem memcpy_copies_witness:
  "load_bytes (memcpy 0x100 (Addr 0x101) 2 (mem_of 0x100 [7, 8, 9])) 0x100 2 = [8, 9]"
proof -
  have "copy_safe 0x100 (Addr 0x101) (unat (2 :: u64))"
    by (auto simp: copy_safe_def dest!: less_2_cases)
  from memcpy_copies [OF this, of "mem_of 0x100 [7, 8, 9]"] show ?thesis
    by (simp add: mem_eval)
qed

text \<open>
  \<open>memcmp\<close> on a length that is not negative as a signed number is the lexicographic
  comparison of the two byte ranges as unsigned bytes: 0 exactly for equal ranges, otherwise
  1 or -1 by the first difference.
\<close>

theorem memcmp_compares:
  assumes "0 \<le> sint len"
  shows "memcmp m p q len = byte_cmp (read_bytes m p (nat (sint len))) (read_bytes m q (nat (sint len))) \<and>
    (memcmp m p q len = 0 \<longleftrightarrow> read_bytes m p (nat (sint len)) = read_bytes m q (nat (sint len)))"
  using assms by (simp add: memcmp_cmp byte_cmp_0_iff)

theorem memcmp_compares_witness:
  "memcmp (mem_of 0x100 [7, 0x80, 9]) (Addr 0x100) (Lit [7, 0x7F, 9]) 3 = 1"
  using memcmp_compares [of 3 "mem_of 0x100 [7, 0x80, 9]" "Addr 0x100" "Lit [7, 0x7F, 9]"]
  by (simp add: mem_eval)

text \<open>
  The two summaries of the memory map: \<open>getMemSize\<close> is the sum of all lengths (wrapping at
  2^64), \<open>numPages\<close> the sum of the pages of the regions, where a region of at most 4096 bytes counts
  one page and a larger one its number of whole 4 MiB blocks, so that a region between 4 KiB
  and 4 MiB counts none.
\<close>

theorem memory_map_summary:
  "getMemSize es = (\<Sum>e\<leftarrow>es. me_length e) \<and> numPages es = sint (\<Sum>e\<leftarrow>es. region_pages e) \<and>
   (4096 < me_length e \<and> me_length e < 4194304 \<longrightarrow> region_pages e = 0)"
  using getMemSize_sum numPages_sum region_pages_small by blast

theorem memory_map_summary_witness:
  "numPages [\<lparr>me_base = 0, me_length = 0x2000, me_type = 0\<rparr>] = 0"
  using memory_map_summary [of "[\<lparr>me_base = 0, me_length = 0x2000, me_type = 0\<rparr>]"
      "\<lparr>me_base = 0, me_length = 0x2000, me_type = 0\<rparr>"]
  by simp

end
