(* ===== verification/Serial.thy ===== *)
theory Serial
  imports Machine
begin

text \<open>
  The debug serial line of \<open>kernel/serial/comout.c\<close>: \<open>comout\<close> writes a C string byte by byte to
  port 0xE9, \<open>comout_num\<close> a 64-bit number as sixteen hexadecimal digits.
  (\<open>COM_LogWrapper\<close>, which also moves the text cursor, is in the theory Console.)
\<close>

text \<open>The loop index is a C int: 32 bits, read as a signed number.\<close>

partial_function (option) comout_loop ::
    "cptr \<Rightarrow> u32 \<Rightarrow> 'a machine_scheme \<Rightarrow> 'a machine_scheme option" where
  "comout_loop input i s =
     (if rd (mem s) input (sint i) \<noteq> 0
      then comout_loop input (i + 1) (outb 0xE9 (rd (mem s) input (sint i)) s)
      else Some s)"

definition comout :: "cptr \<Rightarrow> 'a machine_scheme \<Rightarrow> 'a machine_scheme option" where
  "comout input s = comout_loop input 0 s"

definition hex_digits :: "u8 list" where
  "hex_digits = map of_char ''0123456789abcdef''"

fun comout_num_loop :: "nat \<Rightarrow> u64 \<Rightarrow> 'a machine_scheme \<Rightarrow> 'a machine_scheme option" where
  "comout_num_loop 0 num s = Some s"
| "comout_num_loop (Suc n) num s =
     do { s \<leftarrow> comout (Lit [hex_digits ! unat (drop_bit 60 num)]) s;
          comout_num_loop n (push_bit 4 num) s }"

definition comout_num :: "u64 \<Rightarrow> 'a machine_scheme \<Rightarrow> 'a machine_scheme option" where
  "comout_num num s = comout_num_loop 16 num s"

section \<open>Behaviour\<close>

definition debug_out :: "u8 list \<Rightarrow> 'a machine_scheme \<Rightarrow> 'a machine_scheme" where
  "debug_out t s = s\<lparr>trace := trace s @ map (Out8 0xE9) t\<rparr>"

lemma debug_out_Nil [simp]: "debug_out [] s = s"
  by (simp add: debug_out_def)

lemma debug_out_append: "debug_out u (debug_out t s) = debug_out (t @ u) s"
  by (simp add: debug_out_def)

lemma mem_debug_out [simp, frame]: "mem (debug_out t s) = mem s"
  by (simp add: debug_out_def)

lemma sent_map_Out8 [simp]: "sent p (map (Out8 q) t) = (if p = q then t else [])"
  by (induction t) auto

lemma sent_debug_out: "sent 0xE9 (trace (debug_out t s)) = sent 0xE9 (trace s) @ t"
  by (simp add: debug_out_def)

lemma outb_debug_out: "outb 0xE9 c s = debug_out [c] s"
  by (simp add: outb_def emit_def debug_out_def)

lemma comout_loop_string:
  assumes "cstr (mem s) p t" and "length t < 2 ^ 31" and "k \<le> length t"
  shows "comout_loop p (of_nat k) s = Some (debug_out (drop k t) s)"
  using assms(3,1)
proof (induction "length t - k" arbitrary: k s)
  case 0
  then have "k = length t" by simp
  with 0 assms(2) show ?case
    by (subst comout_loop.simps) (simp add: sint_of_nat32 cstr_end)
next
  case (Suc n)
  then have k: "k < length t" by simp
  have "comout_loop p (of_nat k) s = comout_loop p (of_nat (Suc k)) (debug_out [t ! k] s)"
    using k assms(2) Suc.prems(2) cstr_nth [OF Suc.prems(2) k]
    by (subst comout_loop.simps) (simp add: sint_of_nat32 outb_debug_out add.commute)
  also have "\<dots> = Some (debug_out (drop (Suc k) t) (debug_out [t ! k] s))"
    using Suc.hyps(1) [of "Suc k" "debug_out [t ! k] s"] Suc.hyps(2) Suc.prems k by simp
  also have "\<dots> = Some (debug_out (drop k t) s)"
    using k by (simp add: debug_out_append Cons_nth_drop_Suc)
  finally show ?case .
qed

lemma comout_string:
  "cstr (mem s) p t \<Longrightarrow> length t < 2 ^ 31 \<Longrightarrow> comout p s = Some (debug_out t s)"
  using comout_loop_string [of s p t 0] by (simp add: comout_def)

lemma comout_char: "comout (Lit [c]) s = Some (if c = 0 then s else debug_out [c] s)"
proof (cases "c = 0")
  case True then show ?thesis
    by (simp add: comout_def comout_loop.simps [of _ 0])
next
  case False then show ?thesis by (simp add: comout_string)
qed

text \<open>The digits of a number, most significant first.\<close>

fun nibbles :: "nat \<Rightarrow> u64 \<Rightarrow> u8 list" where
  "nibbles 0 w = []"
| "nibbles (Suc n) w = hex_digits ! unat (drop_bit 60 w) # nibbles n (push_bit 4 w)"

lemma top_nibble_lt: "unat (drop_bit 60 (w :: u64)) < 16"
proof -
  have "unat (drop_bit 60 w) = unat w div 2 ^ 60" by (rule unat_drop_bit_div)
  moreover have "unat w < 2 ^ 64" using unsigned_less [of w] by simp
  ultimately show ?thesis by (simp add: less_mult_imp_div_less)
qed

lemma hex_digit_nonzero: "n < 16 \<Longrightarrow> hex_digits ! n \<noteq> 0"
  by (drule less_16_cases) (auto simp: hex_digits_def)

lemma comout_num_loop_nibbles: "comout_num_loop n w s = Some (debug_out (nibbles n w) s)"
  by (induction n arbitrary: w s)
    (simp_all add: comout_char debug_out_append hex_digit_nonzero top_nibble_lt)

text \<open>Reading the digits back.\<close>

definition hex_value :: "u8 \<Rightarrow> nat" where
  "hex_value c = (if c < 58 then unat c - 48 else unat c - 87)"

definition hex_decode :: "u8 list \<Rightarrow> nat" where
  "hex_decode t = foldl (\<lambda>a c. 16 * a + hex_value c) 0 t"

lemma hex_value_digit: "n < 16 \<Longrightarrow> hex_value (hex_digits ! n) = n"
  by (drule less_16_cases) (auto simp: hex_digits_def hex_value_def)

lemma unat_nibble_split:
  "unat (w :: u64) * 16 = unat (drop_bit 60 w) * 2 ^ 64 + unat (push_bit 4 w)"
proof -
  have "unat (push_bit 4 w) = (unat w * 16) mod 2 ^ 64"
    by (simp add: push_bit_eq_mult unat_word_ariths mult.commute)
  moreover have "unat (drop_bit 60 w) = (unat w * 16) div 2 ^ 64"
  proof -
    have "unat (drop_bit 60 w) = unat w div 2 ^ 60" by (rule unat_drop_bit_div)
    also have "\<dots> = (unat w * 16) div (2 ^ 60 * 16)" by simp
    finally show ?thesis by simp
  qed
  ultimately show ?thesis by (metis div_mult_mod_eq)
qed

lemma nibbles_decode:
  "foldl (\<lambda>a c. 16 * a + hex_value c) a (nibbles n w) * 2 ^ 64
     + unat (push_bit (4 * n) w) = (a * 2 ^ 64 + unat w) * 16 ^ n"
proof (induction n arbitrary: a w)
  case 0 show ?case by simp
next
  case (Suc n)
  let ?d = "unat (drop_bit 60 w)"
  have "push_bit (4 * Suc n) w = push_bit (4 * n) (push_bit 4 w)" by (simp add: add.commute)
  then have "foldl (\<lambda>a c. 16 * a + hex_value c) a (nibbles (Suc n) w) * 2 ^ 64
      + unat (push_bit (4 * Suc n) w)
      = ((16 * a + ?d) * 2 ^ 64 + unat (push_bit 4 w)) * 16 ^ n"
    using Suc [of "16 * a + ?d" "push_bit 4 w"] by (simp add: hex_value_digit top_nibble_lt)
  also have "(16 * a + ?d) * 2 ^ 64 + unat (push_bit 4 w) = (a * 2 ^ 64 + unat w) * 16"
    using unat_nibble_split [of w] by (simp add: algebra_simps)
  finally show ?case by (simp add: mult.assoc)
qed

lemma push_bit_64 [simp]: "push_bit 64 (w :: u64) = 0"
  by (rule bit_eqI) (simp add: bit_simps)

lemma hex_decode_nibbles: "hex_decode (nibbles 16 w) = unat w"
  using nibbles_decode [of 0 16 w] by (simp add: hex_decode_def)

lemma length_nibbles [simp]: "length (nibbles n w) = n"
  by (induction n arbitrary: w) auto

section \<open>Properties\<close>

text \<open>
  \<open>comout_num\<close> always returns, sends exactly sixteen hexadecimal digits to the debug port and
  does nothing else; read back, the digits denote the number.
\<close>

theorem comout_num_roundtrip:
  "\<exists>t. comout_num w s = Some (debug_out t s) \<and> length t = 16 \<and> hex_decode t = unat w"
  using hex_decode_nibbles [of w] by (auto simp: comout_num_def comout_num_loop_nibbles)

end
