(* ===== verification/Heap.thy ===== *)
theory Heap
  imports CMem Serial
begin

text \<open>
  The kernel heap of \<open>kernel/memory/malloc.c\<close> with its globals (declared in
  \<open>kernel/memory/mem.c\<close>).  A block is a 16-byte header (\<open>mem_control_blk\<close>: the free flag at
  offset 0, the size of the whole block at offset 8) followed by the payload.  The interface the
  rest of the kernel relies on is the locale \<open>allocator\<close>, which \<open>malloc\<close> implements.
\<close>

record heap = machine +
  kernieHeap_is_set_up :: bool
  have_allocated :: bool
  last_valid_address :: addr
  kernieHeap_space :: addr

section \<open>The operations\<close>

abbreviation sizeof_mcb :: u64 where
  "sizeof_mcb \<equiv> 16"

definition mcb_free :: "memory \<Rightarrow> addr \<Rightarrow> bool" where
  "mcb_free m mcb \<longleftrightarrow> m mcb \<noteq> 0"

definition mcb_size :: "memory \<Rightarrow> addr \<Rightarrow> u64" where
  "mcb_size m mcb = load64 m (mcb + 8)"

definition set_mcb_free :: "bool \<Rightarrow> addr \<Rightarrow> memory \<Rightarrow> memory" where
  "set_mcb_free b mcb m = m(mcb := (if b then 1 else 0))"

definition set_mcb_size :: "u64 \<Rightarrow> addr \<Rightarrow> memory \<Rightarrow> memory" where
  "set_mcb_size n mcb m = store64 m (mcb + 8) n"

lemma next_mod_4:
  assumes "(p :: addr) mod 4 \<noteq> 0"
  shows "(4 - unat (p + 1) mod 4) mod 4 < (4 - unat p mod 4) mod 4"
proof -
  have "unat p mod 4 \<noteq> 0"
    using assms by (simp add: word_unat_eq_iff unat_mod_distrib)
  moreover have "unat (p + 1) mod 4 = (unat p + 1) mod 4"
    by (simp add: unat_word_ariths mod_mod_cancel)
  moreover have "unat p mod 4 < 4" by simp
  ultimately show ?thesis by (simp add: mod_Suc) linarith
qed

function aligned_ptr :: "addr \<Rightarrow> addr" where
  "aligned_ptr ptr = (if ptr mod 4 \<noteq> 0 then aligned_ptr (ptr + 1) else ptr)"
  by pat_completeness auto
termination
  by (relation "measure (\<lambda>p. (4 - unat p mod 4) mod 4)") (auto intro: next_mod_4)

declare aligned_ptr.simps [simp del]

text \<open>
  The search of \<open>malloc\<close>.  Its header pointer \<open>mcb\<close> is set before the loop and never moved, so
  every round looks at the first block's header; each round also prints the bytes at the current
  pointer.  The result 0 is ``nothing found''.
\<close>

partial_function (option) malloc_scan ::
    "u64 \<Rightarrow> addr \<Rightarrow> addr \<Rightarrow> 'a heap_scheme \<Rightarrow> (addr \<times> 'a heap_scheme) option" where
  "malloc_scan sz mcb current_ptr s =
     (if current_ptr \<noteq> last_valid_address s
      then if mcb_free (mem s) mcb \<and> sz \<le> mcb_size (mem s) mcb
           then Some (current_ptr, s\<lparr>mem := set_mcb_free False mcb (mem s)\<rparr>)
           else Option.bind
                  (comout (Addr (aligned_ptr (current_ptr + mcb_size (mem s) mcb))) s)
                  (malloc_scan sz mcb (aligned_ptr (current_ptr + mcb_size (mem s) mcb)))
      else Some (0, s))"

definition heap_setup :: "'a heap_scheme \<Rightarrow> 'a heap_scheme" where
  "heap_setup s =
     (if \<not> kernieHeap_is_set_up s
      then s\<lparr>last_valid_address := kernieHeap_space s, kernieHeap_is_set_up := True\<rparr> else s)"

definition malloc_extend :: "u64 \<Rightarrow> 'a heap_scheme \<Rightarrow> addr \<times> 'a heap_scheme" where
  "malloc_extend sz s =
     (let loc = last_valid_address s in
      (loc, s\<lparr>last_valid_address := loc + sz,
              mem := set_mcb_size sz loc (set_mcb_free False loc (mem s))\<rparr>))"

definition malloc :: "u64 \<Rightarrow> 'a heap_scheme \<Rightarrow> (addr \<times> 'a heap_scheme) option" where
  "malloc sz s =
     do { let s = heap_setup s;
          let current_ptr = kernieHeap_space s;
          let sz = sz + sizeof_mcb;
          (allocated_location, s) \<leftarrow>
            (if have_allocated s then malloc_scan sz current_ptr current_ptr s else Some (0, s));
          let (allocated_location, s) =
            (if allocated_location = 0 then malloc_extend sz s else (allocated_location, s));
          Some (allocated_location + sizeof_mcb, s) }"

definition free :: "addr \<Rightarrow> 'a heap_scheme \<Rightarrow> 'a heap_scheme" where
  "free ptr s =
     (if ptr = 0 then s
      else let mcb = ptr - sizeof_mcb in
        if mcb_size (mem s) mcb = 0 then s
        else s\<lparr>mem := set_mcb_free True mcb (mem s)\<rparr>)"

definition realloc :: "addr \<Rightarrow> u64 \<Rightarrow> 'a heap_scheme \<Rightarrow> (addr \<times> 'a heap_scheme) option" where
  "realloc ptr sz s =
     (if ptr = 0 then malloc sz s
      else if sz = 0 then Some (0, free ptr s)
      else do { (new_ptr, s) \<leftarrow> malloc sz s;
                let mcb = ptr - sizeof_mcb;
                let s = s\<lparr>mem := memcpy new_ptr (Addr ptr) (mcb_size (mem s) mcb) (mem s)\<rparr>;
                Some (new_ptr, free ptr s) })"

definition MEM_Init :: "addr \<Rightarrow> 'a heap_scheme \<Rightarrow> 'a heap_scheme" where
  "MEM_Init addr s = s\<lparr>kernieHeap_space := addr\<rparr>"

section \<open>The allocator interface\<close>

text \<open>
  What a client of an allocator relies on.  \<open>wf s bs\<close>: in state \<open>s\<close> the payloads handed out so far
  are \<open>bs\<close> (address and length, oldest first); \<open>room s k\<close>: the arena reaches \<open>k\<close> bytes further.
\<close>

definition payload :: "addr \<times> nat \<Rightarrow> addr set" where
  "payload b = span (fst b) (snd b)"

fun disjoint_payloads :: "(addr \<times> nat) list \<Rightarrow> bool" where
  "disjoint_payloads [] \<longleftrightarrow> True"
| "disjoint_payloads (b # bs) \<longleftrightarrow>
     (\<forall>c\<in>set bs. payload b \<inter> payload c = {}) \<and> disjoint_payloads bs"

lemma disjoint_payloads_append:
  "disjoint_payloads (bs @ cs) \<longleftrightarrow> disjoint_payloads bs \<and> disjoint_payloads cs \<and>
     (\<forall>b\<in>set bs. \<forall>c\<in>set cs. payload b \<inter> payload c = {})"
  by (induction bs) auto

fun alloc_list :: "(u64 \<Rightarrow> 's \<Rightarrow> (addr \<times> 's) option) \<Rightarrow> u64 list \<Rightarrow> 's \<Rightarrow> (addr list \<times> 's) option" where
  "alloc_list alloc [] s = Some ([], s)"
| "alloc_list alloc (n # ns) s =
     do { (p, s) \<leftarrow> alloc n s; (ps, s) \<leftarrow> alloc_list alloc ns s; Some (p # ps, s) }"

locale allocator =
  fixes alloc :: "u64 \<Rightarrow> 's \<Rightarrow> (addr \<times> 's) option"
    and wf :: "'s \<Rightarrow> (addr \<times> nat) list \<Rightarrow> bool"
    and room :: "'s \<Rightarrow> nat \<Rightarrow> bool"
    and bytes :: "'s \<Rightarrow> memory"
    and overhead :: nat
  assumes alloc_total: "wf s bs \<Longrightarrow> room s (unat n + overhead + k) \<Longrightarrow>
      \<exists>p s'. alloc n s = Some (p, s') \<and> wf s' (bs @ [(p, unat n)]) \<and> room s' k \<and>
        (\<forall>b\<in>set bs. \<forall>x\<in>payload b. bytes s' x = bytes s x)"
    and wf_disjoint: "wf s bs \<Longrightarrow> disjoint_payloads bs"
begin

lemma alloc_list_total:
  "wf s bs \<Longrightarrow> room s (sum_list (map (\<lambda>n. unat n + overhead) ns)) \<Longrightarrow>
     \<exists>ps s'. alloc_list alloc ns s = Some (ps, s') \<and> length ps = length ns \<and>
       wf s' (bs @ zip ps (map unat ns)) \<and>
       (\<forall>b\<in>set bs. \<forall>x\<in>payload b. bytes s' x = bytes s x)"
proof (induction ns arbitrary: s bs)
  case Nil then show ?case by simp
next
  case (Cons n ns)
  from Cons.prems obtain p s1 where s1: "alloc n s = Some (p, s1)" "wf s1 (bs @ [(p, unat n)])"
    "room s1 (sum_list (map (\<lambda>n. unat n + overhead) ns))"
    "\<forall>b\<in>set bs. \<forall>x\<in>payload b. bytes s1 x = bytes s x"
    using alloc_total [OF Cons.prems(1), of n "sum_list (map (\<lambda>n. unat n + overhead) ns)"]
    by (auto simp: add.assoc)
  from Cons.IH [OF s1(2,3)] obtain ps s2 where s2:
    "alloc_list alloc ns s1 = Some (ps, s2)" "length ps = length ns"
    "wf s2 (bs @ (p, unat n) # zip ps (map unat ns))"
    "\<forall>b\<in>set (bs @ [(p, unat n)]). \<forall>x\<in>payload b. bytes s2 x = bytes s1 x"
    by auto
  then show ?case using s1 by auto
qed

lemma alloc_list_disjoint:
  assumes "wf s bs" and "room s (sum_list (map (\<lambda>n. unat n + overhead) ns))"
  shows "\<exists>ps s'. alloc_list alloc ns s = Some (ps, s') \<and> length ps = length ns \<and>
    disjoint_payloads (bs @ zip ps (map unat ns))"
  using alloc_list_total [OF assms] wf_disjoint by blast

end

section \<open>\<open>malloc\<close> is an allocator\<close>

text \<open>Consecutive blocks from \<open>a\<close> to \<open>e\<close>; \<open>ns\<close> are their sizes, headers included.\<close>

fun heap_chain :: "memory \<Rightarrow> addr \<Rightarrow> nat list \<Rightarrow> addr \<Rightarrow> bool" where
  "heap_chain m a [] e \<longleftrightarrow> a = e"
| "heap_chain m a (n # ns) e \<longleftrightarrow>
     16 \<le> n \<and> n < 2 ^ 64 \<and> mcb_size m a = of_nat n \<and> heap_chain m (a + of_nat n) ns e"

fun block_payloads :: "addr \<Rightarrow> nat list \<Rightarrow> (addr \<times> nat) list" where
  "block_payloads a [] = []"
| "block_payloads a (n # ns) = (a + sizeof_mcb, n - 16) # block_payloads (a + of_nat n) ns"

lemma heap_chain_end: "heap_chain m a ns e \<Longrightarrow> e = a + of_nat (sum_list ns)"
proof (induction ns arbitrary: a)
  case (Cons n ns)
  then have "e = a + of_nat n + of_nat (sum_list ns)" by simp
  then show ?case by (simp add: add.assoc)
qed simp

lemma heap_chain_append:
  "heap_chain m a (ns @ ks) e \<longleftrightarrow>
     heap_chain m a ns (a + of_nat (sum_list ns)) \<and> heap_chain m (a + of_nat (sum_list ns)) ks e"
  by (induction ns arbitrary: a) (auto simp: add.assoc)

lemma mcb_size_cong:
  assumes "\<And>x. x \<in> span a 16 \<Longrightarrow> m' x = m x"
  shows "mcb_size m' a = mcb_size m a"
  unfolding mcb_size_def
proof (rule c64.ld_cong)
  fix b assume "b \<in> span (a + 8) 8"
  then have "b \<in> span a 16" using span_sub [of 8 8 16 a] by auto
  then show "m' b = m b" by (rule assms)
qed

lemma heap_chain_cong:
  "(\<And>x. x \<in> span a (sum_list ns) \<Longrightarrow> m' x = m x) \<Longrightarrow> heap_chain m' a ns e = heap_chain m a ns e"
proof (induction ns arbitrary: a)
  case (Cons n ns)
  have "heap_chain m' (a + of_nat n) ns e = heap_chain m (a + of_nat n) ns e"
    using Cons.prems span_append [of a n "sum_list ns"] by (intro Cons.IH) auto
  moreover have "16 \<le> n \<Longrightarrow> mcb_size m' a = mcb_size m a"
    using Cons.prems span_mono [of 16 "sum_list (n # ns)" a] by (intro mcb_size_cong) auto
  ultimately show ?case by auto
qed simp

lemma block_payloads_append:
  "block_payloads a (ns @ ks) =
     block_payloads a ns @ block_payloads (a + of_nat (sum_list ns)) ks"
  by (induction ns arbitrary: a) (auto simp: add.assoc)

lemma payload_in_block: "16 \<le> n \<Longrightarrow> payload (a + sizeof_mcb, n - 16) \<subseteq> span a n"
  using span_sub [of 16 "n - 16" n a] by (simp add: payload_def)

lemma payloads_in_arena:
  "heap_chain m a ns e \<Longrightarrow> b \<in> set (block_payloads a ns) \<Longrightarrow> payload b \<subseteq> span a (sum_list ns)"
proof (induction ns arbitrary: a)
  case (Cons n ns)
  then have "b = (a + sizeof_mcb, n - 16) \<or> payload b \<subseteq> span (a + of_nat n) (sum_list ns)"
    by auto
  then show ?case using Cons.prems payload_in_block [of n a] span_append [of a n "sum_list ns"]
    by auto
qed simp

lemma payloads_disjoint:
  "heap_chain m a ns e \<Longrightarrow> sum_list ns \<le> 2 ^ 64 \<Longrightarrow> disjoint_payloads (block_payloads a ns)"
proof (induction ns arbitrary: a)
  case (Cons n ns)
  have "payload (a + sizeof_mcb, n - 16) \<inter> payload c = {}"
    if "c \<in> set (block_payloads (a + of_nat n) ns)" for c
  proof -
    have "payload c \<subseteq> span (a + of_nat n) (sum_list ns)"
      using Cons.prems that by (intro payloads_in_arena) auto
    moreover have "payload (a + sizeof_mcb, n - 16) \<subseteq> span a n"
      using Cons.prems by (intro payload_in_block) simp
    moreover have "span (a + of_nat n) (sum_list ns) \<inter> span a n = {}"
      using Cons.prems by (intro span_next_disj) simp
    ultimately show ?thesis by blast
  qed
  then show ?case using Cons by auto
qed simp

text \<open>
  The heap invariant: nothing has set \<open>have_allocated\<close>, the blocks \<open>ns\<close> fill the arena from
  \<open>kernieHeap_space\<close> to \<open>last_valid_address\<close>, and the arena does not wrap.
\<close>

definition heap_top :: "'a heap_scheme \<Rightarrow> addr" where
  "heap_top s = (if kernieHeap_is_set_up s then last_valid_address s else kernieHeap_space s)"

definition heap_blocks :: "'a heap_scheme \<Rightarrow> nat list \<Rightarrow> bool" where
  "heap_blocks s ns \<longleftrightarrow>
     \<not> have_allocated s \<and> (\<not> kernieHeap_is_set_up s \<longrightarrow> ns = []) \<and>
     heap_chain (mem s) (kernieHeap_space s) ns (heap_top s) \<and>
     unat (kernieHeap_space s) + sum_list ns < 2 ^ 64"

definition heap_wf :: "'a heap_scheme \<Rightarrow> (addr \<times> nat) list \<Rightarrow> bool" where
  "heap_wf s bs \<longleftrightarrow> (\<exists>ns. heap_blocks s ns \<and> bs = block_payloads (kernieHeap_space s) ns)"

definition heap_room :: "'a heap_scheme \<Rightarrow> nat \<Rightarrow> bool" where
  "heap_room s k \<longleftrightarrow> unat (heap_top s) + k < 2 ^ 64"

lemma heap_blocks_top:
  assumes "heap_blocks s ns"
  shows "heap_top s = kernieHeap_space s + of_nat (sum_list ns)"
    and "unat (heap_top s) = unat (kernieHeap_space s) + sum_list ns"
proof -
  show top: "heap_top s = kernieHeap_space s + of_nat (sum_list ns)"
    using assms heap_chain_end unfolding heap_blocks_def by blast
  have "unat (of_nat (sum_list ns) :: addr) = sum_list ns"
    using assms by (intro unat_of_nat_lt) (simp add: heap_blocks_def)
  then show "unat (heap_top s) = unat (kernieHeap_space s) + sum_list ns"
    using assms by (simp add: top unat_word_ariths heap_blocks_def)
qed

text \<open>While \<open>have_allocated\<close> is false \<open>malloc\<close> only ever extends the arena.\<close>

definition bump_mem :: "u64 \<Rightarrow> addr \<Rightarrow> memory \<Rightarrow> memory" where
  "bump_mem sz loc m = set_mcb_size sz loc (set_mcb_free False loc m)"

lemma malloc_bump:
  "\<not> have_allocated s \<Longrightarrow> malloc n s = Some (heap_top s + sizeof_mcb,
     s\<lparr>kernieHeap_is_set_up := True, last_valid_address := heap_top s + (n + sizeof_mcb),
       mem := bump_mem (n + sizeof_mcb) (heap_top s) (mem s)\<rparr>)"
  by (simp add: malloc_def heap_setup_def malloc_extend_def heap_top_def bump_mem_def Let_def)

lemma bump_mem_size: "mcb_size (bump_mem sz loc m) loc = sz"
  by (simp add: mcb_size_def bump_mem_def set_mcb_size_def)

lemma bump_mem_frame:
  assumes "x \<notin> span loc 16"
  shows "bump_mem sz loc m x = m x"
proof -
  have "x \<noteq> loc" using assms span_nth [of 0 16 loc] by auto
  moreover have "x \<notin> span (loc + 8) 8" using assms span_sub [of 8 8 16 loc] by auto
  ultimately show ?thesis
    by (simp add: bump_mem_def set_mcb_size_def set_mcb_free_def c64.st_frame)
qed

lemma malloc_blocks:
  assumes "heap_blocks s ns" and "heap_room s (unat n + 16)" and "malloc n s = Some (p, s')"
  shows "heap_blocks s' (ns @ [unat n + 16])" and "p = heap_top s + sizeof_mcb"
    and "kernieHeap_space s' = kernieHeap_space s"
    and "unat (heap_top s') = unat (heap_top s) + (unat n + 16)"
proof -
  let ?a = "kernieHeap_space s" and ?N = "sum_list ns"
  note top = heap_blocks_top [OF assms(1)]
  have na: "\<not> have_allocated s" using assms(1) by (simp add: heap_blocks_def)
  note bump = malloc_bump [OF na, of n]
  show "p = heap_top s + sizeof_mcb" "kernieHeap_space s' = ?a" using assms(3) bump by auto
  have sz: "unat (n + sizeof_mcb) = unat n + 16"
    using assms(2) by (simp add: heap_room_def unat_word_ariths)
  have top': "heap_top s' = heap_top s + (n + sizeof_mcb)"
    using assms(3) bump by (auto simp: heap_top_def)
  show "unat (heap_top s') = unat (heap_top s) + (unat n + 16)"
    using assms(2) sz unfolding top' by (simp add: heap_room_def unat_word_ariths)
  have size_of: "of_nat (unat n + 16) = n + sizeof_mcb" by simp
  have "heap_chain (mem s') ?a ns (heap_top s)"
  proof -
    have "mem s' x = mem s x" if "x \<in> span ?a ?N" for x
    proof -
      have "span (?a + of_nat ?N) 16 \<inter> span ?a ?N = {}"
        using assms(2) top by (intro span_next_disj) (simp add: heap_room_def)
      then have "x \<notin> span (heap_top s) 16" using that top(1) by auto
      then show ?thesis using assms(3) bump by (auto simp: bump_mem_frame)
    qed
    then show ?thesis using assms(1) heap_chain_cong [of ?a ns "mem s'" "mem s"]
      by (simp add: heap_blocks_def)
  qed
  moreover have "mcb_size (mem s') (heap_top s) = n + sizeof_mcb"
    using assms(3) bump by (auto simp: bump_mem_size)
  ultimately show "heap_blocks s' (ns @ [unat n + 16])"
    using assms(2,3) bump sz top top' size_of na
    by (auto simp: heap_blocks_def heap_chain_append heap_room_def)
qed

lemma malloc_payload_frame:
  assumes "heap_blocks s ns" and "heap_room s (unat n + 16)" and "malloc n s = Some (p, s')"
    and "x \<in> span (kernieHeap_space s) (sum_list ns)"
  shows "mem s' x = mem s x"
proof -
  note top = heap_blocks_top [OF assms(1)]
  have "span (kernieHeap_space s + of_nat (sum_list ns)) 16 \<inter> span (kernieHeap_space s) (sum_list ns) = {}"
    using assms(2) top by (intro span_next_disj) (simp add: heap_room_def)
  then have "x \<notin> span (heap_top s) 16" using assms(4) top(1) by auto
  then show ?thesis
    using assms(1,3) malloc_bump [of s n] by (auto simp: heap_blocks_def bump_mem_frame)
qed

lemma heap_wf_malloc:
  assumes "heap_wf s bs" and "heap_room s (unat n + 16 + k)"
  shows "\<exists>p s'. malloc n s = Some (p, s') \<and> heap_wf s' (bs @ [(p, unat n)]) \<and> heap_room s' k \<and>
    (\<forall>b\<in>set bs. \<forall>x\<in>payload b. mem s' x = mem s x)"
proof -
  from assms(1) obtain ns where ns: "heap_blocks s ns" "bs = block_payloads (kernieHeap_space s) ns"
    by (auto simp: heap_wf_def)
  have room: "heap_room s (unat n + 16)" using assms(2) by (simp add: heap_room_def)
  obtain p s' where m: "malloc n s = Some (p, s')"
    using ns(1) malloc_bump [of s n] by (auto simp: heap_blocks_def)
  note res = malloc_blocks [OF ns(1) room m]
  have "bs @ [(p, unat n)] = block_payloads (kernieHeap_space s') (ns @ [unat n + 16])"
    using heap_blocks_top(1) [OF ns(1)] by (simp add: block_payloads_append ns(2) res(2,3))
  then have "heap_wf s' (bs @ [(p, unat n)])" using res(1) unfolding heap_wf_def by blast
  moreover have "heap_room s' k" using assms(2) res(4) by (simp add: heap_room_def)
  moreover have "mem s' x = mem s x" if "b \<in> set bs" "x \<in> payload b" for b x
  proof -
    have "x \<in> span (kernieHeap_space s) (sum_list ns)"
      using that ns payloads_in_arena unfolding heap_blocks_def by blast
    then show ?thesis by (rule malloc_payload_frame [OF ns(1) room m])
  qed
  ultimately show ?thesis using m by blast
qed

lemma heap_wf_disjoint: "heap_wf s bs \<Longrightarrow> disjoint_payloads bs"
  using payloads_disjoint by (fastforce simp: heap_wf_def heap_blocks_def)

text \<open>A client that writes inside one of its payloads does not disturb the heap.\<close>

lemma heap_chain_write:
  assumes "\<And>x. x \<notin> payload b \<Longrightarrow> m' x = m x"
  shows "heap_chain m a ns e \<Longrightarrow> sum_list ns \<le> 2 ^ 64 \<Longrightarrow> b \<in> set (block_payloads a ns) \<Longrightarrow> heap_chain m' a ns e"
proof (induction ns arbitrary: a)
  case (Cons n ns)
  then have n: "16 \<le> n" "n < 2 ^ 64" and rest: "heap_chain m (a + of_nat n) ns e" by simp_all
  have next_block: "span (a + of_nat n) (sum_list ns) \<inter> span a n = {}"
    using Cons.prems(2) by (intro span_next_disj) simp
  have header: "span a 16 \<subseteq> span a n" using n by (intro span_mono) simp
  consider "b = (a + sizeof_mcb, n - 16)" | "b \<in> set (block_payloads (a + of_nat n) ns)"
    using Cons.prems(3) by auto
  then show ?case
  proof cases
    case 1
    have "span a 16 \<inter> payload b = {}"
      using span_shift_disj [of 0 16 16 "n - 16" a] n by (simp add: 1 payload_def)
    then have "mcb_size m' a = mcb_size m a" by (intro mcb_size_cong assms) blast
    moreover have "payload b \<subseteq> span a n" unfolding 1 by (rule payload_in_block [OF n(1)])
    then have "heap_chain m' (a + of_nat n) ns e = heap_chain m (a + of_nat n) ns e"
      using next_block by (intro heap_chain_cong assms) blast
    ultimately show ?thesis using Cons.prems(1) by simp
  next
    case 2
    have "payload b \<subseteq> span (a + of_nat n) (sum_list ns)" by (rule payloads_in_arena [OF rest 2])
    then have "mcb_size m' a = mcb_size m a" using next_block header by (intro mcb_size_cong assms) blast
    then show ?thesis using Cons.IH [OF rest _ 2] Cons.prems by simp
  qed
qed simp

lemma heap_wf_write:
  assumes "heap_wf s bs" and "b \<in> set bs" and "\<And>x. x \<notin> payload b \<Longrightarrow> m' x = mem s x"
  shows "heap_wf (s\<lparr>mem := m'\<rparr>) bs" and "heap_room (s\<lparr>mem := m'\<rparr>) k = heap_room s k"
proof -
  from assms(1) obtain ns where ns: "heap_blocks s ns" "bs = block_payloads (kernieHeap_space s) ns"
    by (auto simp: heap_wf_def)
  have top: "heap_top (s\<lparr>mem := m'\<rparr>) = heap_top s" by (simp add: heap_top_def)
  then show "heap_room (s\<lparr>mem := m'\<rparr>) k = heap_room s k" by (simp add: heap_room_def)
  have "heap_chain m' (kernieHeap_space s) ns (heap_top s)"
    by (rule heap_chain_write [OF assms(3)]) (use ns assms(2) in \<open>auto simp: heap_blocks_def\<close>)
  then have "heap_blocks (s\<lparr>mem := m'\<rparr>) ns" using ns(1) top by (simp add: heap_blocks_def)
  then show "heap_wf (s\<lparr>mem := m'\<rparr>) bs" using ns(2) by (auto simp: heap_wf_def)
qed

interpretation kernel_heap: allocator malloc heap_wf heap_room mem 16
proof unfold_locales
  show "\<exists>p s'. malloc n s = Some (p, s') \<and> heap_wf s' (bs @ [(p, unat n)]) \<and> heap_room s' k \<and>
      (\<forall>b\<in>set bs. \<forall>x\<in>payload b. mem s' x = mem s x)"
    if "heap_wf s bs" "heap_room s (unat n + 16 + k)" for s :: "'a heap_scheme" and bs n k
    using that by (rule heap_wf_malloc)
qed (rule heap_wf_disjoint)

section \<open>\<open>free\<close>\<close>

fun block_starts :: "addr \<Rightarrow> nat list \<Rightarrow> addr list" where
  "block_starts a [] = []"
| "block_starts a (n # ns) = a # block_starts (a + of_nat n) ns"

lemma block_starts_in_arena:
  "heap_chain m a ns e \<Longrightarrow> b \<in> set (block_starts a ns) \<Longrightarrow> b \<in> span a (sum_list ns)"
proof (induction ns arbitrary: a)
  case (Cons n ns)
  have "a \<in> span a n" using Cons.prems(1) span_nth [of 0 n a] by simp
  with Cons show ?case using span_append [of a n "sum_list ns"] by auto
qed simp

lemma not_in_size_field: "a \<notin> span (a + 8) 8"
  using span_next_disj [of 8 8 a] span_nth [of 0 8 a] by auto

text \<open>Overwriting the flag of a block leaves every size readable.\<close>

lemma heap_chain_flag:
  "heap_chain m a ns e \<Longrightarrow> sum_list ns \<le> 2 ^ 64 \<Longrightarrow> b \<in> set (block_starts a ns) \<Longrightarrow>
     heap_chain (m(b := v)) a ns e"
proof (induction ns arbitrary: a)
  case (Cons n ns)
  let ?a' = "a + of_nat n"
  have n: "16 \<le> n" and tail: "heap_chain m ?a' ns e" "sum_list ns \<le> 2 ^ 64"
    using Cons.prems by simp_all
  have disj: "span ?a' (sum_list ns) \<inter> span a n = {}"
    using Cons.prems by (intro span_next_disj) simp
  have field: "span (a + 8) 8 \<subseteq> span a n"
    using n span_sub [of 8 8 n a] by simp
  have a_in: "a \<in> span a n" using n span_nth [of 0 n a] by simp
  show ?case
  proof (cases "b = a")
    case True
    have "heap_chain (m(a := v)) ?a' ns e = heap_chain m ?a' ns e"
      using disj a_in by (intro heap_chain_cong) (auto simp: fun_upd_apply)
    moreover have "mcb_size (m(a := v)) a = mcb_size m a"
      unfolding mcb_size_def using not_in_size_field by (rule c64.ld_upd_disj)
    ultimately show ?thesis unfolding True using Cons.prems(1) by simp
  next
    case False
    then have b: "b \<in> set (block_starts ?a' ns)" using Cons.prems by simp
    have "b \<notin> span (a + 8) 8"
      using block_starts_in_arena [OF tail(1) b] disj field by auto
    then show ?thesis
      using Cons.prems Cons.IH [OF tail b] by (simp add: mcb_size_def c64.ld_upd_disj)
  qed
qed simp

lemma block_payloads_starts:
  "(p, n) \<in> set (block_payloads a ns) \<Longrightarrow> p - sizeof_mcb \<in> set (block_starts a ns)"
  by (induction ns arbitrary: a) auto

lemma free_mem: "mem (free p s) = mem s \<or> mem (free p s) = (mem s)(p - sizeof_mcb := 1)"
  by (simp add: free_def Let_def set_mcb_free_def)

lemma free_globals [simp]:
  "kernieHeap_is_set_up (free p s) = kernieHeap_is_set_up s"
  "have_allocated (free p s) = have_allocated s"
  "last_valid_address (free p s) = last_valid_address s"
  "kernieHeap_space (free p s) = kernieHeap_space s"
  "heap_top (free p s) = heap_top s"
  by (simp_all add: free_def Let_def heap_top_def)

lemma heap_wf_free:
  assumes "heap_wf s bs" and "(p, n) \<in> set bs"
  shows "heap_wf (free p s) bs"
proof -
  from assms(1) obtain ns where ns: "heap_blocks s ns" "bs = block_payloads (kernieHeap_space s) ns"
    by (auto simp: heap_wf_def)
  have "p - sizeof_mcb \<in> set (block_starts (kernieHeap_space s) ns)"
    using assms(2) ns(2) block_payloads_starts by blast
  then have "heap_chain (mem (free p s)) (kernieHeap_space s) ns (heap_top s)"
    using ns(1) heap_chain_flag [of "mem s" "kernieHeap_space s" ns "heap_top s"]
      free_mem [of p s] by (auto simp: heap_blocks_def)
  then have "heap_blocks (free p s) ns" using ns(1) by (simp add: heap_blocks_def)
  with ns(2) show ?thesis unfolding heap_wf_def by auto
qed

section \<open>Every history of the heap\<close>

text \<open>
  The states reached from a fresh arena by \<open>malloc\<close> of sizes that still fit the address space and
  \<open>free\<close> of payloads handed out before (a payload may be freed any number of times).
\<close>

inductive heap_history :: "'a heap_scheme \<Rightarrow> (addr \<times> nat) list \<Rightarrow> bool" where
  fresh: "\<not> kernieHeap_is_set_up s \<Longrightarrow> \<not> have_allocated s \<Longrightarrow> heap_history s []"
| alloc: "heap_history s bs \<Longrightarrow> heap_room s (unat n + 16) \<Longrightarrow> malloc n s = Some (p, s') \<Longrightarrow>
    heap_history s' (bs @ [(p, unat n)])"
| release: "heap_history s bs \<Longrightarrow> (p, n) \<in> set bs \<Longrightarrow> heap_history (free p s) bs"

lemma heap_history_wf: "heap_history s bs \<Longrightarrow> heap_wf s bs"
proof (induction rule: heap_history.induct)
  case (fresh s)
  moreover have "unat (kernieHeap_space s) < 2 ^ 64"
    using unsigned_less [of "kernieHeap_space s"] by simp
  ultimately have "heap_blocks s []" by (simp add: heap_blocks_def heap_top_def)
  then show ?case unfolding heap_wf_def by force
next
  case (alloc s bs n p s')
  then show ?case using heap_wf_malloc [of s bs n 0] by auto
next
  case (release s bs p n)
  then show ?case by (blast intro: heap_wf_free)
qed

section \<open>\<open>realloc\<close>\<close>

lemma heap_wf_header:
  assumes "heap_wf s bs" and "(p, n) \<in> set bs"
  shows "mcb_size (mem s) (p - sizeof_mcb) = of_nat (n + 16)" and "n + 16 < 2 ^ 64"
    and "unat p + n \<le> unat (heap_top s)" and "16 \<le> unat p"
proof -
  have walk: "\<lbrakk>heap_chain m a ns e; (p, n) \<in> set (block_payloads a ns); unat a + sum_list ns < 2 ^ 64\<rbrakk> \<Longrightarrow>
      mcb_size m (p - sizeof_mcb) = of_nat (n + 16) \<and> n + 16 < 2 ^ 64 \<and>
      unat p + n \<le> unat a + sum_list ns \<and> 16 \<le> unat p" for m a ns e
  proof (induction ns arbitrary: a)
    case (Cons k ks)
    have k: "unat (a + of_nat k) = unat a + k"
      using Cons.prems by (simp add: unat_word_ariths unat_of_nat_lt)
    show ?case
    proof (cases "(p, n) \<in> set (block_payloads (a + of_nat k) ks)")
      case True
      then show ?thesis using Cons.IH [of "a + of_nat k"] Cons.prems k by simp
    next
      case False
      then have p: "p = a + sizeof_mcb" "n = k - 16" using Cons.prems by simp_all
      have "unat (a + sizeof_mcb) = unat a + 16"
        using Cons.prems by (simp add: unat_word_ariths)
      then show ?thesis using Cons.prems p by simp
    qed
  qed simp
  from assms(1) obtain ns where ns: "heap_blocks s ns" "bs = block_payloads (kernieHeap_space s) ns"
    by (auto simp: heap_wf_def)
  from walk [of "mem s" "kernieHeap_space s" ns "heap_top s"] ns assms(2) heap_blocks_top(2) [OF ns(1)]
  show "mcb_size (mem s) (p - sizeof_mcb) = of_nat (n + 16)" "n + 16 < 2 ^ 64"
    "unat p + n \<le> unat (heap_top s)" "16 \<le> unat p"
    by (simp_all add: heap_blocks_def)
qed

text \<open>
  \<open>realloc\<close> of a live payload \<open>(p, n)\<close> copies \<open>n + 16\<close> bytes, the size stored in the header,
  to the new payload.
\<close>

lemma realloc_copies:
  assumes wf: "heap_wf s bs" and live: "(p, n) \<in> set bs" and sz: "sz \<noteq> 0"
    and room: "heap_room s (unat sz + 16)" and fits: "unat (heap_top s) + 32 + n \<le> 2 ^ 64"
  shows "\<exists>q s1 s'. malloc sz s = Some (q, s1) \<and> realloc p sz s = Some (q, s') \<and>
    q = heap_top s + 16 \<and>
    mem s' = (store_bytes (mem s1) q (load_bytes (mem s1) p (n + 16)))(p - 16 := 1) \<and>
    load_bytes (mem s1) p n = load_bytes (mem s) p n"
proof -
  obtain q s1 where m: "malloc sz s = Some (q, s1)" "heap_wf s1 (bs @ [(q, unat sz)])"
      "\<forall>b\<in>set bs. \<forall>x\<in>payload b. mem s1 x = mem s x"
    using heap_wf_malloc [OF wf, of sz 0] room by auto
  have q: "q = heap_top s + 16" using m(1) wf malloc_bump [of s sz]
    by (auto simp: heap_wf_def heap_blocks_def)
  note old = heap_wf_header [OF wf live]
  have p0: "p \<noteq> 0" using old(4) by auto
  have size1: "mcb_size (mem s1) (p - 16) = of_nat (n + 16)" and n16: "n + 16 < 2 ^ 64"
    using heap_wf_header [OF m(2), of p n] live by auto
  have uq: "unat q = unat (heap_top s) + 16"
    using room unfolding q by (simp add: heap_room_def unat_word_ariths)
  have "span p (n + 16) \<inter> span q (n + 16) = {}"
    using old(3) uq fits by (intro span_disjI) simp_all
  then have "copy_safe q (Addr p) (n + 16)"
    by (intro copy_safe_disjoint) auto
  moreover have un: "unat (of_nat (n + 16) :: u64) = n + 16"
    using n16 by (intro unat_of_nat_lt) simp
  ultimately have copy: "memcpy q (Addr p) (of_nat (n + 16)) (mem s1) =
      store_bytes (mem s1) q (load_bytes (mem s1) p (n + 16))"
    using memcpy_store [of q "Addr p" "of_nat (n + 16)" "mem s1"] by (simp only: un read_bytes_Addr)
  let ?m2 = "store_bytes (mem s1) q (load_bytes (mem s1) p (n + 16))"
  have "mcb_size ?m2 (p - 16) = mcb_size (mem s1) (p - 16)"
  proof -
    have "16 \<le> p" using old(4) by (simp add: word_le_nat_alt)
    then have "unat p = unat (p - 16) + 16" using old(4) by (simp add: unat_sub)
    then have "span (p - 16) 16 \<inter> span q (n + 16) = {}"
      using old(3) uq fits by (intro span_disjI) simp_all
    then show ?thesis by (intro mcb_size_cong store_bytes_frame) auto
  qed
  moreover have "(of_nat (n + 16) :: u64) \<noteq> 0" using un by auto
  ultimately have "realloc p sz s = Some (q, s1\<lparr>mem := ?m2(p - 16 := 1)\<rparr>)"
    using p0 sz m(1) copy size1 by (simp add: realloc_def free_def set_mcb_free_def Let_def)
  moreover have "load_bytes (mem s1) p n = load_bytes (mem s) p n"
    using m(3) live by (intro load_bytes_cong) (auto simp: payload_def)
  ultimately show ?thesis using m(1) q by auto
qed

section \<open>Properties\<close>

text \<open>An untouched heap at 0x1000, for the examples.\<close>

definition heap0 :: heap where
  "heap0 = \<lparr>mem = (\<lambda>_. 0), trace = [], kernieHeap_is_set_up = False, have_allocated = False,
            last_valid_address = 0, kernieHeap_space = 0x1000\<rparr>"

lemma heap0_history: "heap_history heap0 []"
  by (rule heap_history.fresh) (simp_all add: heap0_def)

lemma heap0_first:
  obtains s where "malloc 8 heap0 = Some (0x1010, s)" and "heap_history s [(0x1010, 8)]"
    and "heap_top s = 0x1018" and "\<not> have_allocated s"
proof -
  let ?s = "heap0\<lparr>kernieHeap_is_set_up := True, last_valid_address := 0x1018, mem := bump_mem 24 0x1000 (mem heap0)\<rparr>"
  have "malloc 8 heap0 = Some (0x1010, ?s)"
    using malloc_bump [of heap0 8] by (simp add: heap0_def heap_top_def)
  moreover from this have "heap_history ?s ([] @ [(0x1010, unat (8 :: u64))])"
    by (intro heap_history.alloc [OF heap0_history]) (simp_all add: heap_room_def heap_top_def heap0_def)
  moreover have "heap_top ?s = 0x1018" "\<not> have_allocated ?s"
    by (simp_all add: heap_top_def heap0_def)
  ultimately show ?thesis using that [of ?s] by simp
qed



text \<open>
  C27: A sequence of \<open>malloc\<close> calls whose sizes, with 16 bytes of header each, fit the address space
  succeeds: every call returns, all payloads, old and new, are pairwise disjoint, and no byte of
  an old payload changes.
\<close>

theorem malloc_sequence:
  assumes "heap_wf s bs" and "heap_room s (sum_list (map (\<lambda>n. unat n + 16) ns))"
  shows "\<exists>ps s'. alloc_list malloc ns s = Some (ps, s') \<and> length ps = length ns \<and>
    disjoint_payloads (bs @ zip ps (map unat ns)) \<and> heap_wf s' (bs @ zip ps (map unat ns)) \<and>
    (\<forall>b\<in>set bs. \<forall>x\<in>payload b. mem s' x = mem s x)"
  using kernel_heap.alloc_list_total [OF assms] kernel_heap.wf_disjoint by blast

theorem malloc_sequence_witness:
  "\<exists>ps s'. alloc_list malloc [8, 100] heap0 = Some (ps, s') \<and> length ps = 2 \<and>
     disjoint_payloads (zip ps [8, 100])"
proof -
  have "heap_wf heap0 []" using heap0_history by (rule heap_history_wf)
  moreover have "heap_room heap0 (sum_list (map (\<lambda>n. unat n + 16) [8, 100 :: u64]))"
    by (simp add: heap_room_def heap_top_def heap0_def)
  ultimately show ?thesis using malloc_sequence [of heap0 "[]" "[8, 100]"] by auto
qed

text \<open>
  C31: \<open>realloc\<close> of a live payload \<open>(p, n)\<close> to a nonzero size returns a payload at the old end of the
  heap whose first \<open>n\<close> bytes are the old contents, and marks the old block free. It copies
  \<open>n + 16\<close> bytes (the size in the header, which includes the header) whatever the new size is, so
  a new payload smaller than that is written past its end.
\<close>

theorem realloc_keeps_contents:
  assumes "heap_wf s bs" and "(p, n) \<in> set bs" and "sz \<noteq> 0"
    and "heap_room s (unat sz + 16)" and "unat (heap_top s) + 32 + n \<le> 2 ^ 64"
  shows "\<exists>s1 s' q. malloc sz s = Some (q, s1) \<and> realloc p sz s = Some (q, s') \<and> q = heap_top s + 16 \<and>
    mem s' = (store_bytes (mem s1) q (load_bytes (mem s1) p (n + 16)))(p - 16 := 1) \<and>
    load_bytes (mem s1) p n = load_bytes (mem s) p n"
  using realloc_copies [OF assms] by blast

theorem realloc_keeps_contents_witness:
  "\<exists>s s'. malloc 8 heap0 = Some (0x1010, s) \<and> realloc 0x1010 4 s = Some (0x1028, s')"
proof -
  obtain s where s: "malloc 8 heap0 = Some (0x1010, s)" "heap_history s [(0x1010, 8)]"
      "heap_top s = 0x1018" "\<not> have_allocated s"
    by (rule heap0_first)
  have "\<exists>s1 s' q. malloc 4 s = Some (q, s1) \<and> realloc 0x1010 4 s = Some (q, s') \<and> q = heap_top s + 16 \<and>
    mem s' = (store_bytes (mem s1) q (load_bytes (mem s1) 0x1010 (8 + 16)))(0x1010 - 16 := 1) \<and>
    load_bytes (mem s1) 0x1010 8 = load_bytes (mem s) 0x1010 8"
    by (rule realloc_keeps_contents [OF heap_history_wf [OF s(2)]]) (simp_all add: heap_room_def s(3))
  then show ?thesis using s(1,3) by auto
qed

text \<open>
  C32: Freed memory is never handed out again: nothing sets \<open>have_allocated\<close>, so after any \<open>free\<close> a
  \<open>malloc\<close> returns the same address, the end of the heap, as it would have without it.
\<close>

theorem malloc_ignores_free:
  assumes "\<not> have_allocated s"
  shows "map_option fst (malloc n (free p s)) = Some (heap_top s + 16) \<and>
    map_option fst (malloc n s) = Some (heap_top s + 16) \<and>
    (\<forall>q s'. malloc n s = Some (q, s') \<longrightarrow> \<not> have_allocated s')"
  using assms malloc_bump [of s n] malloc_bump [of "free p s" n] by auto

theorem malloc_ignores_free_witness:
  "\<exists>s. malloc 8 heap0 = Some (0x1010, s) \<and> map_option fst (malloc 8 (free 0x1010 s)) = Some 0x1028"
proof -
  obtain s where s: "malloc 8 heap0 = Some (0x1010, s)" "heap_top s = 0x1018" "\<not> have_allocated s"
    by (rule heap0_first)
  then show ?thesis using malloc_ignores_free [of s 8 "0x1010"] by auto
qed

end
