(* ===== verification/CString.thy ===== *)
theory CString
  imports CMem "HOL-Library.Sublist"
begin

text \<open>
  \<open>kernel/string.c\<close>: the C string routines on NUL-terminated bytes in memory.  A loop that looks
  for a NUL may run forever, so these operations return an option.  Their first group of lemmas
  states each one on strings (\<open>cstr\<close>): lengths, comparison, copying, splitting, searching and
  number conversion.
\<close>

section \<open>The operations\<close>

text \<open>The index of \<open>strlen\<close> is an \<open>unsigned int\<close>: after 2^32 bytes it starts again at 0.\<close>

partial_function (option) strlen_loop :: "memory \<Rightarrow> cptr \<Rightarrow> u32 \<Rightarrow> u32 option" where
  "strlen_loop m str i = (if rd m str (uint i) \<noteq> 0 then strlen_loop m str (i + 1) else Some i)"

definition strlen :: "memory \<Rightarrow> cptr \<Rightarrow> u64 option" where
  "strlen m str = map_option ucast (strlen_loop m str 0)"

partial_function (option) strcmp :: "memory \<Rightarrow> cptr \<Rightarrow> cptr \<Rightarrow> int option" where
  "strcmp m str1 str2 =
     (if deref m str1 \<noteq> 0 \<and> deref m str1 = deref m str2
      then strcmp m (inc str1) (inc str2)
      else Some (uint (deref m str1) - uint (deref m str2)))"

function strnlen_loop :: "memory \<Rightarrow> cptr \<Rightarrow> u64 \<Rightarrow> u64 \<Rightarrow> u64" where
  "strnlen_loop m s strsz n =
     (if deref m s \<noteq> 0 \<and> strsz \<noteq> 0 then strnlen_loop m (inc s) (strsz - 1) (n + 1) else n)"
  by pat_completeness auto
termination
  by (relation "measure (\<lambda>(m, s, strsz, n). unat strsz)") (auto simp: unat_pred unat_gt_0)

declare strnlen_loop.simps [simp del]

text \<open>The counter is \<open>s - str\<close>.\<close>

definition strnlen_s :: "memory \<Rightarrow> cptr \<Rightarrow> u64 \<Rightarrow> u64" where
  "strnlen_s m str strsz = strnlen_loop m str strsz 0"

definition isdigit :: "int \<Rightarrow> bool" where
  "isdigit ch \<longleftrightarrow> 48 \<le> ch \<and> ch \<le> 57"

text \<open>\<open>while (*source) *ptr++ = *source++; *ptr = 0\<close>, the loop of \<open>strcat\<close> and of \<open>strcpy\<close>.\<close>

partial_function (option) copy_string :: "addr \<Rightarrow> cptr \<Rightarrow> memory \<Rightarrow> memory option" where
  "copy_string ptr source m =
     (if deref m source \<noteq> 0 then copy_string (ptr + 1) (inc source) (m(ptr := deref m source))
      else Some (m(ptr := 0)))"

text \<open>Both return their destination; no caller uses it.\<close>

definition strcat :: "addr \<Rightarrow> cptr \<Rightarrow> memory \<Rightarrow> memory option" where
  "strcat destination source m =
     do { n \<leftarrow> strlen m (Addr destination); copy_string (destination + n) source m }"

definition strcpy :: "addr \<Rightarrow> cptr \<Rightarrow> memory \<Rightarrow> memory option" where
  "strcpy destination source m =
     (if destination = 0 then Some m else copy_string destination source m)"

partial_function (option) strstr_loop :: "memory \<Rightarrow> cptr \<Rightarrow> cptr \<Rightarrow> u64 \<Rightarrow> cptr option" where
  "strstr_loop m haystack needle sz =
     (if deref m haystack \<noteq> 0
      then if memcmp m haystack needle sz = 0 then Some haystack
           else strstr_loop m (inc haystack) needle sz
      else Some NULL)"

definition strstr :: "memory \<Rightarrow> cptr \<Rightarrow> cptr \<Rightarrow> cptr option" where
  "strstr m haystack needle =
     do { sz \<leftarrow> strlen m needle; strstr_loop m haystack needle sz }"

text \<open>
  \<open>res = res * 10 + nptr[i] - '0'\<close> in 32 bits; \<open>char\<close> is signed and extends with its sign.
  The index is an int.
\<close>

partial_function (option) atoi_loop :: "memory \<Rightarrow> cptr \<Rightarrow> u32 \<Rightarrow> u32 \<Rightarrow> u32 option" where
  "atoi_loop m nptr i res =
     (if rd m nptr (sint i) \<noteq> 0
      then atoi_loop m nptr (i + 1) (res * 10 + scast (rd m nptr (sint i)) - 48)
      else Some res)"

definition atoi :: "memory \<Rightarrow> cptr \<Rightarrow> int option" where
  "atoi m nptr = map_option sint (atoi_loop m nptr 0 0)"

text \<open>
  \<open>to_hstring\<close> reads the bytes of its argument, which lies on the stack at \<open>value_at\<close>, and writes
  two characters for each into the global buffer \<open>hexTo_StringOutput\<close>.  The loop counts to
  \<open>size = 8 * 2 - 1\<close>: fifteen bytes, although the argument has eight.
\<close>

definition upper_hex :: "u8 \<Rightarrow> u8" where
  "upper_hex tmp = tmp + (if tmp > 9 then 55 else 48)"

definition hstring_step :: "addr \<Rightarrow> addr \<Rightarrow> nat \<Rightarrow> memory \<Rightarrow> memory" where
  "hstring_step buf value_at i m =
     (let b = m (value_at + of_nat i);
          m1 = m(buf + of_int (15 - (int i * 2 + 1)) := upper_hex (drop_bit 4 (b AND 0xF0)));
          b1 = m1 (value_at + of_nat i)
      in m1(buf + of_int (15 - int i * 2) := upper_hex (b1 AND 0x0F)))"

definition to_hstring :: "addr \<Rightarrow> addr \<Rightarrow> u64 \<Rightarrow> memory \<Rightarrow> cptr \<times> memory" where
  "to_hstring buf value_at value m =
     (let m = store64 m value_at value;
          m = fold (hstring_step buf value_at) [0..<15] m
      in (Addr buf, m(buf + 16 := 0)))"

text \<open>\<open>strsplit\<close>: two local arrays at \<open>p1\<close> and \<open>p2\<close>, copied whole into the result.\<close>

record TwoStrings =
  ts_a :: "u8 list"
  ts_b :: "u8 list"

partial_function (option) split_head ::
    "cptr \<Rightarrow> u8 \<Rightarrow> addr \<Rightarrow> u32 \<Rightarrow> memory \<Rightarrow> (u32 \<times> memory) option" where
  "split_head str split p1 i m =
     Option.bind (strlen m str) (\<lambda>n.
       if ucast i < n \<and> rd m str (uint i) \<noteq> split
       then split_head str split p1 (i + 1) (m(p1 + ucast i := rd m str (uint i)))
       else Some (i, m))"

partial_function (option) split_tail ::
    "cptr \<Rightarrow> addr \<Rightarrow> u32 \<Rightarrow> u32 \<Rightarrow> memory \<Rightarrow> (u32 \<times> memory) option" where
  "split_tail str p2 i j m =
     Option.bind (strlen m str) (\<lambda>n.
       if ucast i < n
       then split_tail str p2 (i + 1) (j + 1) (m(p2 + ucast j := rd m str (uint i)))
       else Some (j, m))"

definition strsplit :: "addr \<Rightarrow> addr \<Rightarrow> cptr \<Rightarrow> u8 \<Rightarrow> memory \<Rightarrow> (TwoStrings \<times> memory) option" where
  "strsplit p1 p2 str split m =
     do { (i, m) \<leftarrow> split_head str split p1 0 m;
          let i = i + 1;
          let m = m(p1 + ucast (i - 1) := 0);
          (j, m) \<leftarrow> split_tail str p2 i 0 m;
          let j = j + 1;
          let m = m(p2 + ucast (j - 1) := 0);
          Some (\<lparr>ts_a = load_bytes m p1 128, ts_b = load_bytes m p2 128\<rparr>, m) }"

section \<open>\<open>strlen\<close>, \<open>strnlen_s\<close>\<close>

lemma strlen_loop_cstr:
  assumes "cstr m p t" and "length t < 2 ^ 32" and "k \<le> length t"
  shows "strlen_loop m p (of_nat k) = Some (of_nat (length t))"
  using assms(3)
proof (induction "length t - k" arbitrary: k)
  case 0
  then have k: "k = length t" by simp
  show ?case unfolding k using assms(2) cstr_end [OF assms(1)]
    by (subst strlen_loop.simps) (simp add: uint_of_nat)
next
  case (Suc n)
  then have k: "k < length t" by simp
  then have "uint (of_nat k :: u32) = int k" using assms(2) by (simp add: uint_of_nat)
  moreover have "rd m p (int k) \<noteq> 0" using cstr_nth [OF assms(1) k] by simp
  ultimately have "strlen_loop m p (of_nat k) = strlen_loop m p (of_nat (Suc k))"
    by (subst strlen_loop.simps) (simp add: add.commute)
  then show ?case using Suc.hyps(1) [of "Suc k"] Suc.hyps(2) Suc.prems by simp
qed

lemma ucast_of_nat_32_64: "n < 2 ^ 32 \<Longrightarrow> (ucast (of_nat n :: u32) :: u64) = of_nat n"
  by (simp add: word_unat_eq_iff unsigned_ucast_eq unsigned_of_nat take_bit_nat_eq_self)

lemma strlen_cstr:
  "cstr m p t \<Longrightarrow> length t < 2 ^ 32 \<Longrightarrow> strlen m p = Some (of_nat (length t))"
  using strlen_loop_cstr [of m p t 0] by (simp add: strlen_def ucast_of_nat_32_64)

lemma strnlen_loop_cstr:
  "cstr m p t \<Longrightarrow> strnlen_loop m p n c = c + of_nat (min (length t) (unat n))"
proof (induction t arbitrary: p n c)
  case Nil
  then show ?case by (subst strnlen_loop.simps) simp
next
  case (Cons b t)
  show ?case
  proof (cases "n = 0")
    case True then show ?thesis by (subst strnlen_loop.simps) simp
  next
    case False
    then obtain k where k: "unat n = Suc k" by (metis not0_implies_Suc unat_eq_zero)
    then have "unat (n - 1) = k" using False by (simp add: unat_pred)
    with False Cons k show ?thesis
      by (subst strnlen_loop.simps) (simp add: cstr_Cons)
  qed
qed

lemma strnlen_s_cstr:
  "cstr m p t \<Longrightarrow> strnlen_s m p n = of_nat (min (length t) (unat n))"
  by (simp add: strnlen_s_def strnlen_loop_cstr)

text \<open>The rest of a string.\<close>

lemma cstr_drop:
  assumes "cstr m p t" and "k \<le> length t" and "length t < 2 ^ 64"
  shows "cstr m (ptr_add p (of_nat k)) (drop k t)"
proof -
  have "uint (of_nat k :: u64) = int k" using assms(2,3) by (intro uint_of_nat) simp
  then have shift: "rd m (ptr_add p (of_nat k)) (int i) = rd m p (int (k + i))" for i
    by (simp add: rd_ptr_add)
  have "rd m p (int (k + i)) = drop k t ! i" if "i < length (drop k t)" for i
    using cstr_nth [OF assms(1), of "k + i"] that assms(2) by simp
  moreover have "rd m p (int (k + length (drop k t))) = 0"
    using cstr_end [OF assms(1)] assms(2) by simp
  moreover have "0 \<notin> set (drop k t)"
    using assms(1) in_set_dropD by (fastforce simp: cstr_def)
  ultimately show ?thesis unfolding cstr_def shift by blast
qed

section \<open>\<open>strcmp\<close>\<close>

text \<open>The comparison the C standard describes: the sign of the first difference.\<close>

fun str_diff :: "u8 list \<Rightarrow> u8 list \<Rightarrow> int" where
  "str_diff (x # xs) (y # ys) = (if x = y then str_diff xs ys else uint x - uint y)"
| "str_diff (x # xs) [] = uint x"
| "str_diff [] (y # ys) = - uint y"
| "str_diff [] [] = 0"

lemma strcmp_cstr: "cstr m p s \<Longrightarrow> cstr m q t \<Longrightarrow> strcmp m p q = Some (str_diff s t)"
proof (induction s t arbitrary: p q rule: str_diff.induct)
  case (1 x xs y ys) then show ?case by (subst strcmp.simps) (auto simp: cstr_Cons)
qed (subst strcmp.simps, simp add: cstr_Cons)+

lemma str_diff_0_iff: "0 \<notin> set s \<Longrightarrow> 0 \<notin> set t \<Longrightarrow> str_diff s t = 0 \<longleftrightarrow> s = t"
  by (induction s t rule: str_diff.induct) (auto simp: word_uint_eq_iff)

lemma cstr_nonzero: "cstr m p s \<Longrightarrow> 0 \<notin> set s"
  by (simp add: cstr_def)

lemma strcmp_0_iff: "cstr m p s \<Longrightarrow> cstr m q t \<Longrightarrow> strcmp m p q = Some 0 \<longleftrightarrow> s = t"
  by (simp add: strcmp_cstr str_diff_0_iff cstr_nonzero)

section \<open>\<open>strcpy\<close>, \<open>strcat\<close>\<close>

lemma copy_string_store:
  assumes "cstr m src t" and "span d (Suc (length t)) \<inter> ptr_span src (Suc (length t)) = {}"
  shows "copy_string d src m = Some (store_bytes m d (t @ [0]))"
  using assms
proof (induction t arbitrary: d src m)
  case Nil
  then show ?case by (subst copy_string.simps) simp
next
  case (Cons c t)
  let ?m = "m(d := c)"
  have "d \<notin> ptr_span src (Suc (length (c # t)))" using Cons.prems(2) by (auto simp: span_Suc)
  then have "d \<notin> ptr_span (inc src) (Suc (length t))" using ptr_span_inc by fastforce
  then have "cstr ?m (inc src) t"
    using Cons.prems(1) cstr_ptr_cong [of "inc src" t m ?m] by (fastforce simp: cstr_Cons)
  moreover have "span (d + 1) (Suc (length t)) \<inter> ptr_span (inc src) (Suc (length t)) = {}"
    using Cons.prems(2) ptr_span_inc [of src "Suc (length t)"] by (auto simp: span_Suc)
  ultimately have "copy_string (d + 1) (inc src) ?m = Some (store_bytes ?m (d + 1) (t @ [0]))"
    by (rule Cons.IH)
  with Cons.prems(1) show ?case
    by (subst copy_string.simps) (simp add: cstr_Cons)
qed

lemma cstr_store_bytes:
  "0 \<notin> set t \<Longrightarrow> length t < 2 ^ 64 \<Longrightarrow> cstr (store_bytes m d (t @ [0])) (Addr d) t"
  using load_store_bytes [of "t @ [0]" m d] by (simp add: cstr_Addr)

lemma strcat_store:
  assumes "cstr m (Addr d) s" and "cstr m src t" and "length s < 2 ^ 32"
    and "span (d + of_nat (length s)) (Suc (length t)) \<inter> ptr_span src (Suc (length t)) = {}"
  shows "strcat d src m = Some (store_bytes m (d + of_nat (length s)) (t @ [0]))"
  using assms copy_string_store [OF assms(2,4)] by (simp add: strcat_def strlen_cstr)

lemma store_tail:
  assumes "load_bytes m d (length s) = s" and "0 \<notin> set (s @ t)" and "length s + length t < 2 ^ 63"
  shows "cstr (store_bytes m (d + of_nat (length s)) (t @ [0])) (Addr d) (s @ t)"
proof -
  let ?n = "length s" and ?k = "Suc (length t)"
  let ?e = "d + of_nat ?n" and ?m = "store_bytes m (d + of_nat (length s)) (t @ [0])"
  have "span d ?n \<inter> span ?e ?k = {}"
    using span_next_disj [of ?n ?k d] assms(3) by auto
  then have "load_bytes ?m d ?n = s"
    using load_bytes_frame [of d ?n ?e "t @ [0]" m] assms(1) by simp
  moreover have "load_bytes ?m ?e ?k = t @ [0]"
    using load_store_bytes [of "t @ [0]" m ?e] assms(3) by simp
  moreover have "load_bytes ?m d (Suc (length (s @ t))) = load_bytes ?m d ?n @ load_bytes ?m ?e ?k"
    using load_bytes_append [of ?m d ?n ?k] by (simp del: load_bytes.simps)
  ultimately show ?thesis
    using assms(2) unfolding cstr_Addr by (simp del: load_bytes.simps)
qed

lemma store_tail_cstr:
  assumes "cstr m (Addr d) s" and "0 \<notin> set t" and "length s + length t < 2 ^ 63"
  shows "cstr (store_bytes m (d + of_nat (length s)) (t @ [0])) (Addr d) (s @ t)"
  using assms store_tail [of m d s t] cstr_read_bytes [of m "Addr d" s "length s"]
  by (auto simp: read_bytes_Addr cstr_nonzero)

lemma strcat_cstr:
  assumes "cstr m (Addr d) s" and "cstr m src t" and "length s < 2 ^ 32" and "length t < 2 ^ 32"
    and "span (d + of_nat (length s)) (Suc (length t)) \<inter> ptr_span src (Suc (length t)) = {}"
  obtains m' where "strcat d src m = Some m'" and "cstr m' (Addr d) (s @ t)"
proof
  show "strcat d src m = Some (store_bytes m (d + of_nat (length s)) (t @ [0]))"
    using assms by (intro strcat_store)
  show "cstr (store_bytes m (d + of_nat (length s)) (t @ [0])) (Addr d) (s @ t)"
    using assms by (intro store_tail_cstr) (auto simp: cstr_nonzero)
qed

section \<open>\<open>strstr\<close>\<close>

text \<open>The index of the first occurrence; an empty haystack has none, not even of the empty needle.\<close>

fun find_sub :: "'a list \<Rightarrow> 'a list \<Rightarrow> nat option" where
  "find_sub w [] = None"
| "find_sub w (c # h) = (if prefix w (c # h) then Some 0 else map_option Suc (find_sub w h))"

lemma find_sub_Some_lt: "find_sub w h = Some k \<Longrightarrow> k < length h"
  by (induction h arbitrary: k) (auto split: if_splits)

lemma find_sub_iff:
  "find_sub w h = Some k \<longleftrightarrow>
     k < length h \<and> prefix w (drop k h) \<and> (\<forall>j<k. \<not> prefix w (drop j h))"
proof (induction h arbitrary: k)
  case Nil show ?case by simp
next
  case (Cons c h)
  then show ?case by (cases k) (auto simp: less_Suc_eq_0_disj split: if_splits)
qed

lemma find_sub_char: "find_sub [c] h = (if c \<in> set h then Some (length (takeWhile (\<lambda>x. x \<noteq> c) h)) else None)"
  by (induction h) auto

lemma memcmp_prefix:
  assumes "cstr m p h" and "cstr m q w" and "length w < 2 ^ 32"
  shows "memcmp m p q (of_nat (length w)) = 0 \<longleftrightarrow> prefix w h"
proof -
  have sint: "sint (of_nat (length w) :: u64) = int (length w)"
    using assms(3) by (simp add: sint_of_nat64)
  have w: "read_bytes m q (length w) = w" using cstr_read_bytes [OF assms(2)] by simp
  have "read_bytes m p (length w) = w \<longleftrightarrow> prefix w h"
  proof (cases "length w \<le> length h")
    case True
    then show ?thesis using cstr_read_bytes [OF assms(1)]
      by (metis append_eq_conv_conj append_take_drop_id prefix_def take_is_prefix)
  next
    case False
    then have lt: "length h < length w" by simp
    then have "read_bytes m p (length w) ! length h = 0" using cstr_end [OF assms(1)] by simp
    moreover have "w ! length h \<noteq> 0" using cstr_nth [OF assms(2) lt] by simp
    ultimately have "read_bytes m p (length w) \<noteq> w" by auto
    moreover have "\<not> prefix w h" using lt by (auto dest: prefix_length_le)
    ultimately show ?thesis by simp
  qed
  then show ?thesis using w by (simp add: memcmp_eq_0_iff sint)
qed

lemma strstr_loop_find:
  assumes "cstr m p h" and "cstr m q w" and "length w < 2 ^ 32" and "length h < 2 ^ 32"
  shows "strstr_loop m p q (of_nat (length w)) =
           Some (case find_sub w h of None \<Rightarrow> NULL | Some k \<Rightarrow> ptr_add p (of_nat k))"
  using assms(1,4)
proof (induction h arbitrary: p)
  case Nil
  then show ?case by (subst strstr_loop.simps) simp
next
  case (Cons c h)
  have IH: "strstr_loop m (inc p) q (of_nat (length w)) =
      Some (case find_sub w h of None \<Rightarrow> NULL | Some k \<Rightarrow> ptr_add (inc p) (of_nat k))"
    using Cons by (simp add: cstr_Cons)
  have shift: "ptr_add (inc p) (of_nat k) = ptr_add p (of_nat (Suc k))"
    if "find_sub w h = Some k" for k
    using find_sub_Some_lt [OF that] Cons.prems(2) by (intro ptr_add_inc) simp
  show ?case
    using Cons.prems(1) memcmp_prefix [OF Cons.prems(1) assms(2,3)] IH shift
    by (subst strstr_loop.simps) (auto simp: cstr_Cons split: option.splits)
qed

lemma strstr_find:
  assumes "cstr m p h" and "cstr m q w" and "length w < 2 ^ 32" and "length h < 2 ^ 32"
  shows "strstr m p q = Some (case find_sub w h of None \<Rightarrow> NULL | Some k \<Rightarrow> ptr_add p (of_nat k))"
  using assms by (simp add: strstr_def strlen_cstr strstr_loop_find)

section \<open>\<open>atoi\<close>\<close>

definition atoi_step :: "u32 \<Rightarrow> u8 \<Rightarrow> u32" where
  "atoi_step res c = res * 10 + scast c - 48"

lemma atoi_loop_fold:
  assumes "cstr m p t" and "length t < 2 ^ 31" and "k \<le> length t"
  shows "atoi_loop m p (of_nat k) r = Some (foldl atoi_step r (drop k t))"
  using assms(3)
proof (induction "length t - k" arbitrary: k r)
  case 0
  then have k: "k = length t" by simp
  show ?case unfolding k using assms(2) cstr_end [OF assms(1)]
    by (subst atoi_loop.simps) (simp add: sint_of_nat32)
next
  case (Suc n)
  then have k: "k < length t" by simp
  then have "sint (of_nat k :: u32) = int k" using assms(2) by (simp add: sint_of_nat32)
  moreover have "rd m p (int k) \<noteq> 0" "rd m p (int k) = t ! k"
    using cstr_nth [OF assms(1) k] by simp_all
  ultimately have "atoi_loop m p (of_nat k) r = atoi_loop m p (of_nat (Suc k)) (atoi_step r (t ! k))"
    by (subst atoi_loop.simps) (simp add: atoi_step_def add.commute)
  also have "\<dots> = Some (foldl atoi_step (atoi_step r (t ! k)) (drop (Suc k) t))"
    using Suc.hyps(1) [of "Suc k"] Suc.hyps(2) Suc.prems by simp
  finally show ?case using k by (simp add: Cons_nth_drop_Suc [symmetric])
qed

lemma atoi_cstr:
  "cstr m p t \<Longrightarrow> length t < 2 ^ 31 \<Longrightarrow> atoi m p = Some (sint (foldl atoi_step 0 t))"
  using atoi_loop_fold [of m p t 0 0] by (simp add: atoi_def)

text \<open>On a string of decimal digits: the number it denotes, modulo 2^32.\<close>

definition digit_val :: "u8 \<Rightarrow> nat" where
  "digit_val c = unat c - 48"

definition dec_value :: "u8 list \<Rightarrow> nat" where
  "dec_value t = foldl (\<lambda>a c. 10 * a + digit_val c) 0 t"

definition is_digits :: "u8 list \<Rightarrow> bool" where
  "is_digits t \<longleftrightarrow> list_all (\<lambda>c. 48 \<le> unat c \<and> unat c \<le> 57) t"

lemma scast_digit: "unat (c :: u8) \<le> 57 \<Longrightarrow> (scast c :: u32) = of_nat (unat c)"
proof -
  assume "unat c \<le> 57"
  then have "uint c \<le> 57" by (metis of_nat_le_iff of_nat_numeral of_nat_unat)
  moreover have "- 128 \<le> uint c" using uint_ge_0 [of c] by linarith
  ultimately have "sint c = int (unat c)" by (simp add: sint_uint signed_take_bit_int_eq_self)
  then show ?thesis by (metis of_int_of_nat_eq scast_eq)
qed

lemma atoi_digits_fold:
  "is_digits t \<Longrightarrow>
     foldl atoi_step (of_nat a) t = of_nat (foldl (\<lambda>a c. 10 * a + digit_val c) a t)"
proof (induction t arbitrary: a)
  case Nil show ?case by simp
next
  case (Cons c t)
  then have c: "48 \<le> unat c" "unat c \<le> 57" by (simp_all add: is_digits_def)
  then have "atoi_step (of_nat a) c = of_nat (10 * a + digit_val c)"
    by (simp add: atoi_step_def scast_digit digit_val_def mult.commute)
  then show ?case using Cons.IH [of "10 * a + digit_val c"] Cons.prems
    by (simp add: is_digits_def del: of_nat_add of_nat_mult)
qed

lemma atoi_digits:
  assumes "cstr m p t" and "is_digits t" and "length t < 2 ^ 31"
  shows "atoi m p = Some (sint (of_nat (dec_value t) :: u32))"
  using atoi_cstr [OF assms(1,3)] atoi_digits_fold [OF assms(2), of 0] by (simp add: dec_value_def)

section \<open>\<open>to_hstring\<close>\<close>

text \<open>The two characters of each byte, most significant byte first.\<close>

definition upper_digits :: "u8 list" where
  "upper_digits = map of_char ''0123456789ABCDEF''"

definition byte_hex :: "u8 \<Rightarrow> u8 list" where
  "byte_hex b = [upper_digits ! (unat b div 16), upper_digits ! (unat b mod 16)]"

lemma unat_and_0F: "unat ((b :: u8) AND 0x0F) = unat b mod 16"
proof -
  have "b AND 0x0F = take_bit 4 b" by (simp add: take_bit_eq_mask mask_eq_exp_minus_1)
  then have "unat (b AND 0x0F) = take_bit 4 (unat b)" by (simp only: unsigned_take_bit_eq)
  then show ?thesis by (simp add: take_bit_eq_mod)
qed

lemma unat_and_F0: "unat (drop_bit 4 ((b :: u8) AND 0xF0)) = unat b div 16"
proof -
  have "drop_bit 4 (b AND 0xF0) = drop_bit 4 b AND 0x0F" by simp
  also have "\<dots> = take_bit 4 (drop_bit 4 b)" by (simp add: take_bit_eq_mask mask_eq_exp_minus_1)
  finally have "unat (drop_bit 4 (b AND 0xF0)) = unat b div 16 mod 16"
    by (simp add: unat_mod_distrib unat_drop_bit_div take_bit_eq_mod del: drop_bit_and)
  moreover have "unat b < 256" using unsigned_less [of b] by simp
  ultimately show ?thesis by simp
qed

lemma upper_hex_of_nat: "n < 16 \<Longrightarrow> upper_hex (of_nat n) = upper_digits ! n"
  by (drule less_16_cases) (auto simp: upper_hex_def upper_digits_def)

lemma upper_hex_digit: "unat x < 16 \<Longrightarrow> upper_hex x = upper_digits ! unat x"
  using upper_hex_of_nat [of "unat x"] by simp

lemma hstring_step_store:
  assumes "value_at + of_nat i \<noteq> buf + of_int (15 - (int i * 2 + 1))"
  shows "hstring_step buf value_at i m =
           store_bytes m (buf + of_int (14 - 2 * int i)) (byte_hex (m (value_at + of_nat i)))"
proof -
  let ?b = "m (value_at + of_nat i)"
  have "unat ?b < 256" using unsigned_less [of ?b] by simp
  then have hi: "upper_hex (drop_bit 4 (?b AND 0xF0)) = upper_digits ! (unat ?b div 16)"
    using upper_hex_digit [of "drop_bit 4 (?b AND 0xF0)"] unat_and_F0 [of ?b] by simp
  have lo: "upper_hex (?b AND 0x0F) = upper_digits ! (unat ?b mod 16)"
    using upper_hex_digit [of "?b AND 0x0F"] unat_and_0F [of ?b] by simp
  have "buf + of_int (15 - (int i * 2 + 1)) = buf + of_int (14 - 2 * int i)"
    and "buf + of_int (15 - int i * 2) = buf + of_int (14 - 2 * int i) + 1" by simp_all
  then show ?thesis
    using assms hi lo by (simp add: hstring_step_def Let_def byte_hex_def add.assoc
        del: of_int_diff)
qed

text \<open>
  The last character pair is written for byte 0, the earlier ones for the higher bytes; the pairs
  of the bytes 8 to 14, which the loop takes from beyond the argument, go below the buffer.
\<close>

definition hstring_touched :: "addr \<Rightarrow> addr set" where
  "hstring_touched buf = span (buf - 14) 31"

fun hex_of_bytes :: "u8 list \<Rightarrow> u8 list" where
  "hex_of_bytes [] = []"
| "hex_of_bytes (b # bs) = hex_of_bytes bs @ byte_hex b"

lemma length_hex_of_bytes [simp]: "length (hex_of_bytes bs) = 2 * length bs"
  by (induction bs) (auto simp: byte_hex_def)

lemma hex_of_bytes_append: "hex_of_bytes (xs @ ys) = hex_of_bytes ys @ hex_of_bytes xs"
  by (induction xs) auto

lemma hstring_fold:
  assumes "n \<le> 15" and "span v 15 \<inter> hstring_touched buf = {}"
  shows "fold (hstring_step buf v) [0..<n] m =
           store_bytes m (buf + of_int (16 - 2 * int n)) (hex_of_bytes (load_bytes m v n))"
    (is "_ = ?store n")
  using assms(1)
proof (induction n)
  case 0 show ?case by simp
next
  case (Suc n)
  let ?dst = "buf + of_int (16 - 2 * int n)" and ?bs = "load_bytes m v n"
  have sub: "span ?dst (2 * n) \<subseteq> hstring_touched buf"
  proof -
    have "?dst = (buf - 14) + of_nat (30 - 2 * n)" using Suc.prems by (simp add: of_nat_diff)
    then show ?thesis
      unfolding hstring_touched_def by (simp only:) (rule span_sub, use Suc.prems in simp)
  qed
  have vn: "v + of_nat n \<in> span v 15" using Suc.prems by (intro span_nth) simp
  then have "?store n (v + of_nat n) = m (v + of_nat n)"
    using sub assms(2) by (intro store_bytes_frame) auto
  moreover have "v + of_nat n \<noteq> buf + of_int (15 - (int n * 2 + 1))"
  proof -
    have "buf + of_int (15 - (int n * 2 + 1)) = (buf - 14) + of_nat (28 - 2 * n)"
      using Suc.prems by (simp add: of_nat_diff)
    moreover have "(buf - 14) + of_nat (28 - 2 * n) \<in> hstring_touched buf"
      unfolding hstring_touched_def by (intro span_nth) simp
    ultimately show ?thesis using vn assms(2) by (metis disjoint_iff)
  qed
  ultimately have "fold (hstring_step buf v) [0..<Suc n] m =
      store_bytes (?store n) (buf + of_int (14 - 2 * int n)) (byte_hex (m (v + of_nat n)))"
    using Suc by (simp add: hstring_step_store)
  also have "\<dots> = ?store (Suc n)"
  proof -
    let ?lo = "buf + of_int (14 - 2 * int n)" and ?ys = "byte_hex (m (v + of_nat n))"
    have dst: "?dst = ?lo + of_nat (length ?ys)" by (simp add: byte_hex_def)
    have "span ?dst (length (hex_of_bytes ?bs)) \<inter> span ?lo (length ?ys) = {}"
      unfolding dst by (rule span_next_disj) (use Suc.prems in \<open>simp add: byte_hex_def\<close>)
    then have "store_bytes (?store n) ?lo ?ys = store_bytes (store_bytes m ?lo ?ys) ?dst (hex_of_bytes ?bs)"
      by (rule store_bytes_commute)
    also have "\<dots> = store_bytes m ?lo (?ys @ hex_of_bytes ?bs)"
      unfolding store_bytes_append dst by simp
    finally show ?thesis by (simp add: load_bytes_snoc hex_of_bytes_append del: load_bytes.simps)
  qed
  finally show ?case .
qed

lemma to_hstring_store:
  assumes "span v 15 \<inter> hstring_touched buf = {}"
  shows "to_hstring buf v value m =
    (Addr buf, store_bytes (store64 m v value) (buf - 14)
       (hex_of_bytes (load_bytes (store64 m v value) (v + 8) 7) @ hex_of_bytes (le_bytes 8 value) @ [0]))"
proof -
  let ?m = "store64 m v value"
  have "load_bytes ?m v 8 = le_bytes 8 value"
    using load_store_bytes [of "le_bytes 8 value" m v] by (simp add: store64_def)
  moreover have "load_bytes ?m v 15 = load_bytes ?m v 8 @ load_bytes ?m (v + 8) 7"
    using load_bytes_append [of ?m v 8 7] by simp
  ultimately have bytes: "hex_of_bytes (load_bytes ?m v 15) =
      hex_of_bytes (load_bytes ?m (v + 8) 7) @ hex_of_bytes (le_bytes 8 value)" (is "_ = ?h")
    by (simp add: hex_of_bytes_append del: hex_of_bytes.simps le_bytes.simps)
  have "fold (hstring_step buf v) [0..<15] ?m = store_bytes ?m (buf - 14) ?h"
    using hstring_fold [OF _ assms, of 15 ?m] unfolding bytes by simp
  moreover have "buf + 16 = (buf - 14) + of_nat (length ?h)"
    by (simp del: hex_of_bytes.simps le_bytes.simps load_bytes.simps)
  ultimately have "to_hstring buf v value m =
      (Addr buf, store_bytes (store_bytes ?m (buf - 14) ?h) (buf - 14 + of_nat (length ?h)) [0])"
    by (simp add: to_hstring_def Let_def add.commute
        del: hex_of_bytes.simps le_bytes.simps load_bytes.simps)
  then show ?thesis
    unfolding store_bytes_append [symmetric] by (simp only: append_assoc)
qed

definition uhex_value :: "u8 \<Rightarrow> nat" where
  "uhex_value c = (if c < 58 then unat c - 48 else unat c - 55)"

definition uhex_decode :: "u8 list \<Rightarrow> nat" where
  "uhex_decode t = foldl (\<lambda>a c. 16 * a + uhex_value c) 0 t"

fun le_nat :: "u8 list \<Rightarrow> nat" where
  "le_nat [] = 0"
| "le_nat (b # bs) = unat b + 256 * le_nat bs"

lemma uhex_value_digit: "n < 16 \<Longrightarrow> uhex_value (upper_digits ! n) = n"
  by (drule less_16_cases) (auto simp: upper_digits_def uhex_value_def)

lemma upper_digit_nonzero: "n < 16 \<Longrightarrow> upper_digits ! n \<noteq> 0"
  by (drule less_16_cases) (auto simp: upper_digits_def)

lemma byte_nibbles: "unat (b :: u8) div 16 < 16" "unat b mod 16 < 16"
proof -
  have "unat b < 256" using unsigned_less [of b] by simp
  then show "unat b div 16 < 16" by linarith
qed simp

lemma uhex_decode_hex_of_bytes: "uhex_decode (hex_of_bytes bs) = le_nat bs"
proof (induction bs)
  case Nil show ?case by (simp add: uhex_decode_def)
next
  case (Cons b bs)
  have "16 * (16 * n + unat b div 16) + unat b mod 16 = unat b + 256 * n" for n
    by (simp add: algebra_simps)
  with Cons show ?case
    by (simp add: uhex_decode_def byte_hex_def uhex_value_digit byte_nibbles)
qed

lemma hex_of_bytes_nonzero: "0 \<notin> set (hex_of_bytes bs)"
proof -
  have "upper_digits ! (unat b div 16) \<noteq> 0" "upper_digits ! (unat b mod 16) \<noteq> 0" for b :: u8
    by (simp_all add: upper_digit_nonzero byte_nibbles)
  then show ?thesis by (induction bs) (auto simp: byte_hex_def dest: sym)
qed

lemma le_nat_le_bytes: "le_nat (le_bytes n w) = unat w mod 2 ^ (8 * n)"
proof (induction n arbitrary: w)
  case 0 show ?case by simp
next
  case (Suc n)
  have "unat (ucast w :: u8) = unat w mod 256"
    by (simp add: unsigned_ucast_eq take_bit_eq_mod)
  moreover have "unat w mod (256 * 2 ^ (8 * n)) = unat w mod 256 + 256 * (unat w div 256 mod 2 ^ (8 * n))"
    by (simp add: mod_mult2_eq add.commute)
  ultimately show ?case using Suc [of "drop_bit 8 w"]
    by (simp add: unat_drop_bit_div power_add)
qed

lemma to_hstring_result:
  assumes "span v 15 \<inter> hstring_touched buf = {}" and "to_hstring buf v value m = (p, m')"
  shows "p = Addr buf" and "cstr m' p (hex_of_bytes (le_bytes 8 value))"
proof -
  let ?m = "store64 m v value"
  let ?pre = "hex_of_bytes (load_bytes ?m (v + 8) 7)" and ?t = "hex_of_bytes (le_bytes 8 value)"
  from assms show p: "p = Addr buf" by (simp add: to_hstring_store)
  have m': "m' = store_bytes (store_bytes ?m (buf - 14) ?pre) buf (?t @ [0])"
    using assms to_hstring_store [OF assms(1), of "value" m]
      store_bytes_append [of ?m "buf - 14" ?pre "?t @ [0]"]
    by (simp del: hex_of_bytes.simps le_bytes.simps load_bytes.simps)
  show "cstr m' p ?t"
    unfolding m' p
    by (rule cstr_store_bytes) (rule hex_of_bytes_nonzero, simp del: hex_of_bytes.simps le_bytes.simps)
qed

section \<open>\<open>strsplit\<close>\<close>

lemma cstr_upd_outside:
  "cstr m p t \<Longrightarrow> b \<notin> ptr_span p (Suc (length t)) \<Longrightarrow> cstr (m(b := x)) p t"
  using cstr_ptr_cong [of p t m "m(b := x)"] by fastforce

lemma cstr_store_outside:
  "cstr m p t \<Longrightarrow> span a (length bs) \<inter> ptr_span p (Suc (length t)) = {} \<Longrightarrow>
     cstr (store_bytes m a bs) p t"
  using cstr_ptr_cong [of p t m "store_bytes m a bs"] store_bytes_frame [of _ a bs m]
  by (simp add: disjoint_iff) metis

lemma split_index:
  assumes "cstr m str t" and "length t < 2 ^ 32" and "k < 2 ^ 32"
  shows "strlen m str = Some (of_nat (length t))"
    and "(ucast (of_nat k :: u32) :: u64) < of_nat (length t) \<longleftrightarrow> k < length t"
    and "uint (of_nat k :: u32) = int k"
proof -
  show "strlen m str = Some (of_nat (length t))" using assms by (simp add: strlen_cstr)
  have "unat (of_nat k :: u64) = k" "unat (of_nat (length t) :: u64) = length t"
    using assms(2,3) by (simp_all add: unat_of_nat_lt)
  then show "(ucast (of_nat k :: u32) :: u64) < of_nat (length t) \<longleftrightarrow> k < length t"
    using assms(2,3) by (simp add: ucast_of_nat_32_64 word_less_nat_alt)
  show "uint (of_nat k :: u32) = int k" using assms(2,3) by (simp add: uint_of_nat)
qed

text \<open>Each loop copies its part of the string; the string stays outside the destination.\<close>

lemma split_head_copy:
  assumes "c \<notin> set xs" and "rest = [] \<or> hd rest = c" and "length (xs @ rest) < 2 ^ 32"
    and "span p1 (length xs) \<inter> ptr_span str (Suc (length (xs @ rest))) = {}"
    and "cstr m str (xs @ rest)" and "k \<le> length xs"
  shows "split_head str c p1 (of_nat k) m =
           Some (of_nat (length xs), store_bytes m (p1 + of_nat k) (drop k xs))"
  using assms(5,6)
proof (induction "length xs - k" arbitrary: k m)
  case 0
  then have k: "k = length xs" by simp
  note idx = split_index [OF 0(2) assms(3), of k]
  have k32: "k < 2 ^ 32" using k assms(3) by simp
  have "rest \<noteq> [] \<Longrightarrow> rd m str (int k) = c"
    using cstr_nth [OF 0(2), of k] assms(2) k by (auto simp: nth_append hd_conv_nth)
  then show ?case using idx k k32 by (subst split_head.simps) auto
next
  case (Suc n)
  then have k: "k < length xs" by simp
  have k32: "k < 2 ^ 32" using k assms(3) by simp
  note idx = split_index [OF Suc.prems(1) assms(3) k32]
  have rd: "rd m str (int k) = xs ! k"
    using cstr_nth [OF Suc.prems(1), of k] k by (simp add: nth_append)
  have neq: "xs ! k \<noteq> c" using k assms(1) by (metis nth_mem)
  have uc: "(ucast (of_nat k :: u32) :: u64) = of_nat k"
    using k assms(3) by (simp add: ucast_of_nat_32_64)
  let ?m = "m(p1 + of_nat k := xs ! k)"
  have "p1 + of_nat k \<in> span p1 (length xs)" using k by simp
  then have "cstr ?m str (xs @ rest)"
    using Suc.prems(1) assms(4) by (intro cstr_upd_outside) blast+
  moreover have "split_head str c p1 (of_nat k) m = split_head str c p1 (of_nat (Suc k)) ?m"
    using k idx rd neq uc by (subst split_head.simps) (simp add: add.commute)
  moreover have "n = length xs - Suc k" using Suc.hyps(2) by simp
  ultimately have "split_head str c p1 (of_nat k) m =
      Some (of_nat (length xs), store_bytes ?m (p1 + of_nat (Suc k)) (drop (Suc k) xs))"
    using Suc.hyps(1) [of "Suc k" ?m] k by simp
  also have "store_bytes ?m (p1 + of_nat (Suc k)) (drop (Suc k) xs)
      = store_bytes m (p1 + of_nat k) (drop k xs)"
    using k by (simp add: Cons_nth_drop_Suc [symmetric] ac_simps)
  finally show ?case .
qed

lemma split_tail_copy:
  assumes "Suc (length t) < 2 ^ 32" and "i \<le> Suc (length t)"
    and "span p2 (length (drop i t)) \<inter> ptr_span str (Suc (length t)) = {}"
    and "cstr m str t" and "k \<le> length (drop i t)"
  shows "split_tail str p2 (of_nat (i + k)) (of_nat k) m =
           Some (of_nat (length (drop i t)), store_bytes m (p2 + of_nat k) (drop (i + k) t))"
  using assms(4,5)
proof (induction "length (drop i t) - k" arbitrary: k m)
  case 0
  then have k: "k = length (drop i t)" by simp
  have t32: "length t < 2 ^ 32" "i + k < 2 ^ 32" using assms(1,2) k by auto
  note idx = split_index [OF 0(2) t32]
  show ?case using idx k assms(2) by (subst split_tail.simps) auto
next
  case (Suc n)
  then have k: "i + k < length t" by simp
  have t32: "length t < 2 ^ 32" "i + k < 2 ^ 32" using assms(1) k by auto
  note idx = split_index [OF Suc.prems(1) t32]
  have rd: "rd m str (int (i + k)) = t ! (i + k)"
    using cstr_nth [OF Suc.prems(1) k] by simp
  have uc: "(ucast (of_nat k :: u32) :: u64) = of_nat k"
    using k assms(1) by (simp add: ucast_of_nat_32_64)
  let ?m = "m(p2 + of_nat k := t ! (i + k))"
  have "p2 + of_nat k \<in> span p2 (length (drop i t))" using k by simp
  then have "cstr ?m str t"
    using Suc.prems(1) assms(3) by (intro cstr_upd_outside) blast+
  moreover have "split_tail str p2 (of_nat (i + k)) (of_nat k) m
      = split_tail str p2 (of_nat (i + Suc k)) (of_nat (Suc k)) ?m"
    using k idx rd uc by (subst split_tail.simps) (simp add: ac_simps)
  moreover have "n = length (drop i t) - Suc k" using Suc.hyps(2) by simp
  ultimately have "split_tail str p2 (of_nat (i + k)) (of_nat k) m =
      Some (of_nat (length (drop i t)),
        store_bytes ?m (p2 + of_nat (Suc k)) (drop (i + Suc k) t))"
    using Suc.hyps(1) [of "Suc k" ?m] k by simp
  also have "store_bytes ?m (p2 + of_nat (Suc k)) (drop (i + Suc k) t)
      = store_bytes m (p2 + of_nat k) (drop (i + k) t)"
    using k by (simp add: Cons_nth_drop_Suc [symmetric] ac_simps)
  finally show ?case .
qed

text \<open>The string an array holds.\<close>

definition array_str :: "u8 list \<Rightarrow> u8 list" where
  "array_str bs = takeWhile (\<lambda>b. b \<noteq> 0) bs"

lemma array_str_load:
  assumes "cstr m (Addr a) s" and "length s < n"
  shows "array_str (load_bytes m a n) = s"
proof -
  have "n = Suc (length s) + (n - Suc (length s))" using assms(2) by simp
  then have "load_bytes m a n = load_bytes m a (Suc (length s)) @
      load_bytes m (a + of_nat (Suc (length s))) (n - Suc (length s))"
    by (metis load_bytes_append)
  then have "load_bytes m a n = s @ 0 # load_bytes m (a + of_nat (Suc (length s))) (n - Suc (length s))"
    using assms(1) unfolding cstr_Addr by (simp del: load_bytes.simps)
  moreover have "0 \<notin> set s" using assms(1) by (simp add: cstr_def)
  ultimately show ?thesis by (simp add: array_str_def takeWhile_append takeWhile_eq_all_conv)
qed

definition separate :: "addr set \<Rightarrow> addr set \<Rightarrow> addr set \<Rightarrow> bool" where
  "separate A B C \<longleftrightarrow> A \<inter> B = {} \<and> A \<inter> C = {} \<and> B \<inter> C = {}"

lemma span_prefix_disj:
  "span a n \<inter> B = {} \<Longrightarrow> k \<le> n \<Longrightarrow> span a k \<inter> B = {}"
  using span_mono by blast

lemma strsplit_result:
  assumes t: "cstr m str (xs @ rest)" and c: "c \<notin> set xs" "rest = [] \<or> hd rest = c"
    and len: "length xs < 128" "length (tl rest) < 128"
    and sep: "separate (span p1 128) (span p2 128) (ptr_span str (Suc (length (xs @ rest))))"
  shows "\<exists>ts m'. strsplit p1 p2 str c m = Some (ts, m') \<and>
           array_str (ts_a ts) = xs \<and> array_str (ts_b ts) = tl rest \<and>
           (\<forall>b. b \<notin> span p1 128 \<and> b \<notin> span p2 128 \<longrightarrow> m' b = m b)"
proof -
  let ?t = "xs @ rest" and ?i = "Suc (length xs)" and ?ys = "tl rest"
  let ?m1 = "store_bytes m p1 (xs @ [0])"
  let ?m2 = "store_bytes ?m1 p2 (?ys @ [0])"
  have ys: "drop ?i ?t = ?ys" by (simp add: drop_Suc tl_append split: list.split)
  have lent: "Suc (length ?t) < 2 ^ 32" "?i \<le> Suc (length ?t)" using len by simp_all
  have nz: "0 \<notin> set ?t" using t by (simp add: cstr_def)
  then have nz': "0 \<notin> set xs" "0 \<notin> set ?ys" by (cases rest; auto)+
  have disj1: "span p1 (length (xs @ [0])) \<inter> ptr_span str (Suc (length ?t)) = {}"
    using sep len(1) span_prefix_disj [of p1 128] by (simp add: separate_def)
  have "split_head str c p1 0 m = Some (of_nat (length xs), store_bytes m p1 xs)"
    using split_head_copy [OF c _ _ t, of p1 0] lent span_prefix_disj [OF disj1, of "length xs"]
    by simp
  moreover have "(ucast ((of_nat (length xs) :: u32) + 1 - 1) :: u64) = of_nat (length xs)"
    using len(1) by (simp add: ucast_of_nat_32_64)
  moreover have "(store_bytes m p1 xs)(p1 + of_nat (length xs) := 0) = ?m1"
    by (simp add: store_bytes_append)
  moreover have "split_tail str p2 (of_nat (length xs) + 1) 0 ?m1
      = Some (of_nat (length ?ys), store_bytes ?m1 p2 ?ys)"
  proof -
    have "span p2 (length ?ys) \<inter> ptr_span str (Suc (length ?t)) = {}"
      using sep len(2) span_prefix_disj [of p2 128] by (simp add: separate_def)
    moreover have "cstr ?m1 str ?t" using t disj1 by (rule cstr_store_outside)
    ultimately show ?thesis
      using split_tail_copy [OF lent, of p2 str ?m1 0] unfolding ys by (simp add: add.commute drop_Suc)
  qed
  moreover have "(ucast ((of_nat (length ?ys) :: u32) + 1 - 1) :: u64) = of_nat (length ?ys)"
    using len(2) by (simp add: ucast_of_nat_32_64)
  moreover have "(store_bytes ?m1 p2 ?ys)(p2 + of_nat (length ?ys) := 0) = ?m2"
    by (simp add: store_bytes_append)
  ultimately have run: "strsplit p1 p2 str c m =
      Some (\<lparr>ts_a = load_bytes ?m2 p1 128, ts_b = load_bytes ?m2 p2 128\<rparr>, ?m2)"
    by (simp add: strsplit_def Let_def)
  have "cstr ?m1 (Addr p1) xs" using nz' len(1) by (intro cstr_store_bytes) simp_all
  moreover have "span p2 (length (?ys @ [0])) \<inter> ptr_span (Addr p1) (Suc (length xs)) = {}"
    using sep len span_mono [of "length (?ys @ [0])" 128 p2] span_mono [of "Suc (length xs)" 128 p1]
    by (auto simp: separate_def)
  ultimately have "cstr ?m2 (Addr p1) xs" by (rule cstr_store_outside)
  then have "array_str (load_bytes ?m2 p1 128) = xs" using len(1) by (rule array_str_load)
  moreover have "cstr ?m2 (Addr p2) ?ys" using nz' len(2) by (intro cstr_store_bytes) simp_all
  then have "array_str (load_bytes ?m2 p2 128) = ?ys" using len(2) by (rule array_str_load)
  moreover have "?m2 b = m b" if "b \<notin> span p1 128" "b \<notin> span p2 128" for b
  proof -
    have "b \<notin> span p1 (length (xs @ [0]))" "b \<notin> span p2 (length (?ys @ [0]))"
      using that len span_mono [of "length (?ys @ [0])" 128 p2] span_mono [of "length (xs @ [0])" 128 p1]
      by auto
    then show ?thesis by (simp add: store_bytes_frame)
  qed
  ultimately show ?thesis using run by auto
qed

section \<open>Properties\<close>



text \<open>
  \<open>strcat\<close> concatenates: for two strings whose copy does not overlap the source, it returns with
  the destination reading as the first string followed by the second, and changes no byte
  beyond the second string's copy and its NUL.
\<close>

theorem strcat_concatenates:
  assumes "cstr m (Addr d) s" and "cstr m src t" and "length s < 2 ^ 32" and "length t < 2 ^ 32"
    and "span (d + of_nat (length s)) (Suc (length t)) \<inter> ptr_span src (Suc (length t)) = {}"
  shows "\<exists>m'. strcat d src m = Some m' \<and> cstr m' (Addr d) (s @ t) \<and>
    (\<forall>b. b \<notin> span (d + of_nat (length s)) (Suc (length t)) \<longrightarrow> m' b = m b)"
proof (intro exI conjI allI impI)
  let ?e = "d + of_nat (length s)"
  show "strcat d src m = Some (store_bytes m ?e (t @ [0]))"
    using assms by (intro strcat_store)
  show "cstr (store_bytes m ?e (t @ [0])) (Addr d) (s @ t)"
    using assms by (intro store_tail_cstr) (auto simp: cstr_nonzero)
  show "store_bytes m ?e (t @ [0]) b = m b" if "b \<notin> span ?e (Suc (length t))" for b
    using that by (intro store_bytes_frame) simp
qed

theorem strcat_concatenates_witness:
  "\<exists>m. strcat 0x100 (lit ''cd'') (mem_of 0x100 [0x61, 0x62]) = Some m \<and>
     cstr m (Addr 0x100) [0x61, 0x62, 0x63, 0x64]"
  using strcat_concatenates [OF cstr_mem_of [of "[0x61, 0x62]" "0x100"], of "lit ''cd''" "[0x63, 0x64]"]
  by (auto simp: lit_def)

text \<open>
  \<open>strstr\<close> returns the first occurrence: the pointer to the least index at which the needle is a
  prefix of the rest of the haystack, NULL when there is none. An empty haystack has no
  occurrence, not even of the empty needle.
\<close>

theorem strstr_first:
  assumes "cstr m p h" and "cstr m q w" and "length w < 2 ^ 32" and "length h < 2 ^ 32"
  shows "(\<exists>k. k < length h \<and> prefix w (drop k h) \<and> (\<forall>j<k. \<not> prefix w (drop j h)) \<and>
            strstr m p q = Some (ptr_add p (of_nat k))) \<or>
         (\<forall>k<length h. \<not> prefix w (drop k h)) \<and> strstr m p q = Some NULL"
proof (cases "find_sub w h")
  case None
  have "\<not> prefix w (drop k h)" if "k < length h" for k
  proof
    assume "prefix w (drop k h)"
    then have "\<exists>k. k < length h \<and> prefix w (drop k h)" using that by blast
    then obtain k where k: "k < length h \<and> prefix w (drop k h)" "\<forall>j<k. \<not> (j < length h \<and> prefix w (drop j h))"
      unfolding exists_least_iff [of "\<lambda>k. k < length h \<and> prefix w (drop k h)"] by blast
    then have "find_sub w h = Some k" unfolding find_sub_iff by auto
    then show False using None by simp
  qed
  then show ?thesis using None strstr_find [OF assms] by simp
next
  case (Some k)
  then show ?thesis using strstr_find [OF assms] Some [unfolded find_sub_iff] by auto
qed

theorem strstr_first_witness:
  "strstr (mem_of 0x100 [0x61, 0x62, 0x63]) (Addr 0x100) (lit ''b'') = Some (Addr 0x101)"
proof -
  have "cstr (mem_of 0x100 [0x61, 0x62, 0x63]) (Addr 0x100) [0x61, 0x62, 0x63]"
    by (intro cstr_mem_of) simp_all
  from strstr_first [OF this, of "lit ''b''" "[0x62]"] show ?thesis
    by (auto simp: lit_def less_Suc_eq)
qed

text \<open>
  C28: \<open>strsplit\<close> splits at the first separator: of a string \<open>xs @ rest\<close> where \<open>xs\<close> has no separator
  and \<open>rest\<close> is empty or starts with one, the two result arrays hold \<open>xs\<close> and \<open>rest\<close> without
  its first byte, provided both parts fit their 128-byte arrays and the arrays and the string
  do not overlap; memory outside the two arrays is unchanged.
\<close>

theorem strsplit_splits:
  assumes "cstr m str (xs @ rest)" and "c \<notin> set xs" and "rest = [] \<or> hd rest = c"
    and "length xs < 128" and "length (tl rest) < 128"
    and "separate (span p1 128) (span p2 128) (ptr_span str (Suc (length (xs @ rest))))"
  shows "\<exists>ts m'. strsplit p1 p2 str c m = Some (ts, m') \<and>
           array_str (ts_a ts) = xs \<and> array_str (ts_b ts) = tl rest \<and>
           (\<forall>b. b \<notin> span p1 128 \<and> b \<notin> span p2 128 \<longrightarrow> m' b = m b)"
  using assms by (rule strsplit_result)

theorem strsplit_splits_witness:
  "\<exists>ts m'. strsplit 0x1000 0x2000 (lit ''a/b'') 0x2F (\<lambda>_. 0) = Some (ts, m') \<and>
     array_str (ts_a ts) = [0x61] \<and> array_str (ts_b ts) = [0x62]"
proof -
  have "span 0x1000 128 \<inter> span (0x2000 :: addr) 128 = {}" by (rule span_disjI) simp_all
  then show ?thesis
    using strsplit_splits [of "\<lambda>_. 0" "lit ''a/b''" "[0x61]" "[0x2F, 0x62]" "0x2F" "0x1000" "0x2000"]
    by (auto simp: separate_def lit_def)
qed

text \<open>
  C29: \<open>to_hstring\<close> returns a string of sixteen upper-case hexadecimal digits that denotes its
  argument, for every 64-bit argument, when its stack argument and the bytes behind it lie apart
  from the output buffer. It writes 31 bytes from 14 bytes below the buffer: its loop runs over
  fifteen bytes instead of eight.
\<close>

theorem to_hstring_roundtrip:
  assumes "span v 15 \<inter> hstring_touched buf = {}"
  shows "\<exists>m' t. to_hstring buf v w m = (Addr buf, m') \<and> cstr m' (Addr buf) t \<and> length t = 16 \<and>
    uhex_decode t = unat w \<and>
    (\<exists>junk. length junk = 14 \<and> m' = store_bytes (store64 m v w) (buf - 14) (junk @ t @ [0]))"
proof -
  let ?t = "hex_of_bytes (le_bytes 8 w)"
  let ?junk = "hex_of_bytes (load_bytes (store64 m v w) (v + 8) 7)"
  let ?m = "store_bytes (store64 m v w) (buf - 14) (?junk @ ?t @ [0])"
  have run: "to_hstring buf v w m = (Addr buf, ?m)" by (rule to_hstring_store [OF assms])
  have "unat w < 2 ^ 64" using unsigned_less [of w] by simp
  then have "uhex_decode ?t = unat w" unfolding uhex_decode_hex_of_bytes le_nat_le_bytes by simp
  moreover have "length ?t = 16" "length ?junk = 14"
    unfolding length_hex_of_bytes length_le_bytes length_load_bytes by simp_all
  ultimately show ?thesis
    using run to_hstring_result(2) [OF assms run] by blast
qed

theorem to_hstring_roundtrip_witness:
  "\<exists>m t. to_hstring 0x1000 0x2000 0xDEADBEEF (\<lambda>_. 0) = (Addr 0x1000, m) \<and> cstr m (Addr 0x1000) t \<and>
     uhex_decode t = 3735928559"
proof -
  have "span 0x2000 15 \<inter> hstring_touched 0x1000 = {}"
    unfolding hstring_touched_def by (rule span_disjI') simp_all
  from to_hstring_roundtrip [OF this, of "0xDEADBEEF" "\<lambda>_. 0"] show ?thesis by auto
qed

text \<open>
  \<open>atoi\<close> on a string of decimal digits returns the number the digits denote, as a signed 32-bit
  integer (exactly, when it is below 2^31; modulo 2^32 otherwise). A leading minus sign is not
  understood.
\<close>

theorem atoi_decimal:
  assumes "cstr m p t" and "is_digits t" and "length t < 2 ^ 31"
  shows "atoi m p = Some (sint (of_nat (dec_value t) :: u32)) \<and>
    (dec_value t < 2 ^ 31 \<longrightarrow> atoi m p = Some (int (dec_value t)))"
  using atoi_digits [OF assms] by (simp add: sint_of_nat32)

theorem atoi_decimal_witness: "atoi (\<lambda>_. 0) (lit ''307'') = Some 307"
  using atoi_decimal [of "\<lambda>_. 0" "lit ''307''" "[0x33, 0x30, 0x37]"]
  by (simp add: lit_def is_digits_def dec_value_def digit_val_def)

end
