(* ===== verification/Ansi.thy ===== *)
theory Ansi
  imports Heap CString
begin

text \<open>
  The escape-sequence interpreter of \<open>kernel/video/ansi.c\<close>.  \<open>TTY_HandleEsc\<close> collects the
  characters of a sequence in the global array \<open>escapeSequence\<close> and, once an alphabetic
  character has arrived and the collected text has the shape \<open>[ ... m\<close>, decodes one decimal code
  and changes the text attributes.
\<close>

record ansi = heap +
  TTY_Color :: u32
  TTY_BgColor :: u32
  TTY_Bold :: bool
  escapeCompleted :: bool
  escapeSequenceLength :: u32

definition COLOR_WHITE :: u32 where "COLOR_WHITE = 0xFFFFFFFF"
definition COLOR_BLACK :: u32 where "COLOR_BLACK = 0xFF000000"
definition COLOR_RED :: u32 where "COLOR_RED = 0xFFAA0000"
definition COLOR_GREEN :: u32 where "COLOR_GREEN = 0xFF00AA00"
definition COLOR_BLUE :: u32 where "COLOR_BLUE = 0xFF0000AA"
definition COLOR_CYAN :: u32 where "COLOR_CYAN = 0xFF00AAAA"
definition COLOR_PURPLE :: u32 where "COLOR_PURPLE = 0xFFAA00AA"
definition COLOR_LGRAY :: u32 where "COLOR_LGRAY = 0xFFAAAAAA"
definition COLOR_YELLOW :: u32 where "COLOR_YELLOW = 0xFFAA5500"

section \<open>The operations\<close>

text \<open>The \<open>switch\<close> over the code.\<close>

definition sgr :: "int \<Rightarrow> 'a ansi_scheme \<Rightarrow> 'a ansi_scheme" where
  "sgr code s =
     (if code = 0 then s\<lparr>TTY_Color := COLOR_LGRAY, TTY_BgColor := COLOR_BLACK, TTY_Bold := False\<rparr>
      else if code = 1 then s\<lparr>TTY_Bold := True\<rparr>
      else if code = 22 then s\<lparr>TTY_Bold := False\<rparr>
      else if code = 30 then s\<lparr>TTY_Color := COLOR_BLACK\<rparr>
      else if code = 31 then s\<lparr>TTY_Color := COLOR_RED\<rparr>
      else if code = 32 then s\<lparr>TTY_Color := COLOR_GREEN\<rparr>
      else if code = 33 then s\<lparr>TTY_Color := COLOR_YELLOW\<rparr>
      else if code = 34 then s\<lparr>TTY_Color := COLOR_BLUE\<rparr>
      else if code = 35 then s\<lparr>TTY_Color := COLOR_PURPLE\<rparr>
      else if code = 36 then s\<lparr>TTY_Color := COLOR_CYAN\<rparr>
      else if code = 37 then s\<lparr>TTY_Color := COLOR_LGRAY\<rparr>
      else if code = 40 then s\<lparr>TTY_BgColor := COLOR_BLACK\<rparr>
      else if code = 41 then s\<lparr>TTY_BgColor := COLOR_RED\<rparr>
      else if code = 42 then s\<lparr>TTY_BgColor := COLOR_GREEN\<rparr>
      else if code = 43 then s\<lparr>TTY_BgColor := COLOR_YELLOW\<rparr>
      else if code = 44 then s\<lparr>TTY_BgColor := COLOR_BLUE\<rparr>
      else if code = 45 then s\<lparr>TTY_BgColor := COLOR_PURPLE\<rparr>
      else if code = 46 then s\<lparr>TTY_BgColor := COLOR_CYAN\<rparr>
      else if code = 47 then s\<lparr>TTY_BgColor := COLOR_LGRAY\<rparr>
      else s)"

text \<open>The result of \<open>strstr\<close> on a text in memory, as an address.\<close>

fun addr_of :: "cptr \<Rightarrow> addr" where
  "addr_of (Addr a) = a"
| "addr_of (Lit s) = 0"

definition esc_decode :: "image \<Rightarrow> addr \<Rightarrow> addr \<Rightarrow> 'a ansi_scheme \<Rightarrow> 'a ansi_scheme option" where
  "esc_decode L colorCodeStart colorCodeEnd s =
     (let s = s\<lparr>escapeCompleted := True\<rparr>;
          codeLength = colorCodeEnd - colorCodeStart - 1;
          colorCode = colorCode_at L;
          m = memcpy colorCode (Addr (colorCodeStart + 1)) codeLength (mem s);
          m = m(colorCode + codeLength := 0);
          s = s\<lparr>mem := m\<rparr>
      in map_option (\<lambda>code. sgr code s) (atoi m (Addr colorCode)))"

definition esc_parse :: "image \<Rightarrow> 'a ansi_scheme \<Rightarrow> 'a ansi_scheme option" where
  "esc_parse L s =
     do { colorCodeStart \<leftarrow> strstr (mem s) (Addr (escapeSequence_at L)) (lit ''['');
          if colorCodeStart \<noteq> NULL
          then do { colorCodeEnd \<leftarrow> strstr (mem s) colorCodeStart (lit ''m'');
                    if colorCodeEnd \<noteq> NULL
                    then esc_decode L (addr_of colorCodeStart) (addr_of colorCodeEnd) s
                    else Some s }
          else Some s }"

definition esc_append :: "image \<Rightarrow> u8 \<Rightarrow> 'a ansi_scheme \<Rightarrow> 'a ansi_scheme" where
  "esc_append L ch s =
     (let m = (mem s)(escapeSequence_at L + scast (escapeSequenceLength s) := ch);
          n = escapeSequenceLength s + 1;
          m = m(escapeSequence_at L + scast n := 0)
      in s\<lparr>mem := m, escapeSequenceLength := n\<rparr>)"

definition TTY_HandleEsc :: "image \<Rightarrow> u8 \<Rightarrow> 'a ansi_scheme \<Rightarrow> (bool \<times> 'a ansi_scheme) option" where
  "TTY_HandleEsc L ch s =
     do { let s = esc_append L ch s;
          s \<leftarrow> (if 0x40 \<le> sint ch \<and> sint ch \<le> 0x7E then esc_parse L s else Some s);
          if escapeCompleted s
          then Some (True, s\<lparr>escapeCompleted := False, escapeSequenceLength := 0\<rparr>)
          else Some (False, s) }"

section \<open>The abstract interpreter\<close>

text \<open>
  The contract: the text collected so far is a byte list; a final character that completes
  \<open>[code m\<close> applies the code, everything else is only collected.
\<close>

definition esc_code :: "u8 list \<Rightarrow> u8 list option" where
  "esc_code t =
     (let rest = dropWhile (\<lambda>c. c \<noteq> 0x5B) t
      in if rest = [] \<or> 0x6D \<notin> set rest then None
         else Some (takeWhile (\<lambda>c. c \<noteq> 0x6D) (tl rest)))"

definition attr_code :: "u8 list \<Rightarrow> int" where
  "attr_code t = sint (foldl atoi_step 0 t)"

definition is_final :: "u8 \<Rightarrow> bool" where
  "is_final ch \<longleftrightarrow> 0x40 \<le> sint ch \<and> sint ch \<le> 0x7E"

text \<open>The array holds the collected text.\<close>

definition esc_text :: "image \<Rightarrow> 'a ansi_scheme \<Rightarrow> u8 list \<Rightarrow> bool" where
  "esc_text L s t \<longleftrightarrow> escapeSequenceLength s = of_nat (length t) \<and> 0 \<notin> set t \<and>
     load_bytes (mem s) (escapeSequence_at L) (length t) = t"

definition esc_layout :: "image \<Rightarrow> bool" where
  "esc_layout L \<longleftrightarrow> span (escapeSequence_at L) 256 \<inter> span (colorCode_at L) 256 = {} \<and>
     0 \<notin> span (escapeSequence_at L) 256"

definition esc_frame :: "image \<Rightarrow> memory \<Rightarrow> memory \<Rightarrow> bool" where
  "esc_frame L m m' \<longleftrightarrow>
     (\<forall>b. b \<notin> span (escapeSequence_at L) 256 \<and> b \<notin> span (colorCode_at L) 256 \<longrightarrow> m' b = m b)"

lemma scast_of_nat_32_64: "n < 2 ^ 31 \<Longrightarrow> (scast (of_nat n :: u32) :: u64) = of_nat n"
  using sint_of_nat32 [of n] by (metis of_int_of_nat_eq scast_eq)

lemma esc_append_text:
  assumes "esc_text L s t" and "ch \<noteq> 0" and "length t < 255"
  shows "\<exists>m. esc_append L ch s = s\<lparr>mem := m, escapeSequenceLength := of_nat (Suc (length t))\<rparr> \<and>
    cstr m (Addr (escapeSequence_at L)) (t @ [ch]) \<and> esc_frame L (mem s) m"
proof -
  let ?es = "escapeSequence_at L" and ?n = "length t"
  let ?m = "store_bytes (mem s) (?es + of_nat ?n) ([ch] @ [0])"
  have len: "escapeSequenceLength s = of_nat ?n" using assms(1) by (simp add: esc_text_def)
  have n1: "(of_nat ?n + 1 :: u32) = of_nat (Suc ?n)" by simp
  have at: "(scast (of_nat ?n :: u32) :: u64) = of_nat ?n"
      "(scast (of_nat (Suc ?n) :: u32) :: u64) = of_nat (Suc ?n)"
    using assms(3) by (intro scast_of_nat_32_64, simp)+
  have es1: "?es + of_nat (Suc ?n) = ?es + of_nat ?n + 1" by simp
  have "esc_append L ch s = s\<lparr>mem := ?m, escapeSequenceLength := of_nat (Suc ?n)\<rparr>"
    unfolding esc_append_def Let_def len n1 at by (simp add: es1 del: of_nat_Suc)
  moreover have "cstr ?m (Addr ?es) (t @ [ch])"
    by (rule store_tail) (use assms in \<open>simp_all add: esc_text_def\<close>)
  moreover have "esc_frame L (mem s) ?m"
  proof -
    have "span (?es + of_nat ?n) (length ([ch] @ [0])) \<subseteq> span ?es 256"
      by (rule span_sub) (use assms(3) in simp)
    then show ?thesis unfolding esc_frame_def
      using store_bytes_frame [of _ "?es + of_nat ?n" "[ch] @ [0]" "mem s"] by blast
  qed
  ultimately show ?thesis by blast
qed

text \<open>Looking for one character: the pointer to it, or NULL.\<close>

lemma strstr_char:
  assumes "cstr m (Addr a) h" and "length h < 256" and "cstr m q [c]"
  shows "strstr m (Addr a) q = Some (if c \<in> set h
           then Addr (a + of_nat (length (takeWhile (\<lambda>x. x \<noteq> c) h))) else NULL)"
  using assms strstr_find [OF assms(1,3)] by (simp add: find_sub_char)

lemma lit_chars [simp]: "lit ''['' = Lit [0x5B]" "lit ''m'' = Lit [0x6D]"
  by (simp_all add: lit_def)

lemma drop_takeWhile: "drop (length (takeWhile P t)) t = dropWhile P t"
  by (metis dropWhile_eq_drop)

lemma esc_frame_refl [simp]: "esc_frame L m m"
  by (simp add: esc_frame_def)

lemma esc_frame_trans: "esc_frame L m m' \<Longrightarrow> esc_frame L m' m'' \<Longrightarrow> esc_frame L m m''"
  by (simp add: esc_frame_def)

text \<open>Decoding the text between \<open>[\<close> and \<open>m\<close>.\<close>

lemma esc_decode_code:
  assumes "cstr (mem s) (Addr (start + 1)) (code @ 0x6D # rest)" and "length code < 255"
    and "span (colorCode_at L) 256 \<inter> span (start + 1) (length code) = {}"
  shows "\<exists>m. esc_decode L start (start + of_nat (Suc (length code))) s =
      Some (sgr (attr_code code) (s\<lparr>escapeCompleted := True, mem := m\<rparr>)) \<and>
    esc_frame L (mem s) m"
proof -
  let ?cc = "colorCode_at L" and ?n = "length code"
  let ?m = "store_bytes (mem s) ?cc (code @ [0])"
  have n: "start + of_nat (Suc ?n) - start - 1 = of_nat ?n" by simp
  have un: "unat (of_nat ?n :: u64) = ?n" using assms(2) by (intro unat_of_nat_lt) simp
  have "span ?cc ?n \<inter> span (start + 1) ?n = {}"
    using assms(2,3) span_prefix_disj [of ?cc 256] by simp
  then have "copy_safe ?cc (Addr (start + 1)) ?n" by (intro copy_safe_disjoint) simp
  moreover have "read_bytes (mem s) (Addr (start + 1)) ?n = code"
    using cstr_read_bytes [OF assms(1), of ?n] by simp
  ultimately have "memcpy ?cc (Addr (start + 1)) (of_nat ?n) (mem s) = store_bytes (mem s) ?cc code"
    using memcpy_store [of ?cc "Addr (start + 1)" "of_nat ?n" "mem s"] un by simp
  then have m: "(memcpy ?cc (Addr (start + 1)) (of_nat ?n) (mem s))(?cc + of_nat ?n := 0) = ?m"
    by (simp add: store_bytes_append)
  have "cstr ?m (Addr ?cc) code"
    using assms(2) cstr_nonzero [OF assms(1)] by (intro cstr_store_bytes) auto
  then have "atoi ?m (Addr ?cc) = Some (attr_code code)"
    using assms(2) by (simp add: atoi_cstr attr_code_def)
  then have "esc_decode L start (start + of_nat (Suc ?n)) s =
      Some (sgr (attr_code code) (s\<lparr>escapeCompleted := True, mem := ?m\<rparr>))"
    unfolding esc_decode_def Let_def n by (simp add: m)
  moreover have "esc_frame L (mem s) ?m"
    unfolding esc_frame_def
    using store_bytes_frame [of _ ?cc "code @ [0]" "mem s"]
      span_mono [of "length (code @ [0])" 256 ?cc] assms(2) by auto
  ultimately show ?thesis by blast
qed

lemma esc_code_split:
  assumes "esc_code h = Some code"
  shows "\<exists>pre rest. h = pre @ 0x5B # code @ 0x6D # rest \<and>
    length (takeWhile (\<lambda>c. c \<noteq> 0x5B) h) = length pre \<and>
    length (takeWhile (\<lambda>c. c \<noteq> 0x6D) (0x5B # code @ 0x6D # rest)) = Suc (length code) \<and>
    0x6D \<notin> set code"
proof -
  let ?pre = "takeWhile (\<lambda>c. c \<noteq> 0x5B) h" and ?d = "dropWhile (\<lambda>c. c \<noteq> 0x5B) h"
  from assms have d: "?d \<noteq> []" "0x6D \<in> set ?d" "code = takeWhile (\<lambda>c. c \<noteq> 0x6D) (tl ?d)"
    by (auto simp: esc_code_def Let_def split: if_splits)
  then have hd: "hd ?d = 0x5B" using hd_dropWhile [of "\<lambda>c. c \<noteq> 0x5B" h] by simp
  then obtain ys where ys: "?d = 0x5B # ys" using d(1) by (metis list.collapse)
  then have "0x6D \<in> set ys" using d(2) by simp
  then obtain xs rest where xs: "ys = xs @ 0x6D # rest" "0x6D \<notin> set xs"
    by (meson split_list_first)
  then have "takeWhile (\<lambda>c. c \<noteq> 0x6D) ys = xs" by (auto simp: takeWhile_append takeWhile_eq_all_conv)
  then have c: "code = xs" using d(3) ys by simp
  have "h = ?pre @ 0x5B # code @ 0x6D # rest"
    using takeWhile_dropWhile_id [of "\<lambda>c. c \<noteq> 0x5B" h] ys xs c by simp
  moreover have "length (takeWhile (\<lambda>c. c \<noteq> 0x6D) (0x5B # code @ 0x6D # rest)) = Suc (length code)"
    using xs(2) c by (auto simp: takeWhile_append takeWhile_eq_all_conv)
  ultimately show ?thesis using xs(2) c by blast
qed

lemma in_esc_array:
  assumes "esc_layout L" and "k < 256"
  shows "escapeSequence_at L + of_nat k \<noteq> 0"
  using assms unfolding esc_layout_def by (metis span_nth)

lemma esc_parse_none:
  assumes h: "cstr (mem s) (Addr (escapeSequence_at L)) h" "length h < 256"
    and L: "esc_layout L" and none: "esc_code h = None"
  shows "esc_parse L s = Some s"
proof (cases "0x5B \<in> set h")
  case False
  then show ?thesis using strstr_char [OF h, of "Lit [0x5B]" "0x5B"] by (simp add: esc_parse_def)
next
  case True
  let ?k = "length (takeWhile (\<lambda>c. c \<noteq> 0x5B) h)"
  let ?p = "escapeSequence_at L + of_nat ?k" and ?d = "dropWhile (\<lambda>c. c \<noteq> 0x5B) h"
  have le: "?k \<le> length h" by (rule length_takeWhile_le)
  have d: "0x6D \<notin> set ?d" using True none
    by (auto simp: esc_code_def Let_def split: if_splits)
  have "cstr (mem s) (Addr ?p) ?d"
    using cstr_drop [OF h(1) le] h(2) by (simp add: drop_takeWhile)
  moreover have "length ?d < 256" using h(2) length_dropWhile_le [of "\<lambda>c. c \<noteq> 0x5B" h] by linarith
  ultimately have "strstr (mem s) (Addr ?p) (Lit [0x6D]) = Some NULL"
    using strstr_char [of "mem s" ?p ?d "Lit [0x6D]" "0x6D"] d by simp
  moreover have "strstr (mem s) (Addr (escapeSequence_at L)) (Lit [0x5B]) = Some (Addr ?p)"
    using strstr_char [OF h, of "Lit [0x5B]" "0x5B"] True by simp
  ultimately show ?thesis by (simp add: esc_parse_def)
qed

lemma esc_parse_code:
  assumes h: "cstr (mem s) (Addr (escapeSequence_at L)) h" "length h < 256"
    and L: "esc_layout L" and code: "esc_code h = Some code"
  shows "\<exists>m. esc_parse L s =
      Some (sgr (attr_code code) (s\<lparr>escapeCompleted := True, mem := m\<rparr>)) \<and> esc_frame L (mem s) m"
proof -
  let ?es = "escapeSequence_at L"
  obtain pre rest where pre: "h = pre @ 0x5B # code @ 0x6D # rest"
      "length (takeWhile (\<lambda>c. c \<noteq> 0x5B) h) = length pre"
      "length (takeWhile (\<lambda>c. c \<noteq> 0x6D) (0x5B # code @ 0x6D # rest)) = Suc (length code)"
    using esc_code_split [OF code] by blast
  let ?p = "?es + of_nat (length pre)" and ?d = "0x5B # code @ 0x6D # rest"
  have len: "length pre + length code < 254" using h(2) pre(1) by simp
  have start: "strstr (mem s) (Addr ?es) (Lit [0x5B]) = Some (Addr ?p)"
    using strstr_char [OF h, of "Lit [0x5B]" "0x5B"] pre(1,2) by simp
  have d: "cstr (mem s) (Addr ?p) ?d"
    using cstr_drop [OF h(1), of "length pre"] h(2) pre(1) by simp
  have "length ?d < 256" using h(2) pre(1) by simp
  then have fin: "strstr (mem s) (Addr ?p) (Lit [0x6D]) = Some (Addr (?p + of_nat (Suc (length code))))"
    using strstr_char [OF d, of "Lit [0x6D]" "0x6D"] pre(3) by (simp del: of_nat_Suc takeWhile.simps)
  have "length pre < 256" "length pre + Suc (length code) < 256" using len by simp_all
  from this [THEN in_esc_array [OF L]]
  have nn: "?p \<noteq> 0" "?p + of_nat (Suc (length code)) \<noteq> 0"
    by (simp, simp only: of_nat_add add.assoc not_False_eq_True)
  have "cstr (mem s) (Addr (?p + 1)) (code @ 0x6D # rest)"
    using d by (simp add: cstr_Cons)
  moreover have "span (colorCode_at L) 256 \<inter> span (?p + 1) (length code) = {}"
  proof -
    have "span (?es + of_nat (Suc (length pre))) (length code) \<subseteq> span ?es 256"
      by (rule span_sub) (use len in simp)
    moreover have "?es + of_nat (Suc (length pre)) = ?p + 1" by simp
    ultimately have "span (?p + 1) (length code) \<subseteq> span ?es 256" by (simp only:)
    then show ?thesis using L unfolding esc_layout_def by blast
  qed
  ultimately obtain m where "esc_decode L ?p (?p + of_nat (Suc (length code))) s =
      Some (sgr (attr_code code) (s\<lparr>escapeCompleted := True, mem := m\<rparr>))" "esc_frame L (mem s) m"
    using esc_decode_code [of s ?p code rest L] len by auto
  moreover from this have "esc_parse L s = Some (sgr (attr_code code) (s\<lparr>escapeCompleted := True, mem := m\<rparr>))"
    using start fin nn by (simp add: esc_parse_def del: of_nat_Suc)
  ultimately show ?thesis by blast
qed

lemma escapeCompleted_sgr [simp]: "escapeCompleted (sgr c s) = escapeCompleted s"
  by (simp add: sgr_def)

lemma sgr_finish:
  "\<not> escapeCompleted s \<Longrightarrow>
     (sgr c (s\<lparr>mem := m, escapeSequenceLength := k, escapeCompleted := True, mem := m'\<rparr>))\<lparr>
        escapeCompleted := False, escapeSequenceLength := 0\<rparr>
     = sgr c (s\<lparr>escapeSequenceLength := 0, mem := m'\<rparr>)"
  by (cases s) (simp add: sgr_def)

text \<open>
  The interpreter implements its contract: a final character that completes \<open>[code m\<close> applies the
  code and empties the text, every other character is appended.
\<close>

lemma HandleEsc_simulation:
  assumes t: "esc_text L s t" "length t < 255" and ch: "ch \<noteq> 0"
    and s: "\<not> escapeCompleted s" and L: "esc_layout L"
  shows "\<exists>s'. (case (if is_final ch then esc_code (t @ [ch]) else None) of
        Some c \<Rightarrow> TTY_HandleEsc L ch s = Some (True, s') \<and>
          s' = sgr (attr_code c) (s\<lparr>escapeSequenceLength := 0, mem := mem s'\<rparr>) \<and> esc_text L s' []
      | None \<Rightarrow> TTY_HandleEsc L ch s = Some (False, s') \<and>
          s' = s\<lparr>escapeSequenceLength := of_nat (Suc (length t)), mem := mem s'\<rparr> \<and>
          esc_text L s' (t @ [ch])) \<and>
    \<not> escapeCompleted s' \<and> esc_frame L (mem s) (mem s')"
proof -
  obtain m where m: "esc_append L ch s = s\<lparr>mem := m, escapeSequenceLength := of_nat (Suc (length t))\<rparr>"
      "cstr m (Addr (escapeSequence_at L)) (t @ [ch])" "esc_frame L (mem s) m"
    using esc_append_text [OF t(1) ch t(2)] by blast
  let ?s = "s\<lparr>mem := m, escapeSequenceLength := of_nat (Suc (length t))\<rparr>"
  have len: "length (t @ [ch]) < 256" using t(2) by simp
  have h: "cstr (mem ?s) (Addr (escapeSequence_at L)) (t @ [ch])" using m(2) by simp
  show ?thesis
  proof (cases "if is_final ch then esc_code (t @ [ch]) else None")
    case None
    then have "(if 0x40 \<le> sint ch \<and> sint ch \<le> 0x7E then esc_parse L ?s else Some ?s) = Some ?s"
      using esc_parse_none [OF h len L] by (auto simp: is_final_def split: if_splits)
    then have "TTY_HandleEsc L ch s = Some (False, ?s)"
      using s by (simp add: TTY_HandleEsc_def m(1) is_final_def del: of_nat_Suc)
    moreover have "esc_text L ?s (t @ [ch])"
      using h by (auto simp: esc_text_def cstr_Addr load_bytes_snoc simp del: load_bytes.simps)
    ultimately show ?thesis using None s m(3) by simp
  next
    case (Some c)
    then have fin: "is_final ch" "esc_code (t @ [ch]) = Some c" by (simp_all split: if_splits)
    obtain m' where m': "esc_parse L ?s =
        Some (sgr (attr_code c) (?s\<lparr>escapeCompleted := True, mem := m'\<rparr>))" "esc_frame L m m'"
      using esc_parse_code [OF h len L fin(2)] by auto
    let ?r = "sgr (attr_code c) (s\<lparr>escapeSequenceLength := 0, mem := m'\<rparr>)"
    have "TTY_HandleEsc L ch s = Some (True, ?r)"
      unfolding TTY_HandleEsc_def m(1) Let_def using m'(1) fin(1) sgr_finish [OF s]
      by (simp add: is_final_def del: of_nat_Suc)
    moreover have "mem ?r = m'" "escapeSequenceLength ?r = 0" "\<not> escapeCompleted ?r"
      using s by (simp_all add: sgr_def)
    ultimately show ?thesis using Some m(3) m'(2) esc_frame_trans by (auto simp: esc_text_def)
  qed
qed

section \<open>Properties\<close>

text \<open>
  C15: The escape-sequence interpreter implements its contract (a simulation). With the text \<open>t\<close> (under
  255 bytes) collected and a new nonzero character: if the character is final (0x40 to 0x7E) and
  the text contains \<open>[\<close>, a code and \<open>m\<close>, the code is applied to the attributes, the text
  is emptied and true is returned; otherwise the character is appended to the text, the attributes
  stay and false is returned. No other memory than the two arrays changes.
\<close>

theorem TTY_HandleEsc_simulates:
  assumes "esc_text L s t" and "length t < 255" and "ch \<noteq> 0"
    and "\<not> escapeCompleted s" and "esc_layout L"
  shows "\<exists>s'. (case (if is_final ch then esc_code (t @ [ch]) else None) of
        Some c \<Rightarrow> TTY_HandleEsc L ch s = Some (True, s') \<and>
          s' = sgr (attr_code c) (s\<lparr>escapeSequenceLength := 0, mem := mem s'\<rparr>) \<and> esc_text L s' []
      | None \<Rightarrow> TTY_HandleEsc L ch s = Some (False, s') \<and>
          s' = s\<lparr>escapeSequenceLength := of_nat (Suc (length t)), mem := mem s'\<rparr> \<and>
          esc_text L s' (t @ [ch])) \<and>
    \<not> escapeCompleted s' \<and> esc_frame L (mem s) (mem s')"
  using assms by (rule HandleEsc_simulation)

text \<open>An image and a state for the examples: the text \<open>[31\<close> has been collected.\<close>

definition image0 :: image where
  "image0 = \<lparr>hexTo_StringOutput_at = 0x100040, to_hstring_value_at = 0x110000,
     escapeSequence_at = 0x101000, colorCode_at = 0x111000, input_at = 0x102040,
     headers_at = 0x103000, idt_page_at = 0x104000, strsplit_p1_at = 0x112000,
     strsplit_p2_at = 0x112080, log_str_at = 0x113000, BOOT_LoaderName_at = 0x105000,
     BOOT_LoaderVersion_at = 0x105040, BOOT_str_at = 0x114000, ACPI_str_at = 0x115000,
     ACPI_OEMID_at = 0x115040, ACPI_sig_at = 0x115048, ACPI_entry_str_at = 0x115080,
     checksum_str_at = 0x116000, fullName_at = 0x107000, nameInPath_at = 0x107100,
     oldFullName_at = 0x107200, oldNameInPath_at = 0x107300, DefaultGDT_at = 0x106000, PageFault_Handler_at = 0xFFFFFFFF80001000,
     DivideByZero_Handler_at = 0xFFFFFFFF80001100, DoubleFault_Handler_at = 0xFFFFFFFF80001200,
     GPFault_Handler_at = 0xFFFFFFFF80001300, Keyboard_Handler_at = 0xFFFFFFFF80001400,
     Test_Handler_at = 0xFFFFFFFF80001500, after_us_qwerty_ascii_ps2_mapping = 0,
     after_DeviceClasses = (\<lambda>_. 0), font = (\<lambda>_ _. 0xFF)\<rparr>"

lemma image0_layout: "esc_layout image0"
proof -
  have "span (0x101000 :: addr) 256 \<inter> span 0x111000 256 = {}" by (rule span_disjI) simp_all
  moreover have "0 \<notin> span (0x101000 :: addr) 256" using unat_mem_span [of 0 "0x101000" 256] by auto
  ultimately show ?thesis by (simp add: esc_layout_def image0_def)
qed

definition ansi31 :: ansi where
  "ansi31 = \<lparr>mem = mem_of 0x101000 [0x5B, 0x33, 0x31], trace = [], kernieHeap_is_set_up = False,
     have_allocated = False, last_valid_address = 0, kernieHeap_space = 0, TTY_Color = COLOR_LGRAY,
     TTY_BgColor = COLOR_BLACK, TTY_Bold = False, escapeCompleted = False, escapeSequenceLength = 3\<rparr>"

theorem TTY_HandleEsc_simulates_witness:
  "\<exists>s'. TTY_HandleEsc image0 0x6D ansi31 = Some (True, s') \<and> TTY_Color s' = COLOR_RED \<and>
     escapeSequenceLength s' = 0"
proof -
  have "esc_text image0 ansi31 [0x5B, 0x33, 0x31]"
    by (simp add: esc_text_def image0_def ansi31_def mem_eval)
  moreover have "esc_code ([0x5B, 0x33, 0x31] @ [0x6D]) = Some [0x33, 0x31]" "is_final 0x6D"
    by (simp_all add: esc_code_def is_final_def)
  moreover have "attr_code [0x33, 0x31] = 31"
    by (simp add: attr_code_def atoi_step_def)
  ultimately obtain s' where s': "TTY_HandleEsc image0 0x6D ansi31 = Some (True, s')"
      "s' = sgr 31 (ansi31\<lparr>escapeSequenceLength := 0, mem := mem s'\<rparr>)" "esc_text image0 s' []"
    using TTY_HandleEsc_simulates [of image0 ansi31 "[0x5B, 0x33, 0x31]" "0x6D"] image0_layout
    by (auto simp: ansi31_def)
  from s'(2) obtain m where "s' = sgr 31 (ansi31\<lparr>escapeSequenceLength := 0, mem := m\<rparr>)" by blast
  then have "TTY_Color s' = COLOR_RED \<and> escapeSequenceLength s' = 0" by (simp add: sgr_def)
  then show ?thesis using s'(1) by blast
qed

end
