(* ===== verification/Console.thy ===== *)
theory Console
  imports Ansi
begin

text \<open>
  The text console: \<open>kernel/tty.c\<close> (the globals of the text cursor and the current write
  function), \<open>FBCON_Write\<close> of \<open>kernel/video/fbcon.c\<close>, \<open>COM_LogWrapper\<close> of
  \<open>kernel/serial/comout.c\<close>, \<open>putchar\<close> and \<open>puts\<close> of \<open>kernel/video/renderer.c\<close> and the pixel
  operations of \<open>kernel/video/video.c\<close> that do not print.  The second half relates the console to
  an abstract terminal.
\<close>

section \<open>State\<close>

text \<open>\<open>TTY_WriteFunc\<close> holds one of the two write functions, or is still null.\<close>

datatype TTY_WriteFunc_t = WriteNone | WriteCOM | WriteFBCON

datatype fb_mode = FB_MODE_ARGB | FB_MODE_RGBA | FB_MODE_BGRA

record framebuffer_t =
  fb_width :: u32
  fb_height :: u32
  fb_mode :: fb_mode
  fb_ptr :: addr

record console = ansi +
  TTY_CursorX :: u16
  TTY_CursorY :: u16
  TTY_Width :: u16
  TTY_Height :: u16
  TTY_WriteFunc :: TTY_WriteFunc_t
  fbCon :: framebuffer_t
  esc :: bool

section \<open>The operations\<close>

definition TTY_SetWriteFunc :: "TTY_WriteFunc_t \<Rightarrow> 'a console_scheme \<Rightarrow> 'a console_scheme" where
  "TTY_SetWriteFunc func s = s\<lparr>TTY_WriteFunc := func\<rparr>"

text \<open>\<open>comout\<close> of a one-character string; the cursor moves right, also at the end of a line.\<close>

definition COM_LogWrapper :: "u8 \<Rightarrow> 'a console_scheme \<Rightarrow> 'a console_scheme option" where
  "COM_LogWrapper ch s =
     do { s \<leftarrow> comout (Lit [ch]) s;
          Some (if ch = 0x0D then s\<lparr>TTY_CursorX := 0\<rparr>
                else if ch = 0x0A then s\<lparr>TTY_CursorY := TTY_CursorY s + 1\<rparr>
                else s\<lparr>TTY_CursorX := TTY_CursorX s + 1\<rparr>) }"

text \<open>Bold text: every byte of the colour is raised by 0x55, up to 0xFF; yellow is special.\<close>

definition bold_byte :: "u8 \<Rightarrow> u8" where
  "bold_byte b = (if b + 0x55 < b then 0xFF else b + 0x55)"

definition bold_color :: "u32 \<Rightarrow> u32" where
  "bold_color color =
     (if color = COLOR_YELLOW then 0xFFFF55 else le_word (map bold_byte (le_bytes 4 color)))"

definition glyph_color :: "image \<Rightarrow> u8 \<Rightarrow> nat \<Rightarrow> nat \<Rightarrow> u32 \<Rightarrow> u32 \<Rightarrow> bool \<Rightarrow> u32" where
  "glyph_color L ch i j fgColor bgColor bold =
     (if bit (font L ch i) j then if bold then bold_color fgColor else fgColor else bgColor)"

text \<open>All of the index is computed in 32 bits; the font column counts from bit 7 down to bit 1.\<close>

definition pixel_index :: "u32 \<Rightarrow> u16 \<Rightarrow> u16 \<Rightarrow> nat \<Rightarrow> nat \<Rightarrow> u32" where
  "pixel_index width x y i j =
     (ucast y * 16 * width + ucast x * 8) + of_nat (7 - j) + of_nat i * width"

definition draw_pixel ::
    "image \<Rightarrow> u8 \<Rightarrow> u16 \<Rightarrow> u16 \<Rightarrow> u32 \<Rightarrow> u32 \<Rightarrow> nat \<Rightarrow> nat \<Rightarrow> 'a console_scheme \<Rightarrow> 'a console_scheme" where
  "draw_pixel L ch x y fgColor bgColor i j s =
     s\<lparr>mem := store32 (mem s)
         (fb_ptr (fbCon s) + 4 * ucast (pixel_index (fb_width (fbCon s)) x y i j))
         (glyph_color L ch i j fgColor bgColor (TTY_Bold s))\<rparr>"

definition draw_glyph ::
    "image \<Rightarrow> u8 \<Rightarrow> u16 \<Rightarrow> u16 \<Rightarrow> u32 \<Rightarrow> u32 \<Rightarrow> 'a console_scheme \<Rightarrow> 'a console_scheme" where
  "draw_glyph L ch x y fgColor bgColor s =
     fold (\<lambda>i. fold (draw_pixel L ch x y fgColor bgColor i) [7, 6, 5, 4, 3, 2, 1]) [0..<16] s"

definition cursor_right :: "'a console_scheme \<Rightarrow> 'a console_scheme" where
  "cursor_right s =
     (let x = TTY_CursorX s + 1 in
      if x \<ge> TTY_Width s then s\<lparr>TTY_CursorX := 0, TTY_CursorY := TTY_CursorY s + 1\<rparr>
      else s\<lparr>TTY_CursorX := x\<rparr>)"

text \<open>
  The backspace branch of \<open>FBCON_Write\<close> calls \<open>putchar\<close>, which goes through \<open>TTY_Write\<close> again, so
  the two are mutually recursive.
\<close>

function TTY_Write ::
      "image \<Rightarrow> u8 \<Rightarrow> u16 \<Rightarrow> u16 \<Rightarrow> u32 \<Rightarrow> u32 \<Rightarrow> 'a console_scheme \<Rightarrow> 'a console_scheme option"
  and FBCON_Write ::
      "image \<Rightarrow> u8 \<Rightarrow> u16 \<Rightarrow> u16 \<Rightarrow> u32 \<Rightarrow> u32 \<Rightarrow> 'a console_scheme \<Rightarrow> 'a console_scheme option"
where
  "TTY_Write L ch x y fgColor bgColor s =
     (case TTY_WriteFunc s of
        WriteNone \<Rightarrow> None
      | WriteCOM \<Rightarrow> COM_LogWrapper ch s
      | WriteFBCON \<Rightarrow> FBCON_Write L ch x y fgColor bgColor s)"
| "FBCON_Write L ch x y fgColor bgColor s =
     (if ch = 0x1B then Some (s\<lparr>esc := True\<rparr>)
      else if esc s then
        Option.bind (TTY_HandleEsc L ch s) (\<lambda>(fin, s). Some (s\<lparr>esc := \<not> fin\<rparr>))
      else if ch = 0x0D then Some (s\<lparr>TTY_CursorX := 0\<rparr>)
      else if ch = 0x08 then
        if TTY_CursorX s = 0 then Some s
        else
          Option.bind
            (TTY_Write L 0x20 (TTY_CursorX s - 1) (TTY_CursorY s) (TTY_Color s) (TTY_BgColor s)
              (s\<lparr>TTY_CursorX := TTY_CursorX s - 1\<rparr>))
            (\<lambda>s. Some (s\<lparr>TTY_CursorX := TTY_CursorX s - 1\<rparr>))
      else if ch = 0x0A then Some (s\<lparr>TTY_CursorX := 0, TTY_CursorY := TTY_CursorY s + 1\<rparr>)
      else Some (cursor_right (draw_glyph L ch x y fgColor bgColor s)))"
  by pat_completeness auto
termination
  by (relation "measure (\<lambda>arg. case arg of
        Inl (_, ch, _) \<Rightarrow> if ch = 0x08 then 3 else 1
      | Inr (_, ch, _) \<Rightarrow> if ch = 0x08 then 2 else 0)") auto

declare TTY_Write.simps [simp del] FBCON_Write.simps [simp del]

definition putchar :: "image \<Rightarrow> u8 \<Rightarrow> 'a console_scheme \<Rightarrow> 'a console_scheme option" where
  "putchar L c s = TTY_Write L c (TTY_CursorX s) (TTY_CursorY s) (TTY_Color s) (TTY_BgColor s) s"

text \<open>\<open>puts\<close> returns the length of the string, as an int.\<close>

partial_function (option) puts_loop ::
    "image \<Rightarrow> cptr \<Rightarrow> u64 \<Rightarrow> 'a console_scheme \<Rightarrow> (u64 \<times> 'a console_scheme) option" where
  "puts_loop L string n s =
     (if deref (mem s) string \<noteq> 0
      then Option.bind (putchar L (deref (mem s) string) s) (puts_loop L (inc string) (n + 1))
      else Some (n, s))"

definition puts :: "image \<Rightarrow> cptr \<Rightarrow> 'a console_scheme \<Rightarrow> (int \<times> 'a console_scheme) option" where
  "puts L string s =
     do { (n, s) \<leftarrow> puts_loop L string 0 s; Some (sint (ucast n :: u32), s) }"

text \<open>
  The pixel operations of \<open>video.c\<close>.  \<open>putPixel\<close> and \<open>getPixel\<close> take the value of the pixel as the
  address they write to or read from.
\<close>

definition pixel_slot :: "'a console_scheme \<Rightarrow> u32 \<Rightarrow> u32 \<Rightarrow> addr" where
  "pixel_slot s x y = fb_ptr (fbCon s) + 4 * ucast (x + y * fb_width (fbCon s))"

definition putPixel :: "u32 \<Rightarrow> u32 \<Rightarrow> u32 \<Rightarrow> 'a console_scheme \<Rightarrow> 'a console_scheme" where
  "putPixel x y color s =
     s\<lparr>mem := store32 (mem s) (ucast (load32 (mem s) (pixel_slot s x y))) color\<rparr>"

definition getPixel :: "u32 \<Rightarrow> u32 \<Rightarrow> 'a console_scheme \<Rightarrow> u32" where
  "getPixel x y s = load32 (mem s) (ucast (load32 (mem s) (pixel_slot s x y)))"

definition drawRect :: "u32 \<Rightarrow> u32 \<Rightarrow> u32 \<Rightarrow> u32 \<Rightarrow> u32 \<Rightarrow> 'a console_scheme \<Rightarrow> 'a console_scheme" where
  "drawRect startx starty width height color s =
     (let endx = sint (startx + width); endy = sint (starty + height) in
      fold (\<lambda>x. fold (\<lambda>y. putPixel (of_int x) (of_int y) color) [sint starty..endy - 1])
        [sint startx..endx - 1] s)"

definition drawImage :: "addr \<Rightarrow> u32 \<Rightarrow> u32 \<Rightarrow> 'a console_scheme \<Rightarrow> 'a console_scheme" where
  "drawImage icon posx posy s =
     (let width = load32 (mem s) icon; height = load32 (mem s) (icon + 4) in
      fold (\<lambda>y. fold (\<lambda>x s.
          putPixel (posx + of_int x) (posy + of_int y)
            (load32 (mem s) (icon + 4 * scast (of_int y * width + of_int x + 2 :: u32))) s)
          [0..sint width - 1])
        [0..sint height - 1] s)"

section \<open>What a glyph puts on the screen\<close>

lemma draw_row_store:
  "fold (draw_pixel L ch x y fg bg i) js s =
     s\<lparr>mem := fold (\<lambda>(a, v) m. store32 m a v)
        (map (\<lambda>j. (fb_ptr (fbCon s) + 4 * ucast (pixel_index (fb_width (fbCon s)) x y i j),
                   glyph_color L ch i j fg bg (TTY_Bold s))) js) (mem s)\<rparr>"
  by (induction js arbitrary: s) (simp_all add: draw_pixel_def)

definition glyph_cells ::
    "image \<Rightarrow> u8 \<Rightarrow> u16 \<Rightarrow> u16 \<Rightarrow> u32 \<Rightarrow> u32 \<Rightarrow> bool \<Rightarrow> framebuffer_t \<Rightarrow> nat list \<Rightarrow> nat list \<Rightarrow>
       (addr \<times> u32) list" where
  "glyph_cells L ch x y fg bg bold f js is =
     concat (map (\<lambda>i. map (\<lambda>j. (fb_ptr f + 4 * ucast (pixel_index (fb_width f) x y i j),
       glyph_color L ch i j fg bg bold)) js) is)"

lemma draw_rows_store:
  "fold (\<lambda>i. fold (draw_pixel L ch x y fg bg i) js) is s =
     s\<lparr>mem := fold (\<lambda>(a, v) m. store32 m a v)
        (glyph_cells L ch x y fg bg (TTY_Bold s) (fbCon s) js is) (mem s)\<rparr>"
  by (induction "is" arbitrary: s) (simp_all add: glyph_cells_def draw_row_store)

lemmas draw_glyph_store = draw_rows_store [of _ _ _ _ _ _ "[7, 6, 5, 4, 3, 2, 1]" "[0..<16]",
  folded draw_glyph_def]

text \<open>The framebuffer is an array of \<open>width * height\<close> pixels; a text cell is 8 by 16 of them.\<close>

definition fb_area :: "framebuffer_t \<Rightarrow> nat" where
  "fb_area f = unat (fb_width f) * unat (fb_height f)"

definition fb_ok :: "framebuffer_t \<Rightarrow> bool" where
  "fb_ok f \<longleftrightarrow> fb_area f < 2 ^ 32"

definition fb_cell :: "framebuffer_t \<Rightarrow> nat \<Rightarrow> nat \<Rightarrow> addr" where
  "fb_cell f row col = fb_ptr f + 4 * of_nat (row * unat (fb_width f) + col)"

definition fb_pixel :: "'a console_scheme \<Rightarrow> nat \<Rightarrow> nat \<Rightarrow> u32" where
  "fb_pixel s row col = load32 (mem s) (fb_cell (fbCon s) row col)"

definition fb_bytes :: "framebuffer_t \<Rightarrow> addr set" where
  "fb_bytes f = span (fb_ptr f) (4 * fb_area f)"

definition cell_visible :: "framebuffer_t \<Rightarrow> nat \<Rightarrow> nat \<Rightarrow> bool" where
  "cell_visible f x y \<longleftrightarrow> x < unat (fb_width f) div 8 \<and> y < unat (fb_height f) div 16"

lemma fb_index_less:
  assumes "row < unat (fb_height f)" and "col < unat (fb_width f)"
  shows "row * unat (fb_width f) + col < fb_area f"
proof -
  have "row * unat (fb_width f) + col < Suc row * unat (fb_width f)" using assms(2) by simp
  also have "\<dots> \<le> unat (fb_height f) * unat (fb_width f)" using assms(1) by (intro mult_le_mono1) simp
  finally show ?thesis by (simp add: fb_area_def mult.commute)
qed

lemma four_fits: "(k::nat) < 2 ^ 32 \<Longrightarrow> 4 * k + 4 \<le> 2 ^ 64"
  by simp

lemma four_steps: "(k::nat) < n \<Longrightarrow> 4 * k + 4 \<le> 4 * n"
  by simp

lemma fb_cell_disjoint:
  assumes "fb_ok f" "row < unat (fb_height f)" "col < unat (fb_width f)"
    "row' < unat (fb_height f)" "col' < unat (fb_width f)" "(row, col) \<noteq> (row', col')"
  shows "span (fb_cell f row col) 4 \<inter> span (fb_cell f row' col') 4 = {}"
proof -
  let ?w = "unat (fb_width f)"
  have "row * ?w + col \<noteq> row' * ?w + col'"
  proof
    assume eq: "row * ?w + col = row' * ?w + col'"
    have "(row * ?w + col) div ?w = row" "(row * ?w + col) mod ?w = col"
      "(row' * ?w + col') div ?w = row'" "(row' * ?w + col') mod ?w = col'"
      using assms(3,5) by simp_all
    then show False using eq assms(6) by (metis prod.inject)
  qed
  moreover have "row * ?w + col < 2 ^ 32" "row' * ?w + col' < 2 ^ 32"
    using fb_index_less [OF assms(2,3)] fb_index_less [OF assms(4,5)] assms(1)
    unfolding fb_ok_def by linarith+
  ultimately show ?thesis unfolding fb_cell_def
    by (intro cells_disjoint four_fits)
qed

lemma fb_cell_in_bytes:
  assumes "row < unat (fb_height f)" and "col < unat (fb_width f)"
  shows "span (fb_cell f row col) 4 \<subseteq> fb_bytes f"
proof -
  have "span (fb_ptr f + of_nat (4 * (row * unat (fb_width f) + col))) 4
      \<subseteq> span (fb_ptr f) (4 * fb_area f)"
    by (intro span_sub four_steps fb_index_less assms)
  then show ?thesis unfolding fb_cell_def fb_bytes_def by simp
qed

lemma pixel_index_cell:
  assumes "fb_ok f" and "cell_visible f (unat x) (unat y)" and "i < 16" and "1 \<le> j" and "j \<le> 7"
  shows "fb_ptr f + 4 * ucast (pixel_index (fb_width f) x y i j)
    = fb_cell f (16 * unat y + i) (8 * unat x + (7 - j))"
proof -
  let ?w = "unat (fb_width f)" and ?row = "16 * unat y + i" and ?col = "8 * unat x + (7 - j)"
  have "?row < unat (fb_height f)" "?col < ?w"
    using assms(2-5) by (auto simp: cell_visible_def)
  from fb_index_less [OF this] have k: "?row * ?w + ?col < 2 ^ 32"
    using assms(1) unfolding fb_ok_def by linarith
  have x: "(ucast x :: u32) = of_nat (unat x)" and y: "(ucast y :: u32) = of_nat (unat y)"
    and w: "fb_width f = of_nat ?w" by simp_all
  have "pixel_index (fb_width f) x y i j = of_nat (?row * ?w + ?col)"
    unfolding pixel_index_def x y by (subst (1 2) w) (simp add: algebra_simps)
  then have "(ucast (pixel_index (fb_width f) x y i j) :: u64) = of_nat (?row * ?w + ?col)"
    using k by (simp only: ucast_of_nat_32_64)
  then show ?thesis by (simp only: fb_cell_def)
qed

lemma fb_cell_inj:
  assumes "fb_ok f" "row < unat (fb_height f)" "col < unat (fb_width f)"
    "row' < unat (fb_height f)" "col' < unat (fb_width f)" "fb_cell f row col = fb_cell f row' col'"
  shows "row = row' \<and> col = col'"
  using fb_cell_disjoint [OF assms(1-5)] assms(6) span_nth [of 0 4 "fb_cell f row col"] by auto

lemma in_glyph_cells:
  "p \<in> set (glyph_cells L ch x y fg bg bold f js is) \<longleftrightarrow>
     (\<exists>i\<in>set is. \<exists>j\<in>set js. p =
        (fb_ptr f + 4 * ucast (pixel_index (fb_width f) x y i j), glyph_color L ch i j fg bg bold))"
  by (auto simp: glyph_cells_def)

lemma glyph_cells_visible:
  assumes "fb_ok f" and "cell_visible f (unat x) (unat y)"
    and p: "p \<in> set (glyph_cells L ch x y fg bg bold f [7, 6, 5, 4, 3, 2, 1] [0..<16])"
  obtains i j where "i < 16" "1 \<le> j" "j \<le> 7"
    "p = (fb_cell f (16 * unat y + i) (8 * unat x + (7 - j)), glyph_color L ch i j fg bg bold)"
proof -
  from p obtain i j where ij: "i \<in> set [0..<16]" "j \<in> set [7, 6, 5, 4, 3, 2, 1]"
    "p = (fb_ptr f + 4 * ucast (pixel_index (fb_width f) x y i j), glyph_color L ch i j fg bg bold)"
    unfolding in_glyph_cells by blast
  then have "1 \<le> j" "j \<le> 7" by auto
  with ij that pixel_index_cell [OF assms(1,2)] show ?thesis by auto
qed

lemma glyph_cells_fst:
  assumes "fb_ok f" and "cell_visible f (unat x) (unat y)"
    and "p \<in> set (glyph_cells L ch x y fg bg bold f [7, 6, 5, 4, 3, 2, 1] [0..<16])"
  obtains i j where "i < 16" "1 \<le> j" "j \<le> 7" "fst p = fb_cell f (16 * unat y + i) (8 * unat x + (7 - j))"
  by (rule glyph_cells_visible [OF assms], rule that) (assumption | simp only: fst_conv)+

lemma glyph_cells_member:
  assumes "fb_ok f" and "cell_visible f (unat x) (unat y)" and "i < 16" and "1 \<le> j" and "j \<le> 7"
  shows "(fb_cell f (16 * unat y + i) (8 * unat x + (7 - j)), glyph_color L ch i j fg bg bold)
    \<in> set (glyph_cells L ch x y fg bg bold f [7, 6, 5, 4, 3, 2, 1] [0..<16])"
proof -
  have "j \<in> set [7, 6, 5, 4, 3, 2, 1]" using assms(4,5) by auto
  moreover have "i \<in> set [0..<16]" using assms(3) by simp
  ultimately show ?thesis
    unfolding in_glyph_cells pixel_index_cell [OF assms, symmetric] by blast
qed

text \<open>The pixel a text cell covers, and the pixels of a glyph: the eighth column is never drawn.\<close>

definition in_glyph :: "nat \<Rightarrow> nat \<Rightarrow> nat \<Rightarrow> nat \<Rightarrow> bool" where
  "in_glyph x y row col \<longleftrightarrow> row div 16 = y \<and> col div 8 = x \<and> col mod 8 \<noteq> 7"

lemma glyph_pixels:
  assumes f: "fb_ok (fbCon s)" and v: "cell_visible (fbCon s) (unat x) (unat y)"
    and rc: "row < unat (fb_height (fbCon s))" "col < unat (fb_width (fbCon s))"
  shows "fb_pixel (draw_glyph L ch x y fg bg s) row col =
    (if in_glyph (unat x) (unat y) row col
     then glyph_color L ch (row mod 16) (7 - col mod 8) fg bg (TTY_Bold s)
     else fb_pixel s row col)"
proof -
  let ?f = "fbCon s" and ?X = "unat x" and ?Y = "unat y"
  let ?cells = "glyph_cells L ch x y fg bg (TTY_Bold s) ?f [7, 6, 5, 4, 3, 2, 1] [0..<16]"
  let ?a = "fb_cell ?f row col"
  have px: "fb_pixel (draw_glyph L ch x y fg bg s) row col =
      load32 (fold (\<lambda>(a, v) m. store32 m a v) ?cells (mem s)) ?a"
    by (simp add: fb_pixel_def draw_glyph_store)
  have inside: "16 * ?Y + i < unat (fb_height ?f)" "8 * ?X + (7 - j) < unat (fb_width ?f)"
    if "i < 16" for i j using v that by (auto simp: cell_visible_def)
  have cell: "\<exists>i j. i < 16 \<and> 1 \<le> j \<and> j \<le> 7 \<and>
      p = (fb_cell ?f (16 * ?Y + i) (8 * ?X + (7 - j)), glyph_color L ch i j fg bg (TTY_Bold s))"
    if "p \<in> set ?cells" for p using glyph_cells_visible [OF f v that] by metis
  have disj: "span ?a 4 \<inter> span (fst p) 4 = {}" if pin: "p \<in> set ?cells" "fst p \<noteq> ?a" for p
  proof -
    obtain i j where ij: "i < 16" "fst p = fb_cell ?f (16 * ?Y + i) (8 * ?X + (7 - j))"
      by (rule glyph_cells_fst [OF f v pin(1)])
    then have "(row, col) \<noteq> (16 * ?Y + i, 8 * ?X + (7 - j))" using pin(2) by auto
    then show ?thesis unfolding ij(2)
      using ij(1) by (intro fb_cell_disjoint f rc inside)
  qed
  show ?thesis
  proof (cases "in_glyph ?X ?Y row col")
    case True
    define i where "i = row mod 16"
    define j where "j = 7 - col mod 8"
    have "row = 16 * ?Y + i"
      using True mult_div_mod_eq [of 16 row] by (simp add: in_glyph_def i_def)
    moreover have "col = 8 * ?X + (7 - j)"
      using True mult_div_mod_eq [of 8 col] by (simp add: in_glyph_def j_def)
    ultimately have rcij: "row = 16 * ?Y + i" "col = 8 * ?X + (7 - j)" .
    have ij: "i < 16" "1 \<le> j" "j \<le> 7" using True by (auto simp: in_glyph_def i_def j_def)
    have "load32 (fold (\<lambda>(a, v) m. store32 m a v) ?cells (mem s)) ?a
        = glyph_color L ch i j fg bg (TTY_Bold s)"
    proof (rule c32.ld_fold_lookup [OF _ _ disj])
      show "?a \<in> fst ` set ?cells"
        using imageI [OF glyph_cells_member [OF f v ij], of fst] rcij by simp
    next
      fix p assume p: "p \<in> set ?cells" "fst p = ?a"
      obtain i' j' where ij': "i' < 16" "1 \<le> j'" "j' \<le> 7"
        "p = (fb_cell ?f (16 * ?Y + i') (8 * ?X + (7 - j')), glyph_color L ch i' j' fg bg (TTY_Bold s))"
        using cell [OF p(1)] by blast
      have "16 * ?Y + i' = row \<and> 8 * ?X + (7 - j') = col"
        using ij' p(2) by (intro fb_cell_inj [OF f inside(1,2) rc]) auto
      then have "i' = i \<and> j' = j" using rcij ij(2,3) ij'(2,3) by auto
      then show "snd p = glyph_color L ch i j fg bg (TTY_Bold s)" using ij'(4) by simp
    qed
    then show ?thesis using True unfolding px i_def j_def by simp
  next
    case False
    have "load32 (fold (\<lambda>(a, v) m. store32 m a v) ?cells (mem s)) ?a = load32 (mem s) ?a"
    proof (rule c32.ld_fold_disj, rule disj)
      fix p assume p: "p \<in> set ?cells"
      show "p \<in> set ?cells" by (rule p)
      obtain i j where ij: "i < 16" "1 \<le> j" "j \<le> 7" "fst p = fb_cell ?f (16 * ?Y + i) (8 * ?X + (7 - j))"
        by (rule glyph_cells_fst [OF f v p])
      show "fst p \<noteq> ?a"
      proof
        assume "fst p = ?a"
        then have "16 * ?Y + i = row \<and> 8 * ?X + (7 - j) = col"
          using ij by (intro fb_cell_inj [OF f inside(1,2) rc]) auto
        moreover have "in_glyph ?X ?Y (16 * ?Y + i) (8 * ?X + k)" if "k < 7" for k
          using ij(1) that by (simp add: in_glyph_def)
        moreover have "7 - j < 7" using ij(2,3) by simp
        ultimately show False using False by metis
      qed
    qed
    then show ?thesis using False unfolding px by (simp add: fb_pixel_def)
  qed
qed

lemma glyph_frame:
  assumes f: "fb_ok (fbCon s)" and v: "cell_visible (fbCon s) (unat x) (unat y)"
    and b: "b \<notin> fb_bytes (fbCon s)"
  shows "mem (draw_glyph L ch x y fg bg s) b = mem s b"
proof -
  let ?f = "fbCon s"
  have "b \<notin> span (fst p) 4"
    if pin: "p \<in> set (glyph_cells L ch x y fg bg (TTY_Bold s) ?f [7, 6, 5, 4, 3, 2, 1] [0..<16])" for p
  proof -
    obtain i j where ij: "i < 16" "fst p = fb_cell ?f (16 * unat y + i) (8 * unat x + (7 - j))"
      by (rule glyph_cells_fst [OF f v pin])
    have "span (fst p) 4 \<subseteq> fb_bytes ?f"
      unfolding ij(2) using ij(1) v by (intro fb_cell_in_bytes) (auto simp: cell_visible_def)
    then show ?thesis using b by blast
  qed
  then show ?thesis by (simp add: draw_glyph_store c32.fold_st_frame)
qed

section \<open>An abstract terminal\<close>

text \<open>
  The console as a terminal: a cursor in text cells, the attributes, and the text of an escape
  sequence while one is being collected.
\<close>

record terminal =
  t_x :: nat
  t_y :: nat
  t_fg :: u32
  t_bg :: u32
  t_bold :: bool
  t_esc :: "u8 list option"

definition palette :: "u32 list" where
  "palette = [COLOR_BLACK, COLOR_RED, COLOR_GREEN, COLOR_YELLOW,
              COLOR_BLUE, COLOR_PURPLE, COLOR_CYAN, COLOR_LGRAY]"

definition term_sgr :: "int \<Rightarrow> terminal \<Rightarrow> terminal" where
  "term_sgr code t =
     (if code = 0 then t\<lparr>t_fg := COLOR_LGRAY, t_bg := COLOR_BLACK, t_bold := False\<rparr>
      else if code = 1 \<or> code = 22 then t\<lparr>t_bold := (code = 1)\<rparr>
      else if 30 \<le> code \<and> code \<le> 37 then t\<lparr>t_fg := palette ! nat (code - 30)\<rparr>
      else if 40 \<le> code \<and> code \<le> 47 then t\<lparr>t_bg := palette ! nat (code - 40)\<rparr>
      else t)"

definition term_advance :: "nat \<Rightarrow> terminal \<Rightarrow> terminal" where
  "term_advance w t =
     (if Suc (t_x t) < w then t\<lparr>t_x := Suc (t_x t)\<rparr> else t\<lparr>t_x := 0, t_y := Suc (t_y t)\<rparr>)"

definition pending :: "terminal \<Rightarrow> u8 list" where
  "pending t = (case t_esc t of None \<Rightarrow> [] | Some e \<Rightarrow> e)"

definition term_esc :: "u8 \<Rightarrow> terminal \<Rightarrow> terminal" where
  "term_esc ch t =
     (case (if is_final ch then esc_code (pending t @ [ch]) else None) of
        Some c \<Rightarrow> term_sgr (attr_code c) (t\<lparr>t_esc := None\<rparr>)
      | None \<Rightarrow> t\<lparr>t_esc := Some (pending t @ [ch])\<rparr>)"

definition term_put :: "nat \<Rightarrow> u8 \<Rightarrow> terminal \<Rightarrow> terminal" where
  "term_put w ch t =
     (if ch = 0x1B then t\<lparr>t_esc := Some (pending t)\<rparr>
      else if t_esc t \<noteq> None then term_esc ch t
      else if ch = 0x0D then t\<lparr>t_x := 0\<rparr>
      else if ch = 0x08 then t\<lparr>t_x := t_x t - 1\<rparr>
      else if ch = 0x0A then t\<lparr>t_x := 0, t_y := Suc (t_y t)\<rparr>
      else term_advance w t)"

text \<open>The console shows the terminal \<open>t\<close>.\<close>

definition term_rel :: "image \<Rightarrow> 'a console_scheme \<Rightarrow> terminal \<Rightarrow> bool" where
  "term_rel L s t \<longleftrightarrow>
     TTY_WriteFunc s = WriteFBCON \<and> \<not> escapeCompleted s \<and>
     unat (TTY_CursorX s) = t_x t \<and> unat (TTY_CursorY s) = t_y t \<and>
     TTY_Color s = t_fg t \<and> TTY_BgColor s = t_bg t \<and> TTY_Bold s = t_bold t \<and>
     esc s = (t_esc t \<noteq> None) \<and> esc_text L s (pending t)"

text \<open>The cursor is on the screen and the pending text leaves room in its array.\<close>

definition term_ok :: "'a console_scheme \<Rightarrow> terminal \<Rightarrow> bool" where
  "term_ok s t \<longleftrightarrow> t_x t < unat (TTY_Width s) \<and> t_y t < unat (TTY_Height s) \<and>
     length (pending t) < 255"

definition console_area :: "image \<Rightarrow> framebuffer_t \<Rightarrow> addr set" where
  "console_area L f = fb_bytes f \<union> span (escapeSequence_at L) 256 \<union> span (colorCode_at L) 256"

definition console_layout :: "image \<Rightarrow> 'a console_scheme \<Rightarrow> bool" where
  "console_layout L s \<longleftrightarrow> fb_ok (fbCon s) \<and> esc_layout L \<and>
     unat (TTY_Width s) \<le> unat (fb_width (fbCon s)) div 8 \<and>
     unat (TTY_Height s) \<le> unat (fb_height (fbCon s)) div 16 \<and>
     fb_bytes (fbCon s) \<inter> span (escapeSequence_at L) 256 = {}"

text \<open>
  The screen is the same, and so is the state of every other component: the port history, the heap
  and whatever a larger state adds to the console.
\<close>

definition same_screen :: "'a console_scheme \<Rightarrow> 'a console_scheme \<Rightarrow> bool" where
  "same_screen s s' \<longleftrightarrow> fbCon s' = fbCon s \<and> TTY_Width s' = TTY_Width s \<and> TTY_Height s' = TTY_Height s \<and>
     trace s' = trace s \<and> kernieHeap_is_set_up s' = kernieHeap_is_set_up s \<and>
     have_allocated s' = have_allocated s \<and> last_valid_address s' = last_valid_address s \<and>
     kernieHeap_space s' = kernieHeap_space s \<and> console.more s' = console.more s"

definition console_frame :: "image \<Rightarrow> 'a console_scheme \<Rightarrow> 'a console_scheme \<Rightarrow> bool" where
  "console_frame L s s' \<longleftrightarrow> (\<forall>b. b \<notin> console_area L (fbCon s) \<longrightarrow> mem s' b = mem s b)"

lemma console_frame_refl [simp]: "mem s' = mem s \<Longrightarrow> console_frame L s s'"
  by (simp add: console_frame_def)

lemma console_frame_esc: "esc_frame L (mem s) (mem s') \<Longrightarrow> console_frame L s s'"
  by (simp add: console_frame_def esc_frame_def console_area_def)

lemma sgr_console [simp]:
  "TTY_WriteFunc (sgr c s) = TTY_WriteFunc s" "TTY_CursorX (sgr c s) = TTY_CursorX s"
  "TTY_CursorY (sgr c s) = TTY_CursorY s" "TTY_Width (sgr c s) = TTY_Width s"
  "TTY_Height (sgr c s) = TTY_Height s" "fbCon (sgr c s) = fbCon s" "esc (sgr c s) = esc s"
  "trace (sgr c s) = trace s" "kernieHeap_is_set_up (sgr c s) = kernieHeap_is_set_up s"
  "have_allocated (sgr c s) = have_allocated s" "last_valid_address (sgr c s) = last_valid_address s"
  "kernieHeap_space (sgr c s) = kernieHeap_space s" "console.more (sgr c s) = console.more s"
  by (simp_all add: sgr_def)

lemma term_sgr_fields [simp]:
  "t_x (term_sgr c t) = t_x t" "t_y (term_sgr c t) = t_y t" "t_esc (term_sgr c t) = t_esc t"
  by (simp_all add: term_sgr_def)

text \<open>The decoded attributes agree with the palette.\<close>

lemma sgr_palette:
  assumes "TTY_Color s = t_fg t" "TTY_BgColor s = t_bg t" "TTY_Bold s = t_bold t"
  shows "TTY_Color (sgr c s) = t_fg (term_sgr c t)" "TTY_BgColor (sgr c s) = t_bg (term_sgr c t)"
    "TTY_Bold (sgr c s) = t_bold (term_sgr c t)"
proof -
  have "c \<in> {30, 31, 32, 33, 34, 35, 36, 37}" if "30 \<le> c" "c \<le> 37" using that by auto
  moreover have "c \<in> {40, 41, 42, 43, 44, 45, 46, 47}" if "40 \<le> c" "c \<le> 47" using that by auto
  ultimately show "TTY_Color (sgr c s) = t_fg (term_sgr c t)"
    "TTY_BgColor (sgr c s) = t_bg (term_sgr c t)" "TTY_Bold (sgr c s) = t_bold (term_sgr c t)"
    using assms by (auto simp: sgr_def term_sgr_def palette_def)
qed

section \<open>The console is a terminal\<close>

lemma same_screen_refl [simp]: "same_screen s s"
  by (simp add: same_screen_def)

lemma esc_text_cong:
  assumes "escapeSequenceLength s' = escapeSequenceLength s" and "length e < 256"
    and "\<And>b. b \<in> span (escapeSequence_at L) 256 \<Longrightarrow> mem s' b = mem s b"
  shows "esc_text L s' e = esc_text L s e"
proof -
  have "load_bytes (mem s') (escapeSequence_at L) (length e) = load_bytes (mem s) (escapeSequence_at L) (length e)"
    using assms(2,3) span_mono [of "length e" 256 "escapeSequence_at L"] by (intro load_bytes_cong) auto
  then show ?thesis by (simp only: esc_text_def assms(1))
qed

lemma draw_glyph_state:
  assumes "console_layout L s" and "unat x < unat (TTY_Width s)" and "unat y < unat (TTY_Height s)"
  shows "\<exists>m. draw_glyph L ch x y fg bg s = s\<lparr>mem := m\<rparr> \<and>
    console_frame L s (s\<lparr>mem := m\<rparr>) \<and>
    (\<forall>e. length e < 256 \<longrightarrow> esc_text L (s\<lparr>mem := m\<rparr>) e = esc_text L s e)"
proof (intro exI conjI allI impI)
  let ?m = "mem (draw_glyph L ch x y fg bg s)"
  show s': "draw_glyph L ch x y fg bg s = s\<lparr>mem := ?m\<rparr>" by (simp add: draw_glyph_store)
  have "cell_visible (fbCon s) (unat x) (unat y)"
    using assms by (auto simp: console_layout_def cell_visible_def)
  then have out: "?m b = mem s b" if "b \<notin> fb_bytes (fbCon s)" for b
    using assms(1) that by (intro glyph_frame) (simp_all add: console_layout_def)
  then show "console_frame L s (s\<lparr>mem := ?m\<rparr>)"
    by (simp add: console_frame_def console_area_def)
  fix e :: "u8 list" assume "length e < 256"
  then show "esc_text L (s\<lparr>mem := ?m\<rparr>) e = esc_text L s e"
    using out assms(1) by (intro esc_text_cong) (auto simp: console_layout_def disjoint_iff)
qed

text \<open>The fields a character may change keep the relation to the terminal.\<close>

lemma cursor_right_rel:
  assumes rel: "term_rel L s t" and x: "t_x t < unat (TTY_Width s)" and y: "t_y t < unat (TTY_Height s)"
  shows "term_rel L (cursor_right s) (term_advance (unat (TTY_Width s)) t)"
    and "same_screen s (cursor_right s)" and "mem (cursor_right s) = mem s"
proof -
  have X: "unat (TTY_CursorX s) = t_x t" "unat (TTY_CursorY s) = t_y t"
    using rel by (simp_all add: term_rel_def)
  have "TTY_CursorX s < TTY_Width s" "TTY_CursorY s < TTY_Height s"
    using x y X by (simp_all add: word_less_nat_alt)
  from this [THEN unat_Suc_less] have s: "unat (TTY_CursorX s + 1) = Suc (t_x t)"
      "unat (TTY_CursorY s + 1) = Suc (t_y t)" using X by simp_all
  show "term_rel L (cursor_right s) (term_advance (unat (TTY_Width s)) t)"
    using rel s by (auto simp: cursor_right_def term_advance_def term_rel_def Let_def
        word_le_nat_alt esc_text_def pending_def)
  show "same_screen s (cursor_right s)" "mem (cursor_right s) = mem s"
    by (simp_all add: cursor_right_def same_screen_def Let_def)
qed

text \<open>The console shows a terminal whatever happens to the memory and state of other components.\<close>

lemma term_rel_cong:
  assumes "TTY_WriteFunc s' = TTY_WriteFunc s" "escapeCompleted s' = escapeCompleted s"
    "TTY_CursorX s' = TTY_CursorX s" "TTY_CursorY s' = TTY_CursorY s" "TTY_Color s' = TTY_Color s"
    "TTY_BgColor s' = TTY_BgColor s" "TTY_Bold s' = TTY_Bold s" "esc s' = esc s"
    "escapeSequenceLength s' = escapeSequenceLength s"
    and "\<And>b. b \<in> console_area L (fbCon s) \<Longrightarrow> mem s' b = mem s b" and "length (pending t) < 256"
  shows "term_rel L s' t = term_rel L s t"
proof -
  have "esc_text L s' (pending t) = esc_text L s (pending t)"
    using assms(9-11) by (intro esc_text_cong) (auto simp: console_area_def)
  then show ?thesis using assms(1-8) by (simp add: term_rel_def)
qed

text \<open>One character, outside and inside an escape sequence.\<close>

definition put_refines ::
    "image \<Rightarrow> 'a console_scheme option \<Rightarrow> 'a console_scheme \<Rightarrow> terminal \<Rightarrow> bool" where
  "put_refines L r s t' \<longleftrightarrow>
     (\<exists>s'. r = Some s' \<and> term_rel L s' t' \<and> same_screen s s' \<and> console_frame L s s')"

lemma glyph_refines:
  assumes lay: "console_layout L s" and rel: "term_rel L s t" and ok: "term_ok s t"
  shows "put_refines L (Some (cursor_right (draw_glyph L ch (TTY_CursorX s) (TTY_CursorY s) fg bg s))) s
    (term_advance (unat (TTY_Width s)) t)"
proof -
  have xy: "t_x t < unat (TTY_Width s)" "t_y t < unat (TTY_Height s)" "length (pending t) < 256"
    using ok by (simp_all add: term_ok_def)
  obtain m where m: "draw_glyph L ch (TTY_CursorX s) (TTY_CursorY s) fg bg s = s\<lparr>mem := m\<rparr>"
      "console_frame L s (s\<lparr>mem := m\<rparr>)"
      "\<forall>e. length e < 256 \<longrightarrow> esc_text L (s\<lparr>mem := m\<rparr>) e = esc_text L s e"
    using draw_glyph_state [OF lay, of "TTY_CursorX s" "TTY_CursorY s"] xy rel
    unfolding term_rel_def by metis
  have "term_rel L (s\<lparr>mem := m\<rparr>) t" using rel m(3) xy(3) by (simp add: term_rel_def)
  from cursor_right_rel [OF this] xy m(1,2) show ?thesis
    unfolding put_refines_def by (auto simp: same_screen_def console_frame_def)
qed

lemma backspace_refines:
  assumes lay: "console_layout L s" and rel: "term_rel L s t" and ok: "term_ok s t"
    and idle: "t_esc t = None"
  shows "put_refines L (putchar L 0x08 s) s (t\<lparr>t_x := t_x t - 1\<rparr>)"
proof (cases "TTY_CursorX s = 0")
  case True
  then have "t_x t = 0" using rel by (auto simp: term_rel_def)
  then have "t\<lparr>t_x := t_x t - 1\<rparr> = t" by (cases t) simp
  moreover have "putchar L 0x08 s = Some s"
    unfolding putchar_def TTY_Write.simps [of L "0x08"] FBCON_Write.simps [of L "0x08"]
    using True rel idle by (simp add: term_rel_def)
  ultimately show ?thesis using rel by (simp add: put_refines_def)
next
  case False
  let ?x = "TTY_CursorX s - 1" and ?s = "s\<lparr>TTY_CursorX := TTY_CursorX s - 1\<rparr>"
  have X: "unat (TTY_CursorX s) = t_x t" "t_x t < unat (TTY_Width s)" "t_y t < unat (TTY_Height s)"
    using rel ok by (simp_all add: term_rel_def term_ok_def)
  have x: "unat ?x = t_x t - 1" "0 < t_x t" using False X(1) by (simp_all add: unat_pred flip: unat_gt_0)
  obtain m where m: "draw_glyph L 0x20 ?x (TTY_CursorY s) (TTY_Color s) (TTY_BgColor s) ?s = ?s\<lparr>mem := m\<rparr>"
      "console_frame L ?s (?s\<lparr>mem := m\<rparr>)"
      "\<forall>e. length e < 256 \<longrightarrow> esc_text L (?s\<lparr>mem := m\<rparr>) e = esc_text L ?s e"
  proof -
    have "console_layout L ?s" "unat ?x < unat (TTY_Width ?s)" "unat (TTY_CursorY s) < unat (TTY_Height ?s)"
      using X x lay rel by (simp_all add: term_rel_def console_layout_def)
    from draw_glyph_state [OF this] that show ?thesis by blast
  qed
  have right: "cursor_right (?s\<lparr>mem := m\<rparr>) = s\<lparr>mem := m\<rparr>"
    using X(1,2) by (simp add: cursor_right_def word_le_nat_alt)
  have "TTY_Write L 0x20 ?x (TTY_CursorY s) (TTY_Color s) (TTY_BgColor s) ?s = Some (s\<lparr>mem := m\<rparr>)"
    using rel idle m(1) right by (simp add: TTY_Write.simps [of L "0x20"] FBCON_Write.simps [of L "0x20"] term_rel_def)
  then have "putchar L 0x08 s = Some (?s\<lparr>mem := m\<rparr>)"
    using False rel idle
    by (simp add: putchar_def TTY_Write.simps [of L "0x08"] FBCON_Write.simps [of L "0x08"] term_rel_def)
  moreover have "esc_text L ?s (pending t)" "length (pending t) < 256"
    using rel ok by (simp_all add: term_rel_def term_ok_def esc_text_def)
  with m(3) have "esc_text L (?s\<lparr>mem := m\<rparr>) (pending t)" by blast
  then have "term_rel L (?s\<lparr>mem := m\<rparr>) (t\<lparr>t_x := t_x t - 1\<rparr>)"
    using rel x by (simp add: term_rel_def pending_def)
  moreover have "console_frame L s (?s\<lparr>mem := m\<rparr>)" using m(2) by (simp add: console_frame_def)
  ultimately show ?thesis by (auto simp: put_refines_def same_screen_def)
qed

lemma escape_refines:
  assumes lay: "console_layout L s" and rel: "term_rel L s t" and ok: "term_ok s t"
    and ch: "ch \<noteq> 0x1B" "ch \<noteq> 0" and busy: "t_esc t \<noteq> None"
  shows "put_refines L (putchar L ch s) s (term_esc ch t)"
proof -
  have put: "putchar L ch s = Option.bind (TTY_HandleEsc L ch s) (\<lambda>(fin, s). Some (s\<lparr>esc := \<not> fin\<rparr>))"
    using rel busy ch(1) by (simp add: putchar_def TTY_Write.simps [of L ch] FBCON_Write.simps [of L ch] term_rel_def)
  have pre: "esc_text L s (pending t)" "length (pending t) < 255" "\<not> escapeCompleted s" "esc_layout L"
    using rel ok lay by (simp_all add: term_rel_def term_ok_def console_layout_def)
  note sim = HandleEsc_simulation [OF pre(1,2) ch(2) pre(3,4)]
  show ?thesis
  proof (cases "if is_final ch then esc_code (pending t @ [ch]) else None")
    case None
    obtain s' where s': "TTY_HandleEsc L ch s = Some (False, s')"
        "s' = s\<lparr>escapeSequenceLength := of_nat (Suc (length (pending t))), mem := mem s'\<rparr>"
        "esc_text L s' (pending t @ [ch])" "esc_frame L (mem s) (mem s')"
      using sim unfolding None by auto
    obtain m where m: "s' = s\<lparr>escapeSequenceLength := of_nat (Suc (length (pending t))), mem := m\<rparr>"
      using s'(2) by blast
    have "term_rel L (s'\<lparr>esc := True\<rparr>) (term_esc ch t)"
      using rel s'(3) None unfolding m by (simp add: term_rel_def term_esc_def pending_def esc_text_def)
    moreover have "same_screen s (s'\<lparr>esc := True\<rparr>)" unfolding m by (simp add: same_screen_def)
    moreover have "console_frame L s (s'\<lparr>esc := True\<rparr>)" using s'(4) by (intro console_frame_esc) simp
    ultimately show ?thesis using put s'(1) by (simp add: put_refines_def)
  next
    case (Some c)
    obtain s' where s': "TTY_HandleEsc L ch s = Some (True, s')"
        "s' = sgr (attr_code c) (s\<lparr>escapeSequenceLength := 0, mem := mem s'\<rparr>)"
        "esc_text L s' []" "esc_frame L (mem s) (mem s')"
      using sim unfolding Some by auto
    obtain m where m: "s' = sgr (attr_code c) (s\<lparr>escapeSequenceLength := 0, mem := m\<rparr>)"
      using s'(2) by blast
    let ?u = "s\<lparr>escapeSequenceLength := 0, mem := m\<rparr>" and ?t = "t\<lparr>t_esc := None\<rparr>"
    have "TTY_Color ?u = t_fg ?t" "TTY_BgColor ?u = t_bg ?t" "TTY_Bold ?u = t_bold ?t"
      using rel by (simp_all add: term_rel_def)
    note attrs = sgr_palette [OF this, of "attr_code c"]
    have "term_rel L (s'\<lparr>esc := False\<rparr>) (term_esc ch t)"
      using rel s'(3) Some attrs unfolding m
      by (simp add: term_rel_def term_esc_def pending_def esc_text_def)
    moreover have "same_screen s (s'\<lparr>esc := False\<rparr>)" unfolding m by (simp add: same_screen_def)
    moreover have "console_frame L s (s'\<lparr>esc := False\<rparr>)" using s'(4) by (intro console_frame_esc) simp
    ultimately show ?thesis using put s'(1) by (simp add: put_refines_def)
  qed
qed

text \<open>\<open>putchar\<close> does what the terminal does.\<close>

lemma putchar_terminal:
  assumes lay: "console_layout L s" and rel: "term_rel L s t" and ok: "term_ok s t" and ch: "ch \<noteq> 0"
  shows "put_refines L (putchar L ch s) s (term_put (unat (TTY_Width s)) ch t)"
proof -
  note rels = rel [unfolded term_rel_def]
  have step: "putchar L ch s = FBCON_Write L ch (TTY_CursorX s) (TTY_CursorY s) (TTY_Color s) (TTY_BgColor s) s"
    using rels by (simp add: putchar_def TTY_Write.simps [of L ch])
  consider "ch = 0x1B" | "ch \<noteq> 0x1B" "t_esc t \<noteq> None"
    | "ch \<noteq> 0x1B" "t_esc t = None" "ch = 0x0D" | "ch \<noteq> 0x1B" "t_esc t = None" "ch = 0x08"
    | "ch \<noteq> 0x1B" "t_esc t = None" "ch = 0x0A"
    | "ch \<noteq> 0x1B" "t_esc t = None" "ch \<noteq> 0x0D" "ch \<noteq> 0x08" "ch \<noteq> 0x0A" by blast
  then show ?thesis
  proof cases
    case 1
    then have "putchar L ch s = Some (s\<lparr>esc := True\<rparr>)" unfolding step by (simp add: FBCON_Write.simps)
    then show ?thesis using 1 rels
      by (simp add: put_refines_def term_put_def term_rel_def pending_def esc_text_def same_screen_def)
  next
    case 2 then show ?thesis using escape_refines [OF lay rel ok _ ch] by (simp add: term_put_def)
  next
    case 3
    then have "putchar L ch s = Some (s\<lparr>TTY_CursorX := 0\<rparr>)"
      unfolding step using rels by (simp add: FBCON_Write.simps)
    then show ?thesis using 3 rels
      by (simp add: put_refines_def term_put_def term_rel_def pending_def esc_text_def same_screen_def)
  next
    case 4 then show ?thesis using backspace_refines [OF lay rel ok] by (simp add: term_put_def)
  next
    case 5
    have "TTY_CursorY s < TTY_Height s"
      using rels ok by (simp add: word_less_nat_alt term_ok_def)
    from unat_Suc_less [OF this] have y: "unat (TTY_CursorY s + 1) = Suc (t_y t)" using rels by simp
    have "putchar L ch s = Some (s\<lparr>TTY_CursorX := 0, TTY_CursorY := TTY_CursorY s + 1\<rparr>)"
      unfolding step using 5 rels by (simp add: FBCON_Write.simps)
    then show ?thesis using 5 rels y
      by (simp add: put_refines_def term_put_def term_rel_def pending_def esc_text_def same_screen_def)
  next
    case 6
    then have "putchar L ch s = Some (cursor_right
        (draw_glyph L ch (TTY_CursorX s) (TTY_CursorY s) (TTY_Color s) (TTY_BgColor s) s))"
      unfolding step using rels by (simp add: FBCON_Write.simps)
    then show ?thesis using 6 glyph_refines [OF lay rel ok] by (simp add: term_put_def)
  qed
qed

section \<open>\<open>puts\<close>\<close>

definition term_puts :: "nat \<Rightarrow> u8 list \<Rightarrow> terminal \<Rightarrow> terminal" where
  "term_puts w str t = fold (term_put w) str t"

text \<open>Every terminal state before a character of the text is on the screen.\<close>

fun term_fits :: "'a console_scheme \<Rightarrow> u8 list \<Rightarrow> terminal \<Rightarrow> bool" where
  "term_fits s [] t \<longleftrightarrow> True"
| "term_fits s (c # str) t \<longleftrightarrow> term_ok s t \<and> term_fits s str (term_put (unat (TTY_Width s)) c t)"

lemma term_fits_size:
  "TTY_Width s' = TTY_Width s \<Longrightarrow> TTY_Height s' = TTY_Height s \<Longrightarrow> term_fits s' str t = term_fits s str t"
  by (induction str arbitrary: t) (simp_all add: term_ok_def)

lemma term_fits_cong: "same_screen s s' \<Longrightarrow> term_fits s' str t = term_fits s str t"
  by (rule term_fits_size) (simp_all add: same_screen_def)

lemma term_fits_append:
  "term_fits s (xs @ ys) t \<longleftrightarrow> term_fits s xs t \<and> term_fits s ys (term_puts (unat (TTY_Width s)) xs t)"
  by (induction xs arbitrary: t) (simp_all add: term_puts_def)

lemma term_puts_append: "term_puts w (xs @ ys) t = term_puts w ys (term_puts w xs t)"
  by (simp add: term_puts_def)

lemma same_screen_trans: "same_screen s s' \<Longrightarrow> same_screen s' s'' \<Longrightarrow> same_screen s s''"
  by (simp add: same_screen_def)

lemma console_layout_cong: "same_screen s s' \<Longrightarrow> console_layout L s' = console_layout L s"
  by (simp add: same_screen_def console_layout_def)

lemma console_frame_trans:
  "same_screen s s' \<Longrightarrow> console_frame L s s' \<Longrightarrow> console_frame L s' s'' \<Longrightarrow> console_frame L s s''"
  by (simp add: same_screen_def console_frame_def)

lemma puts_loop_terminal:
  assumes "console_layout L s" and "term_rel L s t" and "term_fits s str t"
    and "cstr (mem s) p str" and "ptr_span p (Suc (length str)) \<inter> console_area L (fbCon s) = {}"
  shows "\<exists>s'. puts_loop L p n s = Some (n + of_nat (length str), s') \<and>
    term_rel L s' (term_puts (unat (TTY_Width s)) str t) \<and> same_screen s s' \<and> console_frame L s s'"
  using assms
proof (induction str arbitrary: p n s t)
  case Nil
  then show ?case by (subst puts_loop.simps) (simp add: term_puts_def)
next
  case (Cons c str)
  let ?w = "unat (TTY_Width s)"
  have c: "c \<noteq> 0" "deref (mem s) p = c" "cstr (mem s) (inc p) str"
    using Cons.prems(4) by (simp_all add: cstr_Cons)
  have fits: "term_ok s t" "term_fits s str (term_put ?w c t)" using Cons.prems(3) by simp_all
  obtain s1 where s1: "putchar L c s = Some s1" "term_rel L s1 (term_put ?w c t)" "same_screen s s1"
      "console_frame L s s1"
    using putchar_terminal [OF Cons.prems(1,2) fits(1) c(1)] by (auto simp: put_refines_def)
  have w1: "unat (TTY_Width s1) = ?w" "fbCon s1 = fbCon s" using s1(3) by (simp_all add: same_screen_def)
  have tail: "ptr_span (inc p) (Suc (length str)) \<inter> console_area L (fbCon s) = {}"
    using Cons.prems(5) ptr_span_inc [of p "Suc (length str)"] by auto
  have "cstr (mem s1) (inc p) str"
    using c(3) cstr_ptr_cong [of "inc p" str "mem s1" "mem s"] s1(4) tail
    by (auto simp: console_frame_def)
  then obtain s' where s': "puts_loop L (inc p) (n + 1) s1 = Some (n + 1 + of_nat (length str), s')"
      "term_rel L s' (term_puts ?w str (term_put ?w c t))" "same_screen s1 s'" "console_frame L s1 s'"
    using Cons.IH [of s1 "term_put ?w c t" "inc p" "n + 1"] s1 fits(2) Cons.prems(1) tail w1
    by (auto simp: console_layout_cong term_fits_cong)
  have "puts_loop L p n s = Some (n + of_nat (length (c # str)), s')"
    using c s1(1) s'(1) by (subst puts_loop.simps) (simp add: ac_simps)
  then show ?case
    using s' s1(3,4) same_screen_trans console_frame_trans by (auto simp: term_puts_def)
qed

lemma puts_terminal:
  assumes "console_layout L s" and "term_rel L s t" and "term_fits s str t"
    and "cstr (mem s) p str" and "ptr_span p (Suc (length str)) \<inter> console_area L (fbCon s) = {}"
    and "length str < 2 ^ 31"
  shows "\<exists>s'. puts L p s = Some (int (length str), s') \<and>
    term_rel L s' (term_puts (unat (TTY_Width s)) str t) \<and> same_screen s s' \<and> console_frame L s s'"
proof -
  have "take_bit 64 (length str) = length str" using assms(6) by (intro take_bit_nat_eq_self) simp
  then have "sint (ucast (of_nat (length str) :: u64) :: u32) = int (length str)"
    using assms(6) by (simp add: unsigned_of_nat sint_of_nat32)
  then show ?thesis using puts_loop_terminal [OF assms(1-5), of 0] by (auto simp: puts_def)
qed

section \<open>Drawing outside the screen\<close>

text \<open>Drawing does not look at the height of the framebuffer.\<close>

lemma draw_glyph_height:
  "draw_glyph L ch x y fg bg (s\<lparr>fbCon := (fbCon s)\<lparr>fb_height := h\<rparr>\<rparr>) =
     (draw_glyph L ch x y fg bg s)\<lparr>fbCon := (fbCon s)\<lparr>fb_height := h\<rparr>\<rparr>"
  unfolding draw_glyph_store by (simp add: glyph_cells_def)

lemma FBCON_Write_glyph:
  "ch \<notin> {0x1B, 0x0D, 0x08, 0x0A} \<Longrightarrow> \<not> esc s \<Longrightarrow>
     FBCON_Write L ch x y fg bg s = Some (cursor_right (draw_glyph L ch x y fg bg s))"
  by (simp add: FBCON_Write.simps)

lemma mem_cursor_right [simp]: "mem (cursor_right s) = mem s" "fbCon (cursor_right s) = fbCon s"
  by (simp_all add: cursor_right_def Let_def)

lemma fbCon_draw_glyph [simp]: "fbCon (draw_glyph L ch x y fg bg s) = fbCon s"
  by (simp add: draw_glyph_store)

text \<open>A framebuffer above the first 4 GiB, as the boot loader maps it.\<close>

definition fb_high :: "framebuffer_t \<Rightarrow> bool" where
  "fb_high f \<longleftrightarrow> 2 ^ 32 + 4 \<le> unat (fb_ptr f) \<and> unat (fb_ptr f) + 4 * fb_area f \<le> 2 ^ 64"

lemma putPixel_misses:
  assumes "fb_high (fbCon s)" and "row < unat (fb_height (fbCon s))" and "col < unat (fb_width (fbCon s))"
  shows "fb_pixel (putPixel x y c s) row col = fb_pixel s row col"
proof -
  let ?f = "fbCon s" and ?a = "ucast (load32 (mem s) (pixel_slot s x y)) :: addr"
  have "unat ?a < 2 ^ 32"
    unfolding unat_ucast_32_64 using unsigned_less [of "load32 (mem s) (pixel_slot s x y)"] by simp
  then have "span ?a 4 \<inter> fb_bytes ?f = {}"
    unfolding fb_bytes_def using assms(1) by (intro span_disjI) (simp_all add: fb_high_def)
  then have "span (fb_cell ?f row col) 4 \<inter> span ?a 4 = {}"
    using fb_cell_in_bytes [OF assms(2,3)] by blast
  then show ?thesis by (simp add: fb_pixel_def putPixel_def c32.ld_st_disj)
qed

lemma fbCon_putPixel [simp]: "fbCon (putPixel x y c s) = fbCon s"
  by (simp add: putPixel_def)

lemma putPixels_miss:
  assumes "fb_high (fbCon s)" and "row < unat (fb_height (fbCon s))" and "col < unat (fb_width (fbCon s))"
  shows "fb_pixel (fold (\<lambda>x. fold (\<lambda>y. putPixel (f x) (f y) c) ys) xs s) row col = fb_pixel s row col \<and>
    fbCon (fold (\<lambda>x. fold (\<lambda>y. putPixel (f x) (f y) c) ys) xs s) = fbCon s"
proof -
  have line: "fb_pixel (fold (\<lambda>y. putPixel x (f y) c) ys s) row col = fb_pixel s row col \<and>
      fbCon (fold (\<lambda>y. putPixel x (f y) c) ys s) = fbCon s"
    if "fbCon s = fbCon s0" "fb_high (fbCon s0)" "row < unat (fb_height (fbCon s0))"
      "col < unat (fb_width (fbCon s0))" for x s s0
    using that by (induction ys arbitrary: s) (simp_all add: putPixel_misses)
  show ?thesis using assms
  proof (induction xs arbitrary: s)
    case (Cons x xs) then show ?case using line [of s s] by simp
  qed simp
qed

section \<open>Properties\<close>

text \<open>A 16 by 32 framebuffer above 4 GiB, for the examples.\<close>

definition fb0 :: framebuffer_t where
  "fb0 = \<lparr>fb_width = 16, fb_height = 32, fb_mode = FB_MODE_RGBA, fb_ptr = 0x800000000\<rparr>"

definition console0 :: console where
  "console0 = \<lparr>mem = (\<lambda>_. 0), trace = [], kernieHeap_is_set_up = False,
     have_allocated = False, last_valid_address = 0, kernieHeap_space = 0, TTY_Color = COLOR_LGRAY,
     TTY_BgColor = COLOR_BLACK, TTY_Bold = False, escapeCompleted = False, escapeSequenceLength = 0,
     TTY_CursorX = 0, TTY_CursorY = 0, TTY_Width = 2, TTY_Height = 2, TTY_WriteFunc = WriteFBCON,
     fbCon = fb0, esc = False\<rparr>"

lemma fb0_ok: "fb_ok (fbCon console0)" "fbCon console0 = fb0"
  by (simp_all add: fb_ok_def fb_area_def console0_def fb0_def)

lemma console0_layout: "console_layout image0 console0"
proof -
  have "fb_bytes fb0 \<inter> span (0x101000 :: addr) 256 = {}"
    unfolding fb_bytes_def by (rule span_disjI') (simp_all add: fb0_def fb_area_def)
  then show ?thesis
    using image0_layout fb0_ok by (simp add: console_layout_def) (simp add: image0_def console0_def fb0_def)
qed

text \<open>
  C11: A printable character outside an escape sequence draws exactly its glyph: of the text cell
  \<open>(x, y)\<close>, if visible, the first seven columns get the foreground colour (raised when bold)
  where the font has a bit and the background elsewhere; every other pixel of the screen, the
  cell's eighth column among them, and all memory outside the framebuffer keep their value. Only
  the cursor moves besides.
\<close>

theorem FBCON_Write_draws_glyph:
  assumes "fb_ok (fbCon s)" and "cell_visible (fbCon s) (unat x) (unat y)"
    and "ch \<notin> {0x1B, 0x0D, 0x08, 0x0A}" and "\<not> esc s"
    and "row < unat (fb_height (fbCon s))" and "col < unat (fb_width (fbCon s))"
  shows "\<exists>s'. FBCON_Write L ch x y fg bg s = Some s' \<and> s' = cursor_right (s\<lparr>mem := mem s'\<rparr>) \<and>
    fb_pixel s' row col =
      (if in_glyph (unat x) (unat y) row col
       then glyph_color L ch (row mod 16) (7 - col mod 8) fg bg (TTY_Bold s)
       else fb_pixel s row col) \<and>
    (\<forall>b. b \<notin> fb_bytes (fbCon s) \<longrightarrow> mem s' b = mem s b)"
proof (intro exI conjI allI impI)
  let ?g = "draw_glyph L ch x y fg bg s"
  show "FBCON_Write L ch x y fg bg s = Some (cursor_right ?g)"
    using assms(3,4) by (rule FBCON_Write_glyph)
  show "cursor_right ?g = cursor_right (s\<lparr>mem := mem (cursor_right ?g)\<rparr>)"
    by (simp add: draw_glyph_store)
  show "fb_pixel (cursor_right ?g) row col = (if in_glyph (unat x) (unat y) row col
       then glyph_color L ch (row mod 16) (7 - col mod 8) fg bg (TTY_Bold s)
       else fb_pixel s row col)"
    using glyph_pixels [OF assms(1,2,5,6), of L ch fg bg] by (simp add: fb_pixel_def)
  show "mem (cursor_right ?g) b = mem s b" if "b \<notin> fb_bytes (fbCon s)" for b
    using glyph_frame [OF assms(1,2) that] by simp
qed

theorem FBCON_Write_draws_glyph_witness:
  "\<exists>s'. FBCON_Write image0 0x41 1 0 COLOR_RED COLOR_BLACK console0 = Some s' \<and>
     fb_pixel s' 5 8 = COLOR_RED \<and> fb_pixel s' 5 15 = fb_pixel console0 5 15"
proof -
  have "cell_visible (fbCon console0) (unat (1 :: u16)) (unat (0 :: u16))"
    by (simp add: cell_visible_def console0_def fb0_def)
  note draw = FBCON_Write_draws_glyph [OF fb0_ok(1) this, of "0x41" 5 _ image0 COLOR_RED COLOR_BLACK]
  have bit: "bit (0xFF :: u8) 7" by simp
  show ?thesis using draw [of 8] draw [of 15] bit
    by (auto simp: fb0_def console0_def in_glyph_def glyph_color_def image0_def)
qed

text \<open>
  C1: \<open>puts\<close> behaves like the abstract terminal (a functional refinement). On a console that shows
  the terminal \<open>t\<close>, with a string whose characters all leave the cursor on the screen and the
  escape text below its array size, \<open>puts\<close> returns the string's length, the console afterwards
  shows \<open>t\<close> after the same characters (cursor, colours, bold, escape text), and no memory outside
  the framebuffer and the two escape arrays changes.
\<close>

theorem puts_refines_terminal:
  assumes "console_layout L s" and "term_rel L s t" and "term_fits s str t"
    and "cstr (mem s) p str" and "ptr_span p (Suc (length str)) \<inter> console_area L (fbCon s) = {}"
    and "length str < 2 ^ 31"
  shows "\<exists>s'. puts L p s = Some (int (length str), s') \<and>
    term_rel L s' (term_puts (unat (TTY_Width s)) str t) \<and> same_screen s s' \<and> console_frame L s s'"
  using assms by (rule puts_terminal)

theorem puts_refines_terminal_witness:
  "\<exists>s'. puts image0 (Lit [0x1B, 0x5B, 0x33, 0x32, 0x6D, 0x41, 0x42]) console0 = Some (7, s') \<and>
     TTY_Color s' = COLOR_GREEN \<and> TTY_CursorX s' = 0 \<and> TTY_CursorY s' = 1"
proof -
  let ?str = "[0x1B, 0x5B, 0x33, 0x32, 0x6D, 0x41, 0x42] :: u8 list"
  let ?t = "\<lparr>t_x = 0, t_y = 0, t_fg = COLOR_LGRAY, t_bg = COLOR_BLACK, t_bold = False, t_esc = None\<rparr>"
  have rel: "term_rel image0 console0 ?t"
    by (simp add: term_rel_def console0_def esc_text_def pending_def)
  have code: "attr_code [0x33, 0x32] = 32" by (simp add: attr_code_def atoi_step_def)
  have w: "unat (TTY_Width console0) = 2" "unat (TTY_Height console0) = 2" by (simp_all add: console0_def)
  have "term_fits console0 ?str ?t"
    by (simp add: term_ok_def w term_put_def pending_def term_esc_def is_final_def esc_code_def code
        term_sgr_def term_advance_def)
  then obtain s' where s': "puts image0 (Lit ?str) console0 = Some (7, s')"
      "term_rel image0 s' (term_puts 2 ?str ?t)"
    using puts_refines_terminal [OF console0_layout rel, of ?str "Lit ?str"] w by auto
  have "term_puts 2 ?str ?t = ?t\<lparr>t_fg := COLOR_GREEN, t_y := 1\<rparr>"
    by (simp add: term_puts_def term_put_def pending_def term_esc_def is_final_def esc_code_def code
        term_sgr_def term_advance_def palette_def)
  then have "unat (TTY_CursorX s') = unat (0 :: u16)" "unat (TTY_CursorY s') = unat (1 :: u16)"
      "TTY_Color s' = COLOR_GREEN" using s'(2) by (simp_all add: term_rel_def)
  then show ?thesis using s'(1) unfolding word_unat_eq_iff by blast
qed

text \<open>
  C33: The console does not scroll: a printable character on a text line below the screen is drawn
  all the same, into the memory behind the framebuffer (the pixel index is past its area).
\<close>

theorem FBCON_Write_below_screen:
  assumes "ch \<notin> {0x1B, 0x0D, 0x08, 0x0A}" and "\<not> esc s"
    and "unat x < unat (fb_width (fbCon s)) div 8" and "unat (fb_height (fbCon s)) \<le> 16 * unat y"
    and "unat (fb_width (fbCon s)) * (16 * unat y + 16) < 2 ^ 32" and "i < 16" and "k < 7"
  shows "\<exists>s'. FBCON_Write L ch x y fg bg s = Some s' \<and>
    fb_area (fbCon s) \<le> (16 * unat y + i) * unat (fb_width (fbCon s)) + (8 * unat x + k) \<and>
    load32 (mem s') (fb_cell (fbCon s) (16 * unat y + i) (8 * unat x + k)) =
      glyph_color L ch i (7 - k) fg bg (TTY_Bold s)"
proof (intro exI conjI)
  let ?f = "fbCon s" and ?g = "draw_glyph L ch x y fg bg s"
  let ?h = "of_nat (16 * unat y + 16) :: u32"
  let ?s = "s\<lparr>fbCon := ?f\<lparr>fb_height := ?h\<rparr>\<rparr>"
  show "FBCON_Write L ch x y fg bg s = Some (cursor_right ?g)"
    using assms(1,2) by (rule FBCON_Write_glyph)
  have "fb_area ?f \<le> 16 * unat y * unat (fb_width ?f)"
    using assms(4) by (simp add: fb_area_def mult.commute)
  also have "\<dots> \<le> (16 * unat y + i) * unat (fb_width ?f)" by (intro mult_le_mono1) simp
  finally show "fb_area ?f \<le> (16 * unat y + i) * unat (fb_width ?f) + (8 * unat x + k)" by simp
  have "unat y < 2 ^ 16" using unsigned_less [of y] by simp
  then have h: "unat ?h = 16 * unat y + 16" by (intro unat_of_nat_lt) simp
  have "fb_ok (fbCon ?s)" using assms(5) h by (simp add: fb_ok_def fb_area_def del: of_nat_add of_nat_mult)
  moreover have "cell_visible (fbCon ?s) (unat x) (unat y)"
    using assms(3) h by (simp add: cell_visible_def del: of_nat_add of_nat_mult)
  moreover have "16 * unat y + i < unat (fb_height (fbCon ?s))"
    using assms(6) h by (simp del: of_nat_add of_nat_mult)
  moreover have "8 * unat x + k < unat (fb_width (fbCon ?s))" using assms(3,7) by simp
  ultimately have "fb_pixel (draw_glyph L ch x y fg bg ?s) (16 * unat y + i) (8 * unat x + k) =
      glyph_color L ch i (7 - k) fg bg (TTY_Bold s)"
    using assms(6,7) by (subst glyph_pixels) (simp_all add: in_glyph_def)
  then show "load32 (mem (cursor_right ?g)) (fb_cell ?f (16 * unat y + i) (8 * unat x + k)) =
      glyph_color L ch i (7 - k) fg bg (TTY_Bold s)"
    unfolding draw_glyph_height by (simp add: fb_pixel_def fb_cell_def)
qed

theorem FBCON_Write_below_screen_witness:
  "\<exists>s'. FBCON_Write image0 0x41 0 2 COLOR_RED COLOR_BLACK console0 = Some s' \<and>
     load32 (mem s') (0x800000000 + 4 * 512) = COLOR_RED \<and> fb_area fb0 = 512"
proof -
  have bit: "bit (0xFF :: u8) 7" by simp
  show ?thesis
    using FBCON_Write_below_screen [of "0x41" console0 0 2 0 0 image0 COLOR_RED COLOR_BLACK] bit
    by (simp add: fb_area_def fb_cell_def) (simp add: fb0_def console0_def glyph_color_def image0_def)
qed

text \<open>
  \<open>drawRect\<close> never draws: \<open>putPixel\<close> takes the pixel's 32-bit value as the address to write
  to, so with a framebuffer above the first 4 GiB every pixel of the screen keeps its value.
\<close>

theorem drawRect_draws_nothing:
  assumes "fb_high (fbCon s)" and "row < unat (fb_height (fbCon s))" and "col < unat (fb_width (fbCon s))"
  shows "fb_pixel (drawRect x y w h c s) row col = fb_pixel s row col"
  using putPixels_miss [OF assms, of of_int] by (simp add: drawRect_def Let_def)

theorem drawRect_draws_nothing_witness:
  "fb_pixel (drawRect 0 0 16 16 COLOR_RED console0) 3 3 = fb_pixel console0 3 3"
  by (rule drawRect_draws_nothing) (simp_all add: fb_high_def fb_area_def console0_def fb0_def)

end
