(* ===== verification/Printf.thy ===== *)
theory Printf
  imports Console
begin

text \<open>
  The formatted output of \<open>kernel/video/printf.c\<close> with its configuration in \<open>printf.h\<close>
  (no floating point, \<open>%n\<close> enabled, 64-bit integers, a 32-byte integer buffer).  A format is
  walked in memory character by character; output goes through an output gadget, which writes to a
  buffer or calls a character function.  Arguments are the list of values the caller passed;
  taking one that was not passed, or an address of a constant object as a number, has no defined
  meaning and is None.
\<close>

section \<open>Output gadgets\<close>

text \<open>
  \<open>outputGadget_t\<close>; the function is taken with its extra argument.  The operations work on the
  gadget and the machine state together.
\<close>

record 's outputGadget_t =
  g_function :: "(u8 \<Rightarrow> 's \<Rightarrow> 's option) option"
  g_buffer :: addr
  g_pos :: u32
  g_max_chars :: u32

type_synonym 'a gstate = "'a machine_scheme outputGadget_t \<times> 'a machine_scheme"

definition PRINTF_MAX_POSSIBLE_BUFFER_SIZE :: u32 where
  "PRINTF_MAX_POSSIBLE_BUFFER_SIZE = 0x7FFFFFFF"

definition putcharViaGadget :: "u8 \<Rightarrow> 'a gstate \<Rightarrow> 'a gstate option" where
  "putcharViaGadget c st =
     (let g = fst st; s = snd st; write_pos = g_pos g; g = g\<lparr>g_pos := write_pos + 1\<rparr> in
      if write_pos \<ge> g_max_chars g then Some (g, s)
      else case g_function g of
        Some f \<Rightarrow> map_option (Pair g) (f c s)
      | None \<Rightarrow> Some (g, s\<lparr>mem := (mem s)(g_buffer g + ucast write_pos := c)\<rparr>))"

definition appendTermWithGadget :: "'a gstate \<Rightarrow> 'a gstate" where
  "appendTermWithGadget st =
     (let g = fst st; s = snd st in
      if g_function g \<noteq> None \<or> g_max_chars g = 0 then st
      else if g_buffer g = 0 then st
      else let null_char_pos = (if g_pos g < g_max_chars g then g_pos g else g_max_chars g - 1)
           in (g, s\<lparr>mem := (mem s)(g_buffer g + ucast null_char_pos := 0)\<rparr>))"

definition putcharWrapper :: "image \<Rightarrow> u8 \<Rightarrow> 'a console_scheme \<Rightarrow> 'a console_scheme option" where
  "putcharWrapper L c s = putchar L c s"

definition discardingGadget :: "'s outputGadget_t" where
  "discardingGadget = \<lparr>g_function = None, g_buffer = 0, g_pos = 0, g_max_chars = 0\<rparr>"

definition bufferGadget :: "addr \<Rightarrow> u64 \<Rightarrow> 's outputGadget_t" where
  "bufferGadget buffer sz =
     (let usable_buffer_size = (if sz > ucast PRINTF_MAX_POSSIBLE_BUFFER_SIZE
                                then PRINTF_MAX_POSSIBLE_BUFFER_SIZE else ucast sz);
          result = discardingGadget
      in if buffer \<noteq> 0
         then result\<lparr>g_buffer := buffer, g_max_chars := usable_buffer_size\<rparr>
         else result)"

definition functionGadget :: "(u8 \<Rightarrow> 's \<Rightarrow> 's option) \<Rightarrow> 's outputGadget_t" where
  "functionGadget f =
     discardingGadget\<lparr>g_function := Some f, g_max_chars := PRINTF_MAX_POSSIBLE_BUFFER_SIZE\<rparr>"

definition externPutcharGadget :: "image \<Rightarrow> 'a console_scheme outputGadget_t" where
  "externPutcharGadget L = functionGadget (putcharWrapper L)"

section \<open>Numbers\<close>

definition FLAGS_ZEROPAD :: u32 where "FLAGS_ZEROPAD = 0x1"
definition FLAGS_LEFT :: u32 where "FLAGS_LEFT = 0x2"
definition FLAGS_PLUS :: u32 where "FLAGS_PLUS = 0x4"
definition FLAGS_SPACE :: u32 where "FLAGS_SPACE = 0x8"
definition FLAGS_HASH :: u32 where "FLAGS_HASH = 0x10"
definition FLAGS_UPPERCASE :: u32 where "FLAGS_UPPERCASE = 0x20"
definition FLAGS_CHAR :: u32 where "FLAGS_CHAR = 0x40"
definition FLAGS_SHORT :: u32 where "FLAGS_SHORT = 0x80"
definition FLAGS_LONG :: u32 where "FLAGS_LONG = 0x200"
definition FLAGS_LONG_LONG :: u32 where "FLAGS_LONG_LONG = 0x400"
definition FLAGS_PRECISION :: u32 where "FLAGS_PRECISION = 0x800"
definition FLAGS_POINTER :: u32 where "FLAGS_POINTER = 0x2000"
definition FLAGS_SIGNED :: u32 where "FLAGS_SIGNED = 0x4000"

lemmas FLAGS_defs = FLAGS_ZEROPAD_def FLAGS_LEFT_def FLAGS_PLUS_def FLAGS_SPACE_def FLAGS_HASH_def
  FLAGS_UPPERCASE_def FLAGS_CHAR_def FLAGS_SHORT_def FLAGS_LONG_def FLAGS_LONG_LONG_def
  FLAGS_PRECISION_def FLAGS_POINTER_def FLAGS_SIGNED_def

text \<open>\<open>if (flags & f)\<close>.\<close>

definition has :: "u32 \<Rightarrow> u32 \<Rightarrow> bool" where
  "has flags f \<longleftrightarrow> flags AND f \<noteq> 0"

fun put_chars :: "u8 list \<Rightarrow> 'a gstate \<Rightarrow> 'a gstate option" where
  "put_chars [] st = Some st"
| "put_chars (c # cs) st = Option.bind (putcharViaGadget c st) (put_chars cs)"

text \<open>\<open>for (i = ...; i < width; i++)\<close> and \<open>while (i++ < width)\<close>: one space each.\<close>

partial_function (option) pad_from :: "u32 \<Rightarrow> u32 \<Rightarrow> 'a gstate \<Rightarrow> 'a gstate option" where
  "pad_from i width st =
     (if i < width then Option.bind (putcharViaGadget 0x20 st) (pad_from (i + 1) width) else Some st)"

partial_function (option) pad_right :: "u32 \<Rightarrow> u32 \<Rightarrow> 'a gstate \<Rightarrow> 'a gstate option" where
  "pad_right start_pos width st =
     (if g_pos (fst st) - start_pos < width
      then Option.bind (putcharViaGadget 0x20 st) (pad_right start_pos width) else Some st)"

text \<open>A local buffer with its length is the list of the bytes below the length.\<close>

definition outRev :: "u8 list \<Rightarrow> u32 \<Rightarrow> u32 \<Rightarrow> 'a gstate \<Rightarrow> 'a gstate option" where
  "outRev buf width flags st =
     do { let start_pos = g_pos (fst st);
          st \<leftarrow> (if \<not> has flags FLAGS_LEFT \<and> \<not> has flags FLAGS_ZEROPAD
                then pad_from (of_nat (length buf)) width st else Some st);
          st \<leftarrow> put_chars (rev buf) st;
          if has flags FLAGS_LEFT then pad_right start_pos width st else Some st }"

definition BUFSZ :: nat where "BUFSZ = 32"

text \<open>\<open>if (len < PRINTF_INTEGER_BUFFER_SIZE) buf[len++] = c\<close>.\<close>

definition push_char :: "u8 \<Rightarrow> u8 list \<Rightarrow> u8 list" where
  "push_char c buf = (if length buf < BUFSZ then buf @ [c] else buf)"

function fill_zeros :: "u32 \<Rightarrow> u8 list \<Rightarrow> u8 list" where
  "fill_zeros limit buf =
     (if of_nat (length buf) < limit \<and> length buf < BUFSZ then fill_zeros limit (buf @ [0x30]) else buf)"
  by pat_completeness auto
termination by (relation "measure (\<lambda>(limit, buf). BUFSZ - length buf)") auto

declare fill_zeros.simps [simp del]

definition pad_zeros :: "bool \<Rightarrow> u32 \<Rightarrow> u32 \<Rightarrow> u32 \<Rightarrow> u8 list \<Rightarrow> u32 \<times> u8 list" where
  "pad_zeros negative precision width flags buf =
     (let (width, buf) =
            (if \<not> has flags FLAGS_LEFT
             then let width = (if width \<noteq> 0 \<and> has flags FLAGS_ZEROPAD \<and>
                                  (negative \<or> has flags (FLAGS_PLUS OR FLAGS_SPACE))
                               then width - 1 else width)
                  in (width, if has flags FLAGS_ZEROPAD then fill_zeros width buf else buf)
             else (width, buf))
      in (width, fill_zeros precision buf))"

definition take_back :: "nat \<Rightarrow> u8 \<Rightarrow> u32 \<Rightarrow> u32 \<Rightarrow> u32 \<Rightarrow> u8 list \<Rightarrow> u8 list" where
  "take_back unpadded_len base precision width flags buf =
     (if \<not> has flags FLAGS_PRECISION \<and> buf \<noteq> [] \<and>
         (of_nat (length buf) = precision \<or> of_nat (length buf) = width)
      then let buf = (if unpadded_len < length buf then butlast buf else buf) in
           if buf \<noteq> [] \<and> (base = 16 \<or> base = 2) \<and> unpadded_len < length buf then butlast buf else buf
      else buf)"

definition hash_prefix :: "nat \<Rightarrow> u8 \<Rightarrow> u32 \<Rightarrow> u32 \<Rightarrow> u32 \<Rightarrow> u8 list \<Rightarrow> u8 list" where
  "hash_prefix unpadded_len base precision width flags buf =
     (if has flags (FLAGS_HASH OR FLAGS_POINTER)
      then let buf = take_back unpadded_len base precision width flags buf;
               buf = (if base = 16 then push_char (if has flags FLAGS_UPPERCASE then 0x58 else 0x78) buf
                      else if base = 2 then push_char 0x62 buf else buf)
           in push_char 0x30 buf
      else buf)"

definition sign_char :: "bool \<Rightarrow> u32 \<Rightarrow> u8 list \<Rightarrow> u8 list" where
  "sign_char negative flags buf =
     (if negative then push_char 0x2D buf
      else if has flags FLAGS_PLUS then push_char 0x2B buf
      else if has flags FLAGS_SPACE then push_char 0x20 buf
      else buf)"

definition printIntegerFinalization ::
    "u8 list \<Rightarrow> bool \<Rightarrow> u8 \<Rightarrow> u32 \<Rightarrow> u32 \<Rightarrow> u32 \<Rightarrow> 'a gstate \<Rightarrow> 'a gstate option" where
  "printIntegerFinalization buf negative base precision width flags st =
     (let unpadded_len = length buf;
          (width, buf) = pad_zeros negative precision width flags buf;
          flags = (if base = 8 \<and> length buf > unpadded_len then flags AND NOT FLAGS_HASH else flags);
          buf = hash_prefix unpadded_len base precision width flags buf;
          buf = sign_char negative flags buf
      in outRev buf width flags st)"

text \<open>The digits, least significant first; letters are always upper case.\<close>

definition digit_char :: "u8 \<Rightarrow> u8" where
  "digit_char digit = (if sint digit < 10 then 0x30 + digit else 0x41 + digit - 10)"

function int_digits :: "u8 \<Rightarrow> u64 \<Rightarrow> u8 list \<Rightarrow> u8 list" where
  "int_digits base val buf =
     (if val \<noteq> 0 \<and> length buf < BUFSZ
      then int_digits base (val div ucast base) (buf @ [digit_char (ucast (val mod ucast base))])
      else buf)"
  by pat_completeness auto
termination by (relation "measure (\<lambda>(base, val, buf). BUFSZ - length buf)") auto

declare int_digits.simps [simp del]

definition printInt ::
    "u64 \<Rightarrow> bool \<Rightarrow> u8 \<Rightarrow> u32 \<Rightarrow> u32 \<Rightarrow> u32 \<Rightarrow> 'a gstate \<Rightarrow> 'a gstate option" where
  "printInt val negative base precision width flags st =
     (let (buf, flags) =
        (if val = 0
         then if \<not> has flags FLAGS_PRECISION then ([0x30], flags AND NOT FLAGS_HASH)
              else if base = 16 then ([], flags AND NOT FLAGS_HASH)
              else ([], flags)
         else (int_digits base val [], flags))
      in printIntegerFinalization buf negative base precision width flags st)"

section \<open>The format loop\<close>

text \<open>The arguments: 8-byte slots, holding an integer or a pointer.\<close>

datatype va_slot = VInt u64 | VPtr cptr

type_synonym va_list = "va_slot list"

fun va_long :: "va_list \<Rightarrow> (u64 \<times> va_list) option" where
  "va_long (VInt v # args) = Some (v, args)"
| "va_long (VPtr (Addr a) # args) = Some (a, args)"
| "va_long _ = None"

definition va_int :: "va_list \<Rightarrow> (u32 \<times> va_list) option" where
  "va_int args = map_option (\<lambda>(v, args). (ucast v, args)) (va_long args)"

fun va_ptr :: "va_list \<Rightarrow> (cptr \<times> va_list) option" where
  "va_ptr (VPtr p # args) = Some (p, args)"
| "va_ptr (VInt v # args) = Some (Addr v, args)"
| "va_ptr [] = None"

partial_function (option) atou :: "memory \<Rightarrow> cptr \<Rightarrow> u32 \<Rightarrow> (u32 \<times> cptr) option" where
  "atou m str i =
     (if isdigit (sint (deref m str))
      then atou m (inc str) (i * 10 + scast (deref m str - 0x30)) else Some (i, str))"

definition flag_of_char :: "u8 \<Rightarrow> u32 option" where
  "flag_of_char c =
     (if c = 0x30 then Some FLAGS_ZEROPAD else if c = 0x2D then Some FLAGS_LEFT
      else if c = 0x2B then Some FLAGS_PLUS else if c = 0x20 then Some FLAGS_SPACE
      else if c = 0x23 then Some FLAGS_HASH else None)"

partial_function (option) parseFlags :: "memory \<Rightarrow> cptr \<Rightarrow> u32 \<Rightarrow> (u32 \<times> cptr) option" where
  "parseFlags m fmt flags =
     (if flag_of_char (deref m fmt) \<noteq> None
      then parseFlags m (inc fmt) (flags OR the (flag_of_char (deref m fmt))) else Some (flags, fmt))"

text \<open>
  \<open>ADVANCE_IN_FORMAT_STRING\<close> leaves the whole function at the end of the format.  In the result of
  a parsing step the inner None is this return, the outer one that control does not come back.
\<close>

type_synonym 'r parse = "'r option option"

definition advance :: "memory \<Rightarrow> cptr \<Rightarrow> cptr option" where
  "advance m p = (if deref m (inc p) = 0 then None else Some (inc p))"

definition parse_bind :: "'r parse \<Rightarrow> ('r \<Rightarrow> 't parse) \<Rightarrow> 't parse" where
  "parse_bind r f = Option.bind r (\<lambda>x. case x of None \<Rightarrow> Some None | Some y \<Rightarrow> f y)"

definition parse_width :: "memory \<Rightarrow> cptr \<Rightarrow> u32 \<Rightarrow> va_list \<Rightarrow> (cptr \<times> u32 \<times> u32 \<times> va_list) parse" where
  "parse_width m fmt flags args =
     (if isdigit (sint (deref m fmt))
      then map_option (\<lambda>(width, fmt). Some (fmt, flags, width, args)) (atou m fmt 0)
      else if deref m fmt = 0x2A
      then Option.bind (va_int args) (\<lambda>(w, args).
        let (flags, width) = (if sint w < 0 then (flags OR FLAGS_LEFT, - w) else (flags, w))
        in Some (map_option (\<lambda>fmt. (fmt, flags, width, args)) (advance m fmt)))
      else Some (Some (fmt, flags, 0, args)))"

definition parse_precision :: "memory \<Rightarrow> cptr \<Rightarrow> u32 \<Rightarrow> va_list \<Rightarrow> (cptr \<times> u32 \<times> u32 \<times> va_list) parse" where
  "parse_precision m fmt flags args =
     (if deref m fmt = 0x2E
      then case advance m fmt of
        None \<Rightarrow> Some None
      | Some fmt \<Rightarrow>
          let flags = flags OR FLAGS_PRECISION in
          if isdigit (sint (deref m fmt))
          then map_option (\<lambda>(precision, fmt). Some (fmt, flags, precision, args)) (atou m fmt 0)
          else if deref m fmt = 0x2A
          then Option.bind (va_int args) (\<lambda>(p, args).
            let precision = (if sint p > 0 then p else 0)
            in Some (map_option (\<lambda>fmt. (fmt, flags, precision, args)) (advance m fmt)))
          else Some (Some (fmt, flags, 0, args))
      else Some (Some (fmt, flags, 0, args)))"

text \<open>The doubled letters \<open>ll\<close> and \<open>hh\<close> set both of their flags.\<close>

definition parse_length :: "memory \<Rightarrow> cptr \<Rightarrow> u32 \<Rightarrow> (cptr \<times> u32) option" where
  "parse_length m fmt flags =
     (if deref m fmt = 0x6C
      then case advance m fmt of
        None \<Rightarrow> None
      | Some fmt \<Rightarrow>
          if deref m fmt = 0x6C
          then map_option (\<lambda>fmt. (fmt, flags OR FLAGS_LONG OR FLAGS_LONG_LONG)) (advance m fmt)
          else Some (fmt, flags OR FLAGS_LONG)
      else if deref m fmt = 0x68
      then case advance m fmt of
        None \<Rightarrow> None
      | Some fmt \<Rightarrow>
          if deref m fmt = 0x68
          then map_option (\<lambda>fmt. (fmt, flags OR FLAGS_SHORT OR FLAGS_CHAR)) (advance m fmt)
          else Some (fmt, flags OR FLAGS_SHORT)
      else if deref m fmt = 0x74 \<or> deref m fmt = 0x6A \<or> deref m fmt = 0x7A
      then map_option (\<lambda>fmt. (fmt, flags OR FLAGS_LONG)) (advance m fmt)
      else Some (fmt, flags))"

text \<open>A whole specifier: what is left is at the conversion character.\<close>

definition parse_spec ::
    "memory \<Rightarrow> cptr \<Rightarrow> va_list \<Rightarrow> (cptr \<times> u32 \<times> u32 \<times> u32 \<times> va_list) parse" where
  "parse_spec m fmt args =
     Option.bind (parseFlags m fmt 0) (\<lambda>(flags, fmt).
       parse_bind (parse_width m fmt flags args) (\<lambda>(fmt, flags, width, args).
         parse_bind (parse_precision m fmt flags args) (\<lambda>(fmt, flags, precision, args).
           Some (map_option (\<lambda>(fmt, flags). (fmt, flags, width, precision, args))
             (parse_length m fmt flags)))))"

text \<open>\<open>ABS_FOR_PRINTING\<close> of a 64-bit value.\<close>

definition abs_for_printing :: "u64 \<Rightarrow> u64" where
  "abs_for_printing x = (if 0 < sint x then x else - x)"

definition conv_base :: "u8 \<Rightarrow> u8" where
  "conv_base c = (if c = 0x78 \<or> c = 0x58 then 16 else if c = 0x6F then 8 else if c = 0x62 then 2 else 10)"

definition print_signed ::
    "u8 \<Rightarrow> u32 \<Rightarrow> u32 \<Rightarrow> u32 \<Rightarrow> va_list \<Rightarrow> 'a gstate \<Rightarrow> (va_list \<times> 'a gstate) option" where
  "print_signed base flags width precision args st =
     (if has flags FLAGS_LONG_LONG \<or> has flags FLAGS_LONG
      then do { (val, args) \<leftarrow> va_long args;
                st \<leftarrow> printInt (abs_for_printing val) (sint val < 0) base precision width flags st;
                Some (args, st) }
      else do { (v, args) \<leftarrow> va_int args;
                let val = ((if has flags FLAGS_CHAR then scast (ucast v :: u8)
                            else if has flags FLAGS_SHORT then scast (ucast v :: u16) else v) :: u32);
                st \<leftarrow> printInt (abs_for_printing (scast val)) (sint val < 0) base precision width flags st;
                Some (args, st) })"

definition print_unsigned ::
    "u8 \<Rightarrow> u32 \<Rightarrow> u32 \<Rightarrow> u32 \<Rightarrow> va_list \<Rightarrow> 'a gstate \<Rightarrow> (va_list \<times> 'a gstate) option" where
  "print_unsigned base flags width precision args st =
     (let flags = flags AND NOT (FLAGS_PLUS OR FLAGS_SPACE) in
      if has flags FLAGS_LONG_LONG \<or> has flags FLAGS_LONG
      then do { (val, args) \<leftarrow> va_long args;
                st \<leftarrow> printInt val False base precision width flags st;
                Some (args, st) }
      else do { (v, args) \<leftarrow> va_int args;
                let val = ((if has flags FLAGS_CHAR then ucast (ucast v :: u8)
                            else if has flags FLAGS_SHORT then ucast (ucast v :: u16) else v) :: u32);
                st \<leftarrow> printInt (ucast val) False base precision width flags st;
                Some (args, st) })"

definition print_integer ::
    "u8 \<Rightarrow> u32 \<Rightarrow> u32 \<Rightarrow> u32 \<Rightarrow> va_list \<Rightarrow> 'a gstate \<Rightarrow> (va_list \<times> 'a gstate) option" where
  "print_integer c flags width precision args st =
     (let flags = (if c = 0x64 \<or> c = 0x69 then flags OR FLAGS_SIGNED else flags);
          base = conv_base c;
          flags = (if base = 10 then flags AND NOT FLAGS_HASH else flags);
          flags = (if c = 0x58 then flags OR FLAGS_UPPERCASE else flags);
          flags = (if has flags FLAGS_PRECISION then flags AND NOT FLAGS_ZEROPAD else flags)
      in if has flags FLAGS_SIGNED then print_signed base flags width precision args st
         else print_unsigned base flags width precision args st)"

definition print_char :: "u32 \<Rightarrow> u32 \<Rightarrow> va_list \<Rightarrow> 'a gstate \<Rightarrow> (va_list \<times> 'a gstate) option" where
  "print_char flags width args st =
     do { st \<leftarrow> (if \<not> has flags FLAGS_LEFT then pad_from 1 width st else Some st);
          (c, args) \<leftarrow> va_int args;
          st \<leftarrow> putcharViaGadget (ucast c) st;
          st \<leftarrow> (if has flags FLAGS_LEFT then pad_from 1 width st else Some st);
          Some (args, st) }"

partial_function (option) put_string :: "u32 \<Rightarrow> u32 \<Rightarrow> cptr \<Rightarrow> 'a gstate \<Rightarrow> 'a gstate option" where
  "put_string flags precision p st =
     (if deref (mem (snd st)) p \<noteq> 0 \<and> (\<not> has flags FLAGS_PRECISION \<or> precision \<noteq> 0)
      then Option.bind (putcharViaGadget (deref (mem (snd st)) p) st)
             (put_string flags (precision - 1) (inc p))
      else Some st)"

definition print_string :: "u32 \<Rightarrow> u32 \<Rightarrow> u32 \<Rightarrow> va_list \<Rightarrow> 'a gstate \<Rightarrow> (va_list \<times> 'a gstate) option" where
  "print_string flags width precision args st =
     do { (p, args) \<leftarrow> va_ptr args;
          if p = NULL
          then do { st \<leftarrow> outRev [0x29, 0x6C, 0x6C, 0x75, 0x6E, 0x28] width flags st; Some (args, st) }
          else do { let l = ucast (strnlen_s (mem (snd st)) p
                              (ucast (if precision \<noteq> 0 then precision else PRINTF_MAX_POSSIBLE_BUFFER_SIZE)));
                    let l = (if has flags FLAGS_PRECISION then if l < precision then l else precision else l);
                    st \<leftarrow> (if \<not> has flags FLAGS_LEFT then pad_from l width st else Some st);
                    st \<leftarrow> put_string flags precision p st;
                    st \<leftarrow> (if has flags FLAGS_LEFT then pad_from l width st else Some st);
                    Some (args, st) } }"

definition print_pointer :: "u32 \<Rightarrow> u32 \<Rightarrow> va_list \<Rightarrow> 'a gstate \<Rightarrow> (va_list \<times> 'a gstate) option" where
  "print_pointer flags precision args st =
     do { (val, args) \<leftarrow> va_long args;
          st \<leftarrow> printInt val False 16 precision 18 (flags OR (FLAGS_ZEROPAD OR FLAGS_POINTER)) st;
          Some (args, st) }"

definition write_back :: "u32 \<Rightarrow> va_list \<Rightarrow> 'a gstate \<Rightarrow> (va_list \<times> 'a gstate) option" where
  "write_back flags args st =
     do { (a, args) \<leftarrow> va_long args;
          let pos = g_pos (fst st);
          let s = snd st;
          let m = (if has flags FLAGS_CHAR then (mem s)(a := ucast pos)
                   else if has flags FLAGS_SHORT then store16 (mem s) a (ucast pos)
                   else if has flags FLAGS_LONG then store64 (mem s) a (ucast pos)
                   else if has flags FLAGS_LONG_LONG then store64 (mem s) a (ucast pos)
                   else store32 (mem s) a pos);
          Some (args, (fst st, s\<lparr>mem := m\<rparr>)) }"

definition convert ::
    "u8 \<Rightarrow> u32 \<Rightarrow> u32 \<Rightarrow> u32 \<Rightarrow> va_list \<Rightarrow> 'a gstate \<Rightarrow> (va_list \<times> 'a gstate) option" where
  "convert c flags width precision args st =
     (if c \<in> {0x64, 0x69, 0x75, 0x78, 0x58, 0x6F, 0x62}
      then print_integer c flags width precision args st
      else if c = 0x63 then print_char flags width args st
      else if c = 0x73 then print_string flags width precision args st
      else if c = 0x70 then print_pointer flags precision args st
      else if c = 0x6E then write_back flags args st
      else map_option (Pair args) (putcharViaGadget c st))"

partial_function (option) formatStringLoop :: "cptr \<Rightarrow> va_list \<Rightarrow> 'a gstate \<Rightarrow> 'a gstate option" where
  "formatStringLoop fmt args st =
     (if deref (mem (snd st)) fmt = 0 then Some st
      else if deref (mem (snd st)) fmt \<noteq> 0x25
      then Option.bind (putcharViaGadget (deref (mem (snd st)) fmt) st) (formatStringLoop (inc fmt) args)
      else case advance (mem (snd st)) fmt of
        None \<Rightarrow> Some st
      | Some fmt \<Rightarrow> Option.bind (parse_spec (mem (snd st)) fmt args) (\<lambda>r.
          case r of
            None \<Rightarrow> Some st
          | Some (fmt, flags, width, precision, args) \<Rightarrow>
              Option.bind (convert (deref (mem (snd st)) fmt) flags width precision args st)
                (\<lambda>(args, st). formatStringLoop (inc fmt) args st)))"

definition vsnprintf_impl ::
    "'a machine_scheme outputGadget_t \<Rightarrow> cptr \<Rightarrow> va_list \<Rightarrow> 'a machine_scheme \<Rightarrow> (int \<times> 'a machine_scheme) option" where
  "vsnprintf_impl g fmt args s =
     do { st \<leftarrow> formatStringLoop fmt args (g, s);
          let st = appendTermWithGadget st;
          Some (sint (g_pos (fst st)), snd st) }"

section \<open>The library functions\<close>

text \<open>The variadic functions are their \<open>v\<close> versions on the list of arguments.\<close>

definition vprintf :: "image \<Rightarrow> cptr \<Rightarrow> va_list \<Rightarrow> 'a console_scheme \<Rightarrow> (int \<times> 'a console_scheme) option" where
  "vprintf L fmt args s = vsnprintf_impl (externPutcharGadget L) fmt args s"

definition vsnprintf ::
    "addr \<Rightarrow> u64 \<Rightarrow> cptr \<Rightarrow> va_list \<Rightarrow> 'a machine_scheme \<Rightarrow> (int \<times> 'a machine_scheme) option" where
  "vsnprintf s n fmt args st = vsnprintf_impl (bufferGadget s n) fmt args st"

definition vsprintf :: "addr \<Rightarrow> cptr \<Rightarrow> va_list \<Rightarrow> 'a machine_scheme \<Rightarrow> (int \<times> 'a machine_scheme) option" where
  "vsprintf s fmt args st = vsnprintf s (ucast PRINTF_MAX_POSSIBLE_BUFFER_SIZE) fmt args st"

definition vfctprintf ::
    "(u8 \<Rightarrow> 'a machine_scheme \<Rightarrow> 'a machine_scheme option) \<Rightarrow> cptr \<Rightarrow> va_list \<Rightarrow> 'a machine_scheme \<Rightarrow>
       (int \<times> 'a machine_scheme) option" where
  "vfctprintf out fmt args s = vsnprintf_impl (functionGadget out) fmt args s"

definition printf :: "image \<Rightarrow> cptr \<Rightarrow> va_list \<Rightarrow> 'a console_scheme \<Rightarrow> (int \<times> 'a console_scheme) option" where
  "printf L fmt args s = vprintf L fmt args s"

definition sprintf :: "addr \<Rightarrow> cptr \<Rightarrow> va_list \<Rightarrow> 'a machine_scheme \<Rightarrow> (int \<times> 'a machine_scheme) option" where
  "sprintf s fmt args st = vsprintf s fmt args st"

definition snprintf ::
    "addr \<Rightarrow> u64 \<Rightarrow> cptr \<Rightarrow> va_list \<Rightarrow> 'a machine_scheme \<Rightarrow> (int \<times> 'a machine_scheme) option" where
  "snprintf s n fmt args st = vsnprintf s n fmt args st"

definition fctprintf ::
    "(u8 \<Rightarrow> 'a machine_scheme \<Rightarrow> 'a machine_scheme option) \<Rightarrow> cptr \<Rightarrow> va_list \<Rightarrow> 'a machine_scheme \<Rightarrow>
       (int \<times> 'a machine_scheme) option" where
  "fctprintf out fmt args s = vfctprintf out fmt args s"

section \<open>Digits\<close>

function base_digits :: "nat \<Rightarrow> nat \<Rightarrow> u8 list" where
  "base_digits b n =
     (if b < 2 \<or> n < b then [upper_digits ! n] else base_digits b (n div b) @ [upper_digits ! (n mod b)])"
  by pat_completeness auto
termination by (relation "measure snd") auto

declare base_digits.simps [simp del]

definition digits_value :: "nat \<Rightarrow> u8 list \<Rightarrow> nat" where
  "digits_value b t = foldl (\<lambda>a c. b * a + uhex_value c) 0 t"

lemma digits_value_base_digits:
  "2 \<le> b \<Longrightarrow> b \<le> 16 \<Longrightarrow> digits_value b (base_digits b n) = n"
proof (induction b n rule: base_digits.induct)
  case (1 b n)
  show ?case
  proof (cases "n < b")
    case True
    then have "base_digits b n = [upper_digits ! n]" by (simp add: base_digits.simps)
    then show ?thesis using True 1 by (simp add: digits_value_def uhex_value_digit)
  next
    case False
    then have "base_digits b n = base_digits b (n div b) @ [upper_digits ! (n mod b)]"
      using 1(2) by (subst base_digits.simps) simp
    moreover have "digits_value b (base_digits b (n div b)) = n div b" using 1 False by simp
    moreover have "n mod b < 16" using 1(2,3) by (meson le_trans mod_less_divisor less_le_trans zero_less_numeral)
    ultimately show ?thesis by (simp add: digits_value_def uhex_value_digit)
  qed
qed

lemma digit_char_upper: "n < 16 \<Longrightarrow> digit_char (of_nat n) = upper_digits ! n"
  by (drule less_16_cases) (auto simp: digit_char_def upper_digits_def)

lemma unat_ucast_8_64: "unat (ucast (b :: u8) :: u64) = unat b"
proof -
  have "unat b < 256" using unsigned_less [of b] by simp
  then have "take_bit 64 (unat b) = unat b" by (intro take_bit_nat_eq_self) simp
  then show ?thesis by (simp add: unsigned_ucast_eq)
qed

lemma int_digits_step:
  assumes "2 \<le> unat base" "unat base \<le> 16" "w \<noteq> 0" "length buf < BUFSZ"
  shows "int_digits base w buf =
    int_digits base (w div ucast base) (buf @ [upper_digits ! (unat w mod unat base)])"
proof -
  let ?r = "unat w mod unat base"
  have r: "?r < 16" using assms(1,2) by (meson le_trans mod_less_divisor less_le_trans zero_less_numeral)
  have "unat (w mod ucast base) = ?r" by (simp add: unat_mod unat_ucast_8_64)
  then have "(ucast (w mod ucast base) :: u8) = of_nat ?r"
    by (metis of_nat_unat)
  then show ?thesis
    using assms(3,4) digit_char_upper [OF r] by (subst int_digits.simps) simp
qed

lemma int_digits_rev:
  "2 \<le> unat base \<Longrightarrow> unat base \<le> 16 \<Longrightarrow> unat w < unat base ^ (BUFSZ - length buf) \<Longrightarrow> w \<noteq> 0 \<Longrightarrow>
    int_digits base w buf = buf @ rev (base_digits (unat base) (unat w))"
proof (induction "unat w" arbitrary: w buf rule: less_induct)
  case (less w)
  let ?b = "unat base" and ?n = "unat w"
  have n: "0 < ?n" using less.prems(4) by (simp add: unat_gt_0)
  have len: "length buf < BUFSZ"
    using less.prems(3) n by (cases "BUFSZ - length buf") auto
  have div: "unat (w div ucast base) = ?n div ?b" by (simp add: unat_div unat_ucast_8_64)
  note step = int_digits_step [OF less.prems(1,2,4) len]
  show ?case
  proof (cases "?n < ?b")
    case True
    then have "w div ucast base = 0" using div by (simp add: word_unat_eq_iff)
    then show ?thesis using step True by (simp add: int_digits.simps [of _ 0] base_digits.simps)
  next
    case False
    let ?buf = "buf @ [upper_digits ! (?n mod ?b)]"
    have nz: "w div ucast base \<noteq> 0"
    proof
      assume "w div ucast base = 0"
      then have "?n div ?b = 0" using div by simp
      then show False using False less.prems(1) by (auto simp: div_eq_0_iff)
    qed
    have "?b ^ (BUFSZ - length buf) = ?b * ?b ^ (BUFSZ - length ?buf)"
      using len by (simp flip: power_Suc add: Suc_diff_Suc)
    then have bound: "unat (w div ucast base) < ?b ^ (BUFSZ - length ?buf)"
      unfolding div using less.prems(3) by (simp add: less_mult_imp_div_less mult.commute)
    have "unat (w div ucast base) < ?n" unfolding div using n less.prems(1) by simp
    then have "int_digits base (w div ucast base) ?buf = ?buf @ rev (base_digits ?b (?n div ?b))"
      using less.hyps [OF _ less.prems(1,2) bound nz] div by simp
    then show ?thesis
      using step False less.prems(1) by (simp add: base_digits.simps [of ?b ?n])
  qed
qed

lemma base_digits_length:
  "2 \<le> b \<Longrightarrow> n < b ^ k \<Longrightarrow> 0 < k \<Longrightarrow> length (base_digits b n) \<le> k"
proof (induction k arbitrary: n)
  case (Suc k)
  show ?case
  proof (cases "n < b")
    case True then show ?thesis by (simp add: base_digits.simps)
  next
    case False
    then have "0 < k" using Suc.prems by (cases k) auto
    moreover have "n div b < b ^ k" using Suc.prems(2) by (simp add: less_mult_imp_div_less mult.commute)
    ultimately have "length (base_digits b (n div b)) \<le> k" using Suc by simp
    then show ?thesis using False Suc.prems(1) by (simp add: base_digits.simps [of b n])
  qed
qed simp

text \<open>Without flags, width and precision an integer prints its sign and its digits.\<close>

definition plain_flags :: "u32 \<Rightarrow> bool" where
  "plain_flags flags \<longleftrightarrow> \<not> has flags FLAGS_LEFT \<and> \<not> has flags FLAGS_ZEROPAD \<and> \<not> has flags FLAGS_PRECISION \<and>
     \<not> has flags FLAGS_PLUS \<and> \<not> has flags FLAGS_SPACE \<and>
     \<not> has flags (FLAGS_HASH OR FLAGS_POINTER)"

lemma pad_from_none: "\<not> i < width \<Longrightarrow> pad_from i width st = Some st"
  by (subst pad_from.simps) simp

lemma outRev_plain: "plain_flags flags \<Longrightarrow> outRev buf 0 flags st = put_chars (rev buf) st"
  by (cases "put_chars (rev buf) st")
    (simp_all add: outRev_def plain_flags_def pad_from_none)

lemma fill_zeros_none: "fill_zeros 0 buf = buf"
  by (subst fill_zeros.simps) simp

lemma has_clear: "has (flags AND NOT f) g \<Longrightarrow> has flags g"
proof -
  have "(flags AND NOT f) AND g = NOT f AND (flags AND g)" by (simp add: ac_simps)
  then show "has (flags AND NOT f) g \<Longrightarrow> has flags g" unfolding has_def by force
qed

lemma printIntegerFinalization_plain:
  assumes "plain_flags flags" and "length buf < BUFSZ"
  shows "printIntegerFinalization buf neg base 0 0 flags st =
    put_chars ((if neg then [0x2D] else []) @ rev buf) st"
proof -
  have "pad_zeros neg 0 0 flags buf = (0, buf)"
    using assms(1) by (simp add: pad_zeros_def plain_flags_def fill_zeros_none)
  moreover have "hash_prefix n base 0 0 flags b = b" for n b
    using assms(1) by (simp add: hash_prefix_def plain_flags_def)
  moreover have "sign_char neg flags buf = buf @ (if neg then [0x2D] else [])"
    using assms by (simp add: sign_char_def push_char_def plain_flags_def)
  ultimately show ?thesis
    by (simp add: printIntegerFinalization_def Let_def outRev_plain [OF assms(1)])
qed

definition int_out :: "nat \<Rightarrow> bool \<Rightarrow> nat \<Rightarrow> u8 list" where
  "int_out b neg n = (if neg then [0x2D] else []) @ base_digits b n"

lemma printInt_plain:
  assumes "plain_flags flags" and "unat base = 10 \<or> unat base = 16"
  shows "printInt v neg base 0 0 flags st = put_chars (int_out (unat base) neg (unat v)) st"
proof (cases "v = 0")
  case True
  have plain: "plain_flags (flags AND NOT FLAGS_HASH)"
    using assms(1) has_clear by (auto simp: plain_flags_def)
  have "base_digits (unat base) 0 = [0x30]" using assms(2) by (auto simp: base_digits.simps upper_digits_def)
  then show ?thesis
    using True assms(1) printIntegerFinalization_plain [OF plain, of "[0x30]" neg base st]
    by (simp add: printInt_def int_out_def plain_flags_def BUFSZ_def)
next
  case False
  have "unat v < 2 ^ 64" using unsigned_less [of v] by simp
  then have small: "unat v < unat base ^ 31" "unat v < unat base ^ BUFSZ"
    using assms(2) by (auto simp: BUFSZ_def)
  have base: "2 \<le> unat base" "unat base \<le> 16" using assms(2) by auto
  have digits: "int_digits base v [] = rev (base_digits (unat base) (unat v))"
    using int_digits_rev [OF base, of v "[]"] small(2) False by simp
  have "length (base_digits (unat base) (unat v)) \<le> 31"
    using base(1) small(1) by (intro base_digits_length) simp_all
  then have "length (int_digits base v []) < BUFSZ" by (simp add: digits BUFSZ_def)
  from printIntegerFinalization_plain [OF assms(1) this, of neg base st]
  show ?thesis using False by (simp add: printInt_def int_out_def digits)
qed

lemma base_digits_nonzero: "2 \<le> b \<Longrightarrow> b \<le> 16 \<Longrightarrow> 0 \<notin> set (base_digits b n)"
proof (induction b n rule: base_digits.induct)
  case (1 b n)
  have "upper_digits ! k \<in> set upper_digits" if "k < 16" for k
    using that by (intro nth_mem) (simp add: upper_digits_def)
  moreover have "0 \<notin> set upper_digits" by (simp add: upper_digits_def)
  ultimately have "upper_digits ! (n mod b) \<noteq> 0"
    using 1(2,3) mod_less_divisor [of b n] by (metis less_le_trans not_gr_zero not_numeral_le_zero)
  then show ?case using 1 by (subst base_digits.simps) auto
qed

section \<open>Where the characters go\<close>

text \<open>
  What the format loop relies on in a gadget: \<open>ok st cs\<close> says that the characters \<open>cs\<close> can be put one
  after the other; doing so keeps the memory \<open>K\<close>, where the format and the strings are.
\<close>

definition same_on :: "addr set \<Rightarrow> 'a gstate \<Rightarrow> 'a gstate \<Rightarrow> bool" where
  "same_on K st st' \<longleftrightarrow> (\<forall>b\<in>K. mem (snd st') b = mem (snd st) b)"

lemma same_on_refl [simp]: "same_on K st st"
  by (simp add: same_on_def)

lemma same_on_trans: "same_on K st st' \<Longrightarrow> same_on K st' st'' \<Longrightarrow> same_on K st st''"
  by (simp add: same_on_def)

lemma same_on_cstr:
  assumes "same_on K st st'" and "ptr_span p (Suc (length s)) \<subseteq> K"
  shows "cstr (mem (snd st')) p s = cstr (mem (snd st)) p s"
  using assms by (intro cstr_ptr_cong) (auto simp: same_on_def)

locale char_sink =
  fixes ok :: "'a gstate \<Rightarrow> u8 list \<Rightarrow> bool"
    and K :: "addr set"
  assumes put_ok: "ok st (c # cs) \<Longrightarrow>
    \<exists>st'. putcharViaGadget c st = Some st' \<and> ok st' cs \<and> same_on K st st'"
begin

lemma put_chars_ok:
  "ok st (xs @ ys) \<Longrightarrow> \<exists>st'. put_chars xs st = Some st' \<and> ok st' ys \<and> same_on K st st'"
proof (induction xs arbitrary: st)
  case (Cons x xs)
  then obtain st1 where st1: "putcharViaGadget x st = Some st1" "ok st1 (xs @ ys)" "same_on K st st1"
    using put_ok [of st x "xs @ ys"] by auto
  then show ?case using Cons.IH [OF st1(2)] same_on_trans by fastforce
qed simp

lemma put_string_chars:
  assumes "\<not> has flags FLAGS_PRECISION"
  shows "ok st (u @ ys) \<Longrightarrow> cstr (mem (snd st)) p u \<Longrightarrow> ptr_span p (Suc (length u)) \<subseteq> K \<Longrightarrow>
    put_string flags prec p st = put_chars u st"
proof (induction u arbitrary: st p prec)
  case Nil then show ?case by (subst put_string.simps) simp
next
  case (Cons c u)
  obtain st1 where st1: "putcharViaGadget c st = Some st1" "ok st1 (u @ ys)" "same_on K st st1"
    using put_ok [of st c "u @ ys"] Cons.prems(1) by auto
  have tail: "ptr_span (inc p) (Suc (length u)) \<subseteq> K"
    using Cons.prems(3) ptr_span_inc [of p "Suc (length u)"] by auto
  have c: "c \<noteq> 0" "deref (mem (snd st)) p = c" "cstr (mem (snd st)) (inc p) u"
    using Cons.prems(2) by (simp_all add: cstr_Cons)
  then have "cstr (mem (snd st1)) (inc p) u" using same_on_cstr [OF st1(3) tail] by simp
  from Cons.IH [OF st1(2) this tail] show ?case
    using c assms st1(1) by (subst put_string.simps) simp
qed

lemma pad_from_chars:
  "ok st (replicate n 0x20 @ ys) \<Longrightarrow> unat width - unat i = n \<Longrightarrow>
     pad_from i width st = put_chars (replicate n 0x20) st"
proof (induction n arbitrary: st i)
  case 0
  then have "\<not> i < width" by (simp add: word_less_nat_alt)
  then show ?case by (simp add: pad_from_none)
next
  case (Suc n)
  then have lt: "i < width" by (simp add: word_less_nat_alt)
  obtain st1 where st1: "putcharViaGadget 0x20 st = Some st1" "ok st1 (replicate n 0x20 @ ys)"
    using put_ok [of st "0x20" "replicate n 0x20 @ ys"] Suc.prems(1) by auto
  have "unat width - unat (i + 1) = n" using Suc.prems(2) unat_Suc_less [OF lt] by simp
  from Suc.IH [OF st1(2) this] show ?case using lt st1(1) by (subst pad_from.simps) simp
qed

end

section \<open>What a format prints\<close>

text \<open>
  The formats the kernel uses, as lists of pieces: ordinary characters, \<open>%%\<close>, \<open>%s\<close>, \<open>%-\<close>n\<open>s\<close> with one
  digit n, \<open>%d\<close>, \<open>%i\<close>, \<open>%u\<close>, \<open>%x\<close>, \<open>%lu\<close>, \<open>%lx\<close> and \<open>%p\<close>; each with the value it prints.
\<close>

datatype piece = PChar u8 | PPercent | PStr "u8 list" | PStrLeft nat "u8 list"
  | PStrStar nat "u8 list"
  | PDec u32 | PInt u32 | PUns u32 | PHex u32 | PUnsLong u64 | PHexLong u64 | PPtr addr

fun piece_fmt :: "piece \<Rightarrow> u8 list" where
  "piece_fmt (PChar c) = [c]"
| "piece_fmt PPercent = [0x25, 0x25]"
| "piece_fmt (PStr u) = [0x25, 0x73]"
| "piece_fmt (PStrLeft n u) = [0x25, 0x2D, 0x30 + of_nat n, 0x73]"
| "piece_fmt (PStrStar n u) = [0x25, 0x2D, 0x2A, 0x73]"
| "piece_fmt (PDec w) = [0x25, 0x64]"
| "piece_fmt (PInt w) = [0x25, 0x69]"
| "piece_fmt (PUns w) = [0x25, 0x75]"
| "piece_fmt (PHex w) = [0x25, 0x78]"
| "piece_fmt (PUnsLong v) = [0x25, 0x6C, 0x75]"
| "piece_fmt (PHexLong v) = [0x25, 0x6C, 0x78]"
| "piece_fmt (PPtr a) = [0x25, 0x70]"

definition signed_out :: "u32 \<Rightarrow> u8 list" where
  "signed_out w = int_out 10 (sint w < 0) (nat \<bar>sint w\<bar>)"

text \<open>An address: 16 digits after \<open>0x\<close>.\<close>

definition pointer_out :: "addr \<Rightarrow> u8 list" where
  "pointer_out a = [0x30, 0x78] @ replicate (16 - length (base_digits 16 (unat a))) 0x30 @ base_digits 16 (unat a)"

fun piece_out :: "piece \<Rightarrow> u8 list" where
  "piece_out (PChar c) = [c]"
| "piece_out PPercent = [0x25]"
| "piece_out (PStr u) = u"
| "piece_out (PStrLeft n u) = u @ replicate (n - length u) 0x20"
| "piece_out (PStrStar n u) = u @ replicate (n - length u) 0x20"
| "piece_out (PDec w) = signed_out w"
| "piece_out (PInt w) = signed_out w"
| "piece_out (PUns w) = int_out 10 False (unat w)"
| "piece_out (PHex w) = int_out 16 False (unat w)"
| "piece_out (PUnsLong v) = int_out 10 False (unat v)"
| "piece_out (PHexLong v) = int_out 16 False (unat v)"
| "piece_out (PPtr a) = pointer_out a"

definition fmt_of :: "piece list \<Rightarrow> u8 list" where
  "fmt_of ps = concat (map piece_fmt ps)"

definition out_of :: "piece list \<Rightarrow> u8 list" where
  "out_of ps = concat (map piece_out ps)"

definition str_arg :: "memory \<Rightarrow> addr set \<Rightarrow> cptr \<Rightarrow> u8 list \<Rightarrow> bool" where
  "str_arg m K p u \<longleftrightarrow> p \<noteq> NULL \<and> cstr m p u \<and> ptr_span p (Suc (length u)) \<subseteq> K \<and> length u < 2 ^ 31"

text \<open>The arguments are those of the pieces, in order; strings lie in \<open>K\<close>.\<close>

fun args_match :: "memory \<Rightarrow> addr set \<Rightarrow> piece list \<Rightarrow> va_list \<Rightarrow> bool" where
  "args_match m K [] args \<longleftrightarrow> True"
| "args_match m K (PChar c # ps) args \<longleftrightarrow> c \<noteq> 0 \<and> c \<noteq> 0x25 \<and> args_match m K ps args"
| "args_match m K (PPercent # ps) args \<longleftrightarrow> args_match m K ps args"
| "args_match m K (PStr u # ps) (VPtr p # args) \<longleftrightarrow> str_arg m K p u \<and> args_match m K ps args"
| "args_match m K (PStrLeft n u # ps) (VPtr p # args) \<longleftrightarrow>
     1 \<le> n \<and> n \<le> 9 \<and> str_arg m K p u \<and> args_match m K ps args"
| "args_match m K (PStrStar n u # ps) (VInt v # VPtr p # args) \<longleftrightarrow>
     n < 2 ^ 31 \<and> ucast v = (of_nat n :: u32) \<and> str_arg m K p u \<and> args_match m K ps args"
| "args_match m K (PDec w # ps) (VInt v # args) \<longleftrightarrow> ucast v = w \<and> args_match m K ps args"
| "args_match m K (PInt w # ps) (VInt v # args) \<longleftrightarrow> ucast v = w \<and> args_match m K ps args"
| "args_match m K (PUns w # ps) (VInt v # args) \<longleftrightarrow> ucast v = w \<and> args_match m K ps args"
| "args_match m K (PHex w # ps) (VInt v # args) \<longleftrightarrow> ucast v = w \<and> args_match m K ps args"
| "args_match m K (PUnsLong w # ps) (VInt v # args) \<longleftrightarrow> v = w \<and> args_match m K ps args"
| "args_match m K (PHexLong w # ps) (VInt v # args) \<longleftrightarrow> v = w \<and> args_match m K ps args"
| "args_match m K (PPtr a # ps) (VPtr p # args) \<longleftrightarrow> p = Addr a \<and> args_match m K ps args"
| "args_match m K (_ # _) _ \<longleftrightarrow> False"

lemma str_arg_cong: "same_on K st st' \<Longrightarrow> str_arg (mem (snd st')) K p u = str_arg (mem (snd st)) K p u"
  using same_on_cstr [of K st st' p u] by (auto simp: str_arg_def)

lemma args_match_cong:
  assumes "same_on K st st'"
  shows "args_match (mem (snd st')) K ps args = args_match (mem (snd st)) K ps args"
  using assms by (induction "mem (snd st)" K ps args rule: args_match.induct)
    (simp_all add: str_arg_cong)

text \<open>Parsing the specifiers of the pieces.\<close>

lemma isdigit_sint: "isdigit (sint (c :: u8)) \<longleftrightarrow> 48 \<le> sint c \<and> sint c \<le> 57"
  by (simp add: isdigit_def)

lemma parseFlags_none: "flag_of_char (deref m p) = None \<Longrightarrow> parseFlags m p flags = Some (flags, p)"
  by (subst parseFlags.simps) simp

lemma parse_spec_conv:
  assumes "c \<in> {0x25, 0x64, 0x69, 0x70, 0x73, 0x75, 0x78}" and "deref m q = c"
  shows "parse_spec m q args = Some (Some (q, 0, 0, 0, args))"
proof -
  have "flag_of_char c = None" "\<not> isdigit (sint c)" "c \<notin> {0x2A, 0x2E, 0x6C, 0x68, 0x74, 0x6A, 0x7A}"
    using assms(1) by (auto simp: flag_of_char_def isdigit_def)
  then show ?thesis
    using assms(2) parseFlags_none [of m q 0]
    by (simp add: parse_spec_def parse_width_def parse_precision_def parse_length_def parse_bind_def)
qed

lemma parse_spec_long:
  assumes "deref m q = 0x6C" and "c \<in> {0x75, 0x78}" and "deref m (inc q) = c"
  shows "parse_spec m q args = Some (Some (inc q, FLAGS_LONG, 0, 0, args))"
proof -
  have "flag_of_char 0x6C = None" "\<not> isdigit (sint (0x6C :: u8))"
    by (simp_all add: flag_of_char_def isdigit_def)
  moreover have "c \<noteq> 0" "c \<noteq> 0x6C" using assms(2) by auto
  ultimately show ?thesis
    using assms(1,3) parseFlags_none [of m q 0]
    by (simp add: parse_spec_def parse_width_def parse_precision_def parse_length_def parse_bind_def
        advance_def)
qed

lemma small_digit:
  assumes "1 \<le> n" and "n \<le> 9"
  shows "(0x30 + of_nat n :: u8) \<in> {0x31, 0x32, 0x33, 0x34, 0x35, 0x36, 0x37, 0x38, 0x39}"
    and "scast ((0x30 + of_nat n :: u8) - 0x30) = (of_nat n :: u32)"
proof -
  have "n \<in> {1, 2, 3, 4, 5, 6, 7, 8, 9}" using assms by auto
  then show "(0x30 + of_nat n :: u8) \<in> {0x31, 0x32, 0x33, 0x34, 0x35, 0x36, 0x37, 0x38, 0x39}"
    and "scast ((0x30 + of_nat n :: u8) - 0x30) = (of_nat n :: u32)" by auto
qed

lemma parse_spec_left:
  assumes "deref m q = 0x2D" and "deref m (inc q) = 0x30 + of_nat n" and "1 \<le> n" "n \<le> 9"
    and "deref m (inc (inc q)) = 0x73"
  shows "parse_spec m q args = Some (Some (inc (inc q), FLAGS_LEFT, of_nat n, 0, args))"
proof -
  let ?d = "0x30 + of_nat n :: u8"
  have d: "flag_of_char ?d = None" "isdigit (sint ?d)"
    using small_digit(1) [OF assms(3,4)] by (auto simp: flag_of_char_def isdigit_def)
  have flags: "parseFlags m q 0 = Some (FLAGS_LEFT, inc q)"
    using assms(1,2) d(1) parseFlags_none [of m "inc q"]
    by (subst parseFlags.simps) (simp add: flag_of_char_def)
  have "atou m (inc q) 0 = atou m (inc (inc q)) (of_nat n)"
    using assms(2) d(2) small_digit(2) [OF assms(3,4)] by (subst atou.simps) simp
  also have "\<dots> = Some (of_nat n, inc (inc q))"
    using assms(5) by (subst atou.simps) (simp add: isdigit_def)
  finally show ?thesis
    using assms(2,5) d(2) flags
    by (simp add: parse_spec_def parse_width_def parse_precision_def parse_length_def parse_bind_def)
qed

text \<open>The width comes from the arguments.\<close>

lemma parse_spec_star:
  assumes "deref m q = 0x2D" and "deref m (inc q) = 0x2A" and "deref m (inc (inc q)) = 0x73"
    and "n < 2 ^ 31" and "ucast v = (of_nat n :: u32)"
  shows "parse_spec m q (VInt v # args) = Some (Some (inc (inc q), FLAGS_LEFT, of_nat n, 0, args))"
proof -
  have "flag_of_char 0x2A = None" "\<not> isdigit (sint (0x2A :: u8))" by (simp_all add: flag_of_char_def isdigit_def)
  moreover have "parseFlags m q 0 = Some (FLAGS_LEFT, inc q)"
    using assms(1,2) \<open>flag_of_char 0x2A = None\<close> parseFlags_none [of m "inc q"]
    by (subst parseFlags.simps) (simp add: flag_of_char_def)
  ultimately show ?thesis
    using assms(2-5) sint_of_nat32 [OF assms(4)]
    by (simp add: parse_spec_def parse_width_def parse_precision_def parse_length_def parse_bind_def
        va_int_def advance_def)
qed

text \<open>One specifier of the format.\<close>

lemma formatStringLoop_spec:
  assumes "deref (mem (snd st)) fmt = 0x25" and "deref (mem (snd st)) (inc fmt) \<noteq> 0"
    and "parse_spec (mem (snd st)) (inc fmt) args = Some (Some (q, flags, w, pr, args1))"
    and "convert (deref (mem (snd st)) q) flags w pr args1 st = map_option (Pair args2) (put_chars out st)"
  shows "formatStringLoop fmt args st = Option.bind (put_chars out st) (formatStringLoop (inc q) args2)"
  using assms
  by (subst formatStringLoop.simps) (cases "put_chars out st", simp_all add: advance_def)

lemma plain_flags_values:
  "plain_flags 0" "plain_flags FLAGS_LONG" "plain_flags FLAGS_SIGNED"
  by (simp_all add: plain_flags_def has_def FLAGS_defs)

lemma abs_scast:
  "unat (abs_for_printing (scast (w :: u32))) = nat \<bar>sint w\<bar>"
proof -
  have lt: "- (2 ^ 31) \<le> sint w" "sint w < 2 ^ 31"
    using sint_greater_eq [of w] sint_less [of w] by simp_all
  then have s: "sint (scast w :: u64) = sint w"
    by (simp add: signed_scast_eq signed_take_bit_int_eq_self)
  have nat: "unat (of_nat k :: u64) = k" if "int k \<le> 2 ^ 31" for k
    by (rule unat_of_nat_lt) (use that in simp)
  show ?thesis
  proof (cases "0 < sint w")
    case True
    then have "(of_nat (nat (sint w)) :: u64) = of_int (sint w)" by (intro of_nat_nat) simp
    then have "(scast w :: u64) = of_nat (nat (sint w))" unfolding scast_eq by (rule sym)
    then have "unat (scast w :: u64) = nat (sint w)" 
      using nat [of "nat (sint w)"] lt True by (simp only:)
    then show ?thesis using True s by (simp only: abs_for_printing_def if_True abs_of_pos)
  next
    case False
    then have "(of_nat (nat (- sint w)) :: u64) = of_int (- sint w)" by (intro of_nat_nat) simp
    then have "- (scast w :: u64) = of_nat (nat (- sint w))" unfolding scast_eq of_int_minus by (rule sym)
    then have "unat (- (scast w :: u64)) = nat (- sint w)" 
      using nat [of "nat (- sint w)"] lt False by (simp only:)
    then show ?thesis using False s
      by (simp only: abs_for_printing_def if_False)
  qed
qed

lemma put_chars_args:
  "do { st \<leftarrow> put_chars xs st; Some (args, st) } = map_option (Pair args) (put_chars xs st)"
  by (cases "put_chars xs st") simp_all

lemma convert_signed:
  assumes "c = 0x64 \<or> c = 0x69"
  shows "convert c 0 0 0 (VInt v # args) st =
    map_option (Pair args) (put_chars (signed_out (ucast v)) st)"
proof -
  have "print_integer c 0 0 0 (VInt v # args) st = print_signed 10 FLAGS_SIGNED 0 0 (VInt v # args) st"
    using assms by (auto simp: print_integer_def conv_base_def has_def FLAGS_defs)
  also have "\<dots> = map_option (Pair args) (put_chars (signed_out (ucast v)) st)"
    by (simp add: print_signed_def va_int_def printInt_plain plain_flags_values abs_scast
        signed_out_def put_chars_args Let_def) (simp add: has_def FLAGS_defs put_chars_args)
  finally show ?thesis using assms by (auto simp: convert_def)
qed

lemma convert_unsigned:
  assumes "c = 0x75 \<or> c = 0x78"
  shows "convert c 0 0 0 (VInt v # args) st =
    map_option (Pair args) (put_chars (int_out (if c = 0x75 then 10 else 16) False (unat (ucast v :: u32))) st)"
proof -
  have "print_integer c 0 0 0 (VInt v # args) st = print_unsigned (conv_base c) 0 0 0 (VInt v # args) st"
    using assms by (auto simp: print_integer_def conv_base_def has_def FLAGS_defs)
  also have "\<dots> = map_option (Pair args)
      (put_chars (int_out (if c = 0x75 then 10 else 16) False (unat (ucast v :: u32))) st)"
    using assms
    by (auto simp: print_unsigned_def va_int_def printInt_plain plain_flags_values put_chars_args Let_def
        conv_base_def has_def FLAGS_defs unat_ucast_32_64)
  finally show ?thesis using assms by (auto simp: convert_def)
qed

lemma convert_unsigned_long:
  assumes "c = 0x75 \<or> c = 0x78"
  shows "convert c FLAGS_LONG 0 0 (VInt v # args) st =
    map_option (Pair args) (put_chars (int_out (if c = 0x75 then 10 else 16) False (unat v)) st)"
proof -
  have "print_integer c FLAGS_LONG 0 0 (VInt v # args) st =
      print_unsigned (conv_base c) FLAGS_LONG 0 0 (VInt v # args) st"
    using assms by (auto simp: print_integer_def conv_base_def has_def FLAGS_defs)
  also have "\<dots> = map_option (Pair args) (put_chars (int_out (if c = 0x75 then 10 else 16) False (unat v)) st)"
  proof -
    have flags: "FLAGS_LONG AND NOT (FLAGS_PLUS OR FLAGS_SPACE) = FLAGS_LONG" "has FLAGS_LONG FLAGS_LONG"
      by (simp_all add: has_def FLAGS_defs)
    show ?thesis unfolding print_unsigned_def Let_def flags(1) using assms
      by (auto simp: flags(2) printInt_plain plain_flags_values put_chars_args conv_base_def)
  qed
  finally show ?thesis using assms by (auto simp: convert_def)
qed

text \<open>An address is filled up with zeros to 18 places, two of which its prefix takes back.\<close>

lemma fill_zeros_to:
  assumes "unat limit = n" and "n \<le> BUFSZ"
  shows "fill_zeros limit buf = buf @ replicate (n - length buf) 0x30"
proof (induction "n - length buf" arbitrary: buf)
  case 0
  then have "\<not> (of_nat (length buf) < limit \<and> length buf < BUFSZ)"
    using assms by (auto simp: word_less_nat_alt unsigned_of_nat BUFSZ_def take_bit_nat_eq_self)
  then show ?case using 0 by (subst fill_zeros.simps) auto
next
  case (Suc k)
  then have lt: "length buf < n" by simp
  then have "of_nat (length buf) < limit" "length buf < BUFSZ"
    using assms by (simp_all add: word_less_nat_alt unsigned_of_nat BUFSZ_def take_bit_nat_eq_self)
  moreover have "n - length buf = Suc (n - length (buf @ [0x30]))" using lt by simp
  ultimately show ?case using Suc(1) [of "buf @ [0x30]"] Suc(2) by (subst fill_zeros.simps) simp
qed

lemma pointer_flags:
  defines "F \<equiv> FLAGS_ZEROPAD OR FLAGS_POINTER"
  shows "\<not> has F FLAGS_LEFT" "has F FLAGS_ZEROPAD" "\<not> has F FLAGS_PRECISION" "\<not> has F FLAGS_PLUS" "\<not> has F FLAGS_SPACE"
    "\<not> has F (FLAGS_PLUS OR FLAGS_SPACE)" "has F (FLAGS_HASH OR FLAGS_POINTER)" "\<not> has F FLAGS_UPPERCASE"
    "F AND NOT FLAGS_HASH = F"
  by (simp_all add: F_def has_def FLAGS_defs)

lemma printIntegerFinalization_pointer:
  assumes "length buf \<le> 16"
  shows "printIntegerFinalization buf False 16 0 18 (FLAGS_ZEROPAD OR FLAGS_POINTER) st =
    put_chars ([0x30, 0x78] @ replicate (16 - length buf) 0x30 @ rev buf) st"
proof -
  let ?F = "FLAGS_ZEROPAD OR FLAGS_POINTER" and ?full = "buf @ replicate (18 - length buf) 0x30"
    and ?cut = "buf @ replicate (16 - length buf) 0x30"
  have "fill_zeros 18 buf = ?full" using fill_zeros_to [of 18 18 buf] by (simp add: BUFSZ_def)
  then have pad: "pad_zeros False 0 18 ?F buf = (18, ?full)"
    by (simp add: pad_zeros_def pointer_flags fill_zeros_none)
  have "18 - length buf = Suc (Suc (16 - length buf))" using assms by simp
  then have full: "?full = ?cut @ [0x30, 0x30]" by (simp add: replicate_app_Cons_same)
  have len: "length ?cut = 16" using assms by simp
  have "take_back (length buf) 16 0 18 ?F ?full = ?cut"
    unfolding full using assms len by (simp add: take_back_def pointer_flags butlast_append)
  then have prefix: "hash_prefix (length buf) 16 0 18 ?F ?full = ?cut @ [0x78, 0x30]"
    using len by (simp add: hash_prefix_def pointer_flags push_char_def BUFSZ_def)
  have "outRev (?cut @ [0x78, 0x30]) 18 ?F st = put_chars (rev (?cut @ [0x78, 0x30])) st"
    by (cases "put_chars (rev (?cut @ [0x78, 0x30])) st") (simp_all add: outRev_def pointer_flags)
  then show ?thesis
    unfolding printIntegerFinalization_def Let_def pad by (simp add: prefix sign_char_def pointer_flags)
qed

lemma convert_pointer:
  "convert 0x70 0 0 0 (VPtr (Addr a) # args) st = map_option (Pair args) (put_chars (pointer_out a) st)"
proof -
  let ?F = "FLAGS_ZEROPAD OR FLAGS_POINTER" and ?ds = "base_digits 16 (unat a)"
  have lt: "unat a < 16 ^ 16" using unsigned_less [of a] by simp
  then have len: "length ?ds \<le> 16" by (intro base_digits_length) simp_all
  have "printInt a False 16 0 18 ?F st = printIntegerFinalization (rev ?ds) False 16 0 18 ?F st"
  proof (cases "a = 0")
    case True
    then show ?thesis by (simp add: printInt_def pointer_flags base_digits.simps upper_digits_def)
  next
    case False
    have "unat (16 :: u8) = 16" by simp
    moreover have "unat a < 16 ^ BUFSZ" using lt by (simp add: BUFSZ_def)
    ultimately have "int_digits 16 a [] = rev ?ds" using int_digits_rev [of 16 a "[]"] False by simp
    then show ?thesis using False by (simp add: printInt_def)
  qed
  also have "\<dots> = put_chars (pointer_out a) st"
    using printIntegerFinalization_pointer [of "rev ?ds" st] len by (simp add: pointer_out_def)
  finally show ?thesis by (simp add: convert_def print_pointer_def put_chars_args)
qed

lemma convert_percent: "convert 0x25 0 0 0 args st = map_option (Pair args) (put_chars [0x25] st)"
  by (cases "putcharViaGadget 0x25 st") (simp_all add: convert_def)

context char_sink
begin

lemma convert_string:
  assumes "ok st (u @ ys)" and "str_arg (mem (snd st)) K p u"
  shows "convert 0x73 0 0 0 (VPtr p # args) st = map_option (Pair args) (put_chars u st)"
proof -
  have "\<not> has 0 FLAGS_PRECISION" "\<not> has 0 FLAGS_LEFT" by (simp_all add: has_def)
  then have "print_string 0 0 0 (VPtr p # args) st = map_option (Pair args) (put_chars u st)"
    using assms put_string_chars [of 0 st u ys p 0]
    by (simp add: print_string_def str_arg_def pad_from_none put_chars_args)
  then show ?thesis by (simp add: convert_def)
qed

lemma convert_string_left:
  assumes ok: "ok st ((u @ replicate (n - length u) 0x20) @ ys)" and p: "str_arg (mem (snd st)) K p u"
    and n: "n < 2 ^ 31"
  shows "convert 0x73 FLAGS_LEFT (of_nat n) 0 (VPtr p # args) st =
    map_option (Pair args) (put_chars (u @ replicate (n - length u) 0x20) st)"
proof -
  have flags: "\<not> has FLAGS_LEFT FLAGS_PRECISION" "has FLAGS_LEFT FLAGS_LEFT"
    by (simp_all add: has_def FLAGS_defs)
  have u: "p \<noteq> NULL" "cstr (mem (snd st)) p u" "ptr_span p (Suc (length u)) \<subseteq> K" "length u < 2 ^ 31"
    using p by (simp_all add: str_arg_def)
  let ?l = "ucast (strnlen_s (mem (snd st)) p (ucast PRINTF_MAX_POSSIBLE_BUFFER_SIZE)) :: u32"
  have "unat (ucast PRINTF_MAX_POSSIBLE_BUFFER_SIZE :: u64) = 2 ^ 31 - 1"
    unfolding unat_ucast_32_64 by (simp add: PRINTF_MAX_POSSIBLE_BUFFER_SIZE_def)
  then have "strnlen_s (mem (snd st)) p (ucast PRINTF_MAX_POSSIBLE_BUFFER_SIZE) = of_nat (length u)"
    using strnlen_s_cstr [OF u(2)] u(4) by simp
  then have l: "unat ?l = length u"
    using u(4) by (simp add: unsigned_ucast_eq unsigned_of_nat take_bit_nat_eq_self)
  obtain st1 where st1: "put_chars u st = Some st1" "ok st1 (replicate (n - length u) 0x20 @ ys)"
    using put_chars_ok [of st u "replicate (n - length u) 0x20 @ ys"] ok by auto
  have "unat (of_nat n :: u32) - unat ?l = n - length u"
    using n l by (simp add: unat_of_nat_lt)
  from pad_from_chars [OF st1(2) this]
  have pad: "pad_from ?l (of_nat n) st1 = put_chars (replicate (n - length u) 0x20) st1" .
  have "put_string FLAGS_LEFT 0 p st = Some st1"
    using put_string_chars [OF flags(1) _ u(2,3)] ok st1(1) by simp
  then have "print_string FLAGS_LEFT (of_nat n) 0 (VPtr p # args) st =
      map_option (Pair args) (put_chars (replicate (n - length u) 0x20) st1)"
    using u(1) flags pad by (simp add: print_string_def put_chars_args)
  moreover have "put_chars (xs @ zs) st = Option.bind (put_chars xs st) (put_chars zs)" for xs zs and st :: "'a gstate"
    by (induction xs arbitrary: st) (simp_all, metis bind_assoc)
  ultimately show ?thesis using st1(1) by (simp add: convert_def)
qed

end

text \<open>The conversion of one piece, whatever its specifier looks like.\<close>

definition spec_at ::
    "memory \<Rightarrow> cptr \<Rightarrow> va_list \<Rightarrow> cptr \<Rightarrow> va_list \<Rightarrow> u8 list \<Rightarrow> 'a gstate \<Rightarrow> bool" where
  "spec_at m fmt args q args' out st \<longleftrightarrow> deref m fmt = 0x25 \<and> deref m (inc fmt) \<noteq> 0 \<and>
     (\<exists>flags w pr args1. parse_spec m (inc fmt) args = Some (Some (q, flags, w, pr, args1)) \<and>
        convert (deref m q) flags w pr args1 st = map_option (Pair args') (put_chars out st))"

lemma formatStringLoop_spec_at:
  "spec_at (mem (snd st)) fmt args q args' out st \<Longrightarrow>
     formatStringLoop fmt args st = Option.bind (put_chars out st) (formatStringLoop (inc q) args')"
  unfolding spec_at_def using formatStringLoop_spec by blast

lemma put_chars_append:
  "put_chars (xs @ ys) st = Option.bind (put_chars xs st) (put_chars ys)"
  by (induction xs arbitrary: st) (simp_all, metis bind_assoc)

definition at_rest :: "memory \<Rightarrow> addr set \<Rightarrow> cptr \<Rightarrow> u8 list \<Rightarrow> bool" where
  "at_rest m K p f \<longleftrightarrow> cstr m p f \<and> ptr_span p (Suc (length f)) \<subseteq> K"

lemma at_rest_Cons:
  "at_rest m K p (c # f) \<Longrightarrow> c \<noteq> 0 \<and> deref m p = c \<and> at_rest m K (inc p) f"
  using ptr_span_inc [of p "Suc (length f)"] by (auto simp: at_rest_def cstr_Cons)

lemma at_rest_cong: "same_on K st st' \<Longrightarrow> at_rest (mem (snd st')) K p f = at_rest (mem (snd st)) K p f"
  using same_on_cstr [of K st st' p f] by (auto simp: at_rest_def)

lemma small_digit_nonzero: "1 \<le> n \<Longrightarrow> n \<le> 9 \<Longrightarrow> (0x30 + of_nat n :: u8) \<noteq> 0"
  using small_digit(1) [of n] by auto

context char_sink
begin

lemma piece_spec:
  assumes ok: "ok st (piece_out pc @ ys)" and args: "args_match (mem (snd st)) K (pc # ps) args"
    and fmt: "at_rest (mem (snd st)) K fmt (piece_fmt pc @ f)" and pc: "\<And>c. pc \<noteq> PChar c"
  shows "\<exists>q args'. spec_at (mem (snd st)) fmt args q args' (piece_out pc) st \<and>
    args_match (mem (snd st)) K ps args' \<and> at_rest (mem (snd st)) K (inc q) f"
proof -
  let ?m = "mem (snd st)"
  have conv: "\<exists>q args'. spec_at ?m fmt args q args' (piece_out pc) st \<and>
      args_match ?m K ps args' \<and> at_rest ?m K (inc q) f"
    if "piece_fmt pc = [0x25, c]" "c \<in> {0x25, 0x64, 0x69, 0x70, 0x73, 0x75, 0x78}"
      "convert c 0 0 0 args st = map_option (Pair args') (put_chars (piece_out pc) st)"
      "args_match ?m K ps args'" for c args'
  proof -
    have r: "deref ?m fmt = 0x25" "c \<noteq> 0" "deref ?m (inc fmt) = c" "at_rest ?m K (inc (inc fmt)) f"
      using fmt that(1) by (auto dest!: at_rest_Cons)
    then show ?thesis using parse_spec_conv [OF that(2) r(3)] that(3,4)
      by (intro exI [of _ "inc fmt"] exI [of _ args']) (simp add: spec_at_def)
  qed
  have long: "\<exists>q args'. spec_at ?m fmt args q args' (piece_out pc) st \<and>
      args_match ?m K ps args' \<and> at_rest ?m K (inc q) f"
    if "piece_fmt pc = [0x25, 0x6C, c]" "c \<in> {0x75, 0x78}"
      "convert c FLAGS_LONG 0 0 args st = map_option (Pair args') (put_chars (piece_out pc) st)"
      "args_match ?m K ps args'" for c args'
  proof -
    have r: "deref ?m fmt = 0x25" "deref ?m (inc fmt) = 0x6C" "deref ?m (inc (inc fmt)) = c"
        "at_rest ?m K (inc (inc (inc fmt))) f"
      using fmt that(1) by (auto dest!: at_rest_Cons)
    then show ?thesis using parse_spec_long [OF r(2) that(2) r(3)] that(3,4)
      by (intro exI [of _ "inc (inc fmt)"] exI [of _ args']) (simp add: spec_at_def)
  qed
  show ?thesis
  proof (cases pc)
    case (PChar c) then show ?thesis using pc by simp
  next
    case PPercent
    then show ?thesis using args convert_percent [of args st] by (intro conv [of "0x25" args]) simp_all
  next
    case (PStr u)
    then obtain p args' where a: "args = VPtr p # args'" "str_arg ?m K p u" "args_match ?m K ps args'"
      using args by (cases args rule: list.exhaust) (auto elim: args_match.elims)
    then show ?thesis using PStr ok convert_string [of st u ys p args'] by (intro conv [of "0x73" args']) simp_all
  next
    case (PStrLeft n u)
    then obtain p args' where a: "args = VPtr p # args'" "1 \<le> n" "n \<le> 9" "str_arg ?m K p u"
        "args_match ?m K ps args'"
      using args by (cases args rule: list.exhaust) (auto elim: args_match.elims)
    have r: "deref ?m fmt = 0x25" "deref ?m (inc fmt) = 0x2D" "deref ?m (inc (inc fmt)) = 0x30 + of_nat n"
        "deref ?m (inc (inc (inc fmt))) = 0x73" "at_rest ?m K (inc (inc (inc (inc fmt)))) f"
      using fmt PStrLeft by (auto dest!: at_rest_Cons)
    have "convert 0x73 FLAGS_LEFT (of_nat n) 0 args st = map_option (Pair args') (put_chars (piece_out pc) st)"
      using convert_string_left [of st u n ys p args'] ok a PStrLeft by simp
    then show ?thesis using parse_spec_left [OF r(2,3) a(2,3) r(4)] r a(5)
      by (intro exI [of _ "inc (inc (inc fmt))"] exI [of _ args']) (simp add: spec_at_def)
  next
    case (PStrStar n u)
    then obtain v p args' where a: "args = VInt v # VPtr p # args'" "n < 2 ^ 31" "ucast v = (of_nat n :: u32)"
        "str_arg ?m K p u" "args_match ?m K ps args'"
      using args by (cases "(?m, K, pc # ps, args)" rule: args_match.cases) auto
    have r: "deref ?m fmt = 0x25" "deref ?m (inc fmt) = 0x2D" "deref ?m (inc (inc fmt)) = 0x2A"
        "deref ?m (inc (inc (inc fmt))) = 0x73" "at_rest ?m K (inc (inc (inc (inc fmt)))) f"
      using fmt PStrStar by (auto dest!: at_rest_Cons)
    have "convert 0x73 FLAGS_LEFT (of_nat n) 0 (VPtr p # args') st =
        map_option (Pair args') (put_chars (piece_out pc) st)"
      using convert_string_left [of st u n ys p args'] ok a PStrStar by simp
    then show ?thesis using parse_spec_star [OF r(2,3,4) a(2,3), of "VPtr p # args'"] r a(1,5)
      by (intro exI [of _ "inc (inc (inc fmt))"] exI [of _ args']) (simp add: spec_at_def)
  next
    case (PDec w)
    then obtain v args' where a: "args = VInt v # args'" "ucast v = w" "args_match ?m K ps args'"
      using args by (cases args rule: list.exhaust) (auto elim: args_match.elims)
    then show ?thesis using PDec convert_signed [of "0x64" v args' st] by (intro conv [of "0x64" args']) simp_all
  next
    case (PInt w)
    then obtain v args' where a: "args = VInt v # args'" "ucast v = w" "args_match ?m K ps args'"
      using args by (cases args rule: list.exhaust) (auto elim: args_match.elims)
    then show ?thesis using PInt convert_signed [of "0x69" v args' st] by (intro conv [of "0x69" args']) simp_all
  next
    case (PUns w)
    then obtain v args' where a: "args = VInt v # args'" "ucast v = w" "args_match ?m K ps args'"
      using args by (cases args rule: list.exhaust) (auto elim: args_match.elims)
    then show ?thesis using PUns convert_unsigned [of "0x75" v args' st] by (intro conv [of "0x75" args']) simp_all
  next
    case (PHex w)
    then obtain v args' where a: "args = VInt v # args'" "ucast v = w" "args_match ?m K ps args'"
      using args by (cases args rule: list.exhaust) (auto elim: args_match.elims)
    then show ?thesis using PHex convert_unsigned [of "0x78" v args' st] by (intro conv [of "0x78" args']) simp_all
  next
    case (PUnsLong w)
    then obtain args' where a: "args = VInt w # args'" "args_match ?m K ps args'"
      using args by (cases args rule: list.exhaust) (auto elim: args_match.elims)
    then show ?thesis using PUnsLong convert_unsigned_long [of "0x75" w args' st] by (intro long [of "0x75" args']) simp_all
  next
    case (PHexLong w)
    then obtain args' where a: "args = VInt w # args'" "args_match ?m K ps args'"
      using args by (cases args rule: list.exhaust) (auto elim: args_match.elims)
    then show ?thesis using PHexLong convert_unsigned_long [of "0x78" w args' st] by (intro long [of "0x78" args']) simp_all
  next
    case (PPtr a)
    then obtain args' where a: "args = VPtr (Addr a) # args'" "args_match ?m K ps args'"
      using args by (cases args rule: list.exhaust) (auto elim: args_match.elims)
    then show ?thesis using PPtr convert_pointer [of a args' st] by (intro conv [of "0x70" args']) simp_all
  qed
qed

end

context char_sink
begin

text \<open>The format loop puts exactly the characters of the pieces.\<close>

lemma format_pieces:
  "ok st (out_of ps @ ys) \<Longrightarrow> args_match (mem (snd st)) K ps args \<Longrightarrow>
     at_rest (mem (snd st)) K fmt (fmt_of ps) \<Longrightarrow>
     formatStringLoop fmt args st = put_chars (out_of ps) st"
proof (induction ps arbitrary: st args fmt)
  case Nil
  then have "deref (mem (snd st)) fmt = 0" by (simp add: at_rest_def fmt_of_def)
  then show ?case by (subst formatStringLoop.simps) (simp add: out_of_def)
next
  case (Cons pc ps)
  let ?m = "mem (snd st)"
  have out: "out_of (pc # ps) = piece_out pc @ out_of ps" by (simp add: out_of_def)
  have fmt: "at_rest ?m K fmt (piece_fmt pc @ fmt_of ps)" using Cons.prems(3) by (simp add: fmt_of_def)
  have ok: "ok st (piece_out pc @ (out_of ps @ ys))" using Cons.prems(1) by (simp add: out)
  obtain st1 where st1: "put_chars (piece_out pc) st = Some st1" "ok st1 (out_of ps @ ys)" "same_on K st st1"
    using put_chars_ok [OF ok] by blast
  have rest: "formatStringLoop q args' st1 = put_chars (out_of ps) st1"
    if "args_match ?m K ps args'" "at_rest ?m K q (fmt_of ps)" for q args'
    using that st1 by (intro Cons.IH) (simp_all add: args_match_cong at_rest_cong)
  show ?case
  proof (cases "\<exists>c. pc = PChar c")
    case True
    then obtain c where c: "pc = PChar c" by blast
    then have m: "args_match ?m K ps args" "c \<noteq> 0x25" using Cons.prems(2) by simp_all
    have r: "c \<noteq> 0" "deref ?m fmt = c" "at_rest ?m K (inc fmt) (fmt_of ps)"
      using fmt c by (auto dest!: at_rest_Cons)
    have "putcharViaGadget c st = Some st1" using st1(1) c by (cases "putcharViaGadget c st") simp_all
    then have "formatStringLoop fmt args st = formatStringLoop (inc fmt) args st1"
      using r m(2) by (subst formatStringLoop.simps) simp
    then show ?thesis using rest [OF m(1) r(3)] st1(1) by (simp add: out put_chars_append)
  next
    case False
    then obtain q args' where q: "spec_at ?m fmt args q args' (piece_out pc) st"
        "args_match ?m K ps args'" "at_rest ?m K (inc q) (fmt_of ps)"
      using piece_spec [OF ok Cons.prems(2) fmt] by blast
    have "formatStringLoop fmt args st = formatStringLoop (inc q) args' st1"
      using formatStringLoop_spec_at [OF q(1)] st1(1) by simp
    then show ?thesis using rest [OF q(2,3)] st1(1) by (simp add: out put_chars_append)
  qed
qed

end

section \<open>The two gadgets\<close>

text \<open>What putting characters does to the gadget.\<close>

lemma putchar_gadget:
  "putcharViaGadget c st = Some st' \<Longrightarrow>
     g_function (fst st') = g_function (fst st) \<and> g_buffer (fst st') = g_buffer (fst st) \<and>
     g_max_chars (fst st') = g_max_chars (fst st) \<and> g_pos (fst st') = g_pos (fst st) + 1"
  by (auto simp: putcharViaGadget_def Let_def split: if_splits option.splits)

lemma put_chars_gadget:
  "put_chars cs st = Some st' \<Longrightarrow>
     g_function (fst st') = g_function (fst st) \<and> g_buffer (fst st') = g_buffer (fst st) \<and>
     g_max_chars (fst st') = g_max_chars (fst st) \<and> g_pos (fst st') = g_pos (fst st) + of_nat (length cs)"
proof (induction cs arbitrary: st)
  case (Cons c cs)
  then obtain st1 where st1: "putcharViaGadget c st = Some st1" "put_chars cs st1 = Some st'"
    by (cases "putcharViaGadget c st") auto
  then show ?case using Cons.IH [OF st1(2)] putchar_gadget [OF st1(1)] by simp
qed simp

text \<open>A buffer takes any characters as long as those that are stored do not reach \<open>K\<close>.\<close>

definition buffer_ok :: "addr set \<Rightarrow> 'a gstate \<Rightarrow> u8 list \<Rightarrow> bool" where
  "buffer_ok K st cs \<longleftrightarrow> g_function (fst st) = None \<and> unat (g_pos (fst st)) + length cs < 2 ^ 32 \<and>
     (\<forall>i<length cs. unat (g_pos (fst st)) + i < unat (g_max_chars (fst st)) \<longrightarrow>
        g_buffer (fst st) + of_nat (unat (g_pos (fst st)) + i) \<notin> K)"

lemma buffer_ok_put:
  assumes ok: "buffer_ok K (st :: 'a gstate) (c # cs)"
  shows "\<exists>st'. putcharViaGadget c st = Some st' \<and> buffer_ok K st' cs \<and> same_on K st st'"
proof -
  let ?g = "fst st" and ?s = "snd st"
  let ?g' = "?g\<lparr>g_pos := g_pos ?g + 1\<rparr>" and ?a = "g_buffer ?g + ucast (g_pos ?g)"
  have p1: "unat (g_pos ?g + 1) = Suc (unat (g_pos ?g))"
    using ok by (simp add: buffer_ok_def unat_word_ariths)
  have rest: "buffer_ok K (?g', s') cs" for s' :: "'a machine_scheme"
  proof -
    have "g_buffer ?g + of_nat (Suc (unat (g_pos ?g)) + i) \<notin> K"
      if "i < length cs" "Suc (unat (g_pos ?g)) + i < unat (g_max_chars ?g)" for i
      using ok that unfolding buffer_ok_def by (auto dest!: spec [of _ "Suc i"] simp: ac_simps)
    then show ?thesis using ok p1 by (simp add: buffer_ok_def)
  qed
  show ?thesis
  proof (cases "g_pos ?g \<ge> g_max_chars ?g")
    case True
    then have "putcharViaGadget c st = Some (?g', ?s)" by (simp add: putcharViaGadget_def Let_def)
    then show ?thesis using rest [of ?s] by (simp add: same_on_def)
  next
    case False
    then have "unat (g_pos ?g) + 0 < unat (g_max_chars ?g)" by (simp add: not_le word_less_nat_alt)
    then have "?a \<notin> K" using ok unfolding buffer_ok_def by (auto dest!: spec [of _ 0])
    then have "b \<noteq> ?a" if "b \<in> K" for b using that by blast
    moreover have "putcharViaGadget c st = Some (?g', ?s\<lparr>mem := (mem ?s)(?a := c)\<rparr>)"
      using ok False by (simp add: putcharViaGadget_def buffer_ok_def Let_def)
    ultimately show ?thesis using rest [of "?s\<lparr>mem := (mem ?s)(?a := c)\<rparr>"]
      by (simp add: same_on_def fun_upd_apply)
  qed
qed

interpretation buffer_sink: char_sink "buffer_ok K" K for K :: "addr set"
  by unfold_locales (rule buffer_ok_put)

text \<open>What a buffer holds after putting characters from its start.\<close>

lemma put_chars_buffer:
  assumes "g_function g = None" and "unat (g_pos g) + length cs < 2 ^ 32"
  shows "put_chars cs (g, s) = Some (g\<lparr>g_pos := g_pos g + of_nat (length cs)\<rparr>,
    s\<lparr>mem := store_bytes (mem s) (g_buffer g + ucast (g_pos g))
       (take (unat (g_max_chars g) - unat (g_pos g)) cs)\<rparr>)"
  using assms
proof (induction cs arbitrary: g s)
  case Nil then show ?case by simp
next
  case (Cons c cs)
  let ?p = "g_pos g"
  let ?g = "g\<lparr>g_pos := ?p + 1\<rparr>"
  have p1: "unat (?p + 1) = Suc (unat ?p)" using Cons.prems(2) by (simp add: unat_word_ariths)
  then have up1: "(ucast (?p + 1) :: u64) = ucast ?p + 1"
    by (simp add: word_unat_eq_iff unat_ucast_32_64 unat_word_ariths)
  have IH: "put_chars cs (?g, s') = Some (?g\<lparr>g_pos := ?p + 1 + of_nat (length cs)\<rparr>,
      s'\<lparr>mem := store_bytes (mem s') (g_buffer g + ucast (?p + 1))
        (take (unat (g_max_chars g) - unat (?p + 1)) cs)\<rparr>)" for s'
    using Cons.IH [of ?g s'] Cons.prems p1 by simp
  show ?case
  proof (cases "?p \<ge> g_max_chars g")
    case True
    then have "unat (g_max_chars g) - unat ?p = 0" by (simp add: word_le_nat_alt)
    then show ?thesis using True IH [of s] p1
      by (simp add: putcharViaGadget_def Let_def add.assoc)
  next
    case False
    then have "unat (g_max_chars g) - unat ?p = Suc (unat (g_max_chars g) - unat (?p + 1))"
      using p1 by (simp add: word_le_nat_alt)
    then show ?thesis using False IH [of "s\<lparr>mem := (mem s)(g_buffer g + ucast ?p := c)\<rparr>"] Cons.prems(1) up1
      by (simp add: putcharViaGadget_def Let_def ac_simps)
  qed
qed

lemma store_bytes_term:
  assumes "0 < n" and "length out < 2 ^ 64"
  shows "(store_bytes m a (take n out))(a + of_nat (min (length out) (n - 1)) := 0) =
    store_bytes m a (take (n - 1) out @ [0])"
proof (cases "length out < n")
  case True
  then have "min (length out) (n - 1) = length out" "take (n - 1) out = out" by auto
  then show ?thesis using True by (simp add: store_bytes_append)
next
  case False
  then obtain k where k: "n = Suc k" "k < length out" using assms(1) by (cases n) auto
  then have "take n out = take k out @ [out ! k]" by (simp add: take_Suc_conv_app_nth)
  then show ?thesis using k by (simp add: store_bytes_append)
qed

text \<open>\<open>vsnprintf\<close>: the output, cut to the buffer and terminated; the result is its full length.\<close>

lemma vsnprintf_pieces:
  assumes "args_match (mem s) K ps args" and "at_rest (mem s) K fmt (fmt_of ps)"
    and "buf \<noteq> 0" and "n \<noteq> 0" and "unat n < 2 ^ 31" and "length (out_of ps) < 2 ^ 31"
    and "span buf (min (unat n) (length (out_of ps))) \<inter> K = {}"
  shows "vsnprintf buf n fmt args s = Some (int (length (out_of ps)),
    s\<lparr>mem := store_bytes (mem s) buf (take (unat n - 1) (out_of ps) @ [0])\<rparr>)"
proof -
  let ?out = "out_of ps" and ?g = "bufferGadget buf n :: 'a machine_scheme outputGadget_t"
  have "unat (ucast n :: u32) = unat n"
    using assms(5) by (simp add: unsigned_ucast_eq take_bit_nat_eq_self)
  moreover have "\<not> n > ucast PRINTF_MAX_POSSIBLE_BUFFER_SIZE"
    using assms(5) unfolding word_less_nat_alt unat_ucast_32_64
    by (simp add: PRINTF_MAX_POSSIBLE_BUFFER_SIZE_def)
  ultimately have g: "g_function ?g = None" "g_buffer ?g = buf" "g_pos ?g = 0" "unat (g_max_chars ?g) = unat n"
    using assms(3) by (simp_all add: bufferGadget_def discardingGadget_def Let_def)
  have "buf + of_nat i \<notin> K" if "i < length ?out" "i < unat n" for i
    using assms(7) that span_nth [of i "min (unat n) (length ?out)" buf]
    unfolding disjoint_iff by (metis min_less_iff_conj)
  then have "buffer_ok K (?g, s) (?out @ [])" using g assms(6) by (simp add: buffer_ok_def)
  then have "formatStringLoop fmt args (?g, s) = put_chars ?out (?g, s)"
    using assms(1,2) buffer_sink.format_pieces [of K "(?g, s)" ps "[]" args fmt] by simp
  also have "\<dots> = Some (?g\<lparr>g_pos := of_nat (length ?out)\<rparr>,
      s\<lparr>mem := store_bytes (mem s) buf (take (unat n) ?out)\<rparr>)"
    using put_chars_buffer [of ?g ?out s] g assms(6) by simp
  finally have loop: "formatStringLoop fmt args (?g, s) = \<dots>" .
  have len: "unat (of_nat (length ?out) :: u32) = length ?out"
    using assms(6) by (simp add: unat_of_nat_lt)
  have n0: "0 < unat n" using assms(4) by (simp add: unat_gt_0)
  have max0: "g_max_chars ?g \<noteq> 0" using g(4) n0 by auto
  let ?k = "if (of_nat (length ?out) :: u32) < g_max_chars ?g then of_nat (length ?out) else g_max_chars ?g - 1"
  have "unat ?k = min (length ?out) (unat n - 1)"
    using len g(4) max0 by (auto simp: word_less_nat_alt unat_pred)
  then have "(ucast ?k :: u64) = of_nat (min (length ?out) (unat n - 1))"
    by (metis of_nat_unat)
  then have "appendTermWithGadget (?g\<lparr>g_pos := of_nat (length ?out)\<rparr>,
      s\<lparr>mem := store_bytes (mem s) buf (take (unat n) ?out)\<rparr>) =
      (?g\<lparr>g_pos := of_nat (length ?out)\<rparr>,
      s\<lparr>mem := (store_bytes (mem s) buf (take (unat n) ?out))(buf + of_nat (min (length ?out) (unat n - 1)) := 0)\<rparr>)"
    using g max0 assms(3) by (simp add: appendTermWithGadget_def Let_def split del: if_split cong del: if_weak_cong)
  also have "(store_bytes (mem s) buf (take (unat n) ?out))(buf + of_nat (min (length ?out) (unat n - 1)) := 0) =
      store_bytes (mem s) buf (take (unat n - 1) ?out @ [0])"
    using assms(6) n0 by (intro store_bytes_term) simp_all
  finally show ?thesis
    using loop assms(6) by (simp add: vsnprintf_def vsnprintf_impl_def sint_of_nat32)
qed

text \<open>The console.\<close>

lemma console_put:
  assumes "g_function g = Some (putcharWrapper L)" and "g_pos g < g_max_chars g"
    and "console_layout L s" "term_rel L s t" "term_ok s t" "c \<noteq> 0"
  shows "\<exists>s'. putcharViaGadget c (g, s) = Some (g\<lparr>g_pos := g_pos g + 1\<rparr>, s') \<and>
    term_rel L s' (term_put (unat (TTY_Width s)) c t) \<and> same_screen s s' \<and> console_frame L s s'"
  using putchar_terminal [OF assms(3-6)] assms(1,2)
  by (auto simp: putcharViaGadget_def putcharWrapper_def put_refines_def Let_def)

definition console_ok ::
    "image \<Rightarrow> addr set \<Rightarrow> 'a console_scheme outputGadget_t \<times> 'a console_scheme \<Rightarrow> u8 list \<Rightarrow> bool" where
  "console_ok L K st cs \<longleftrightarrow>
     g_function (fst st) = Some (putcharWrapper L) \<and>
     unat (g_pos (fst st)) + length cs \<le> unat (g_max_chars (fst st)) \<and>
     console_layout L (snd st) \<and> (\<exists>t. term_rel L (snd st) t \<and> term_fits (snd st) cs t) \<and>
     0 \<notin> set cs \<and> K \<inter> console_area L (fbCon (snd st)) = {}"

lemma console_ok_put:
  assumes "console_ok L K st (c # cs)"
  shows "\<exists>st'. putcharViaGadget c st = Some st' \<and> console_ok L K st' cs \<and> same_on K st st'"
proof -
  let ?g = "fst st" and ?s = "snd st"
  obtain t where t: "term_rel L ?s t" "term_ok ?s t" "term_fits ?s cs (term_put (unat (TTY_Width ?s)) c t)"
    using assms by (auto simp: console_ok_def)
  have pos: "unat (g_pos ?g) < unat (g_max_chars ?g)" and c: "c \<noteq> 0" "0 \<notin> set cs"
    and f: "g_function ?g = Some (putcharWrapper L)" "console_layout L ?s" "K \<inter> console_area L (fbCon ?s) = {}"
    and room: "Suc (unat (g_pos ?g)) + length cs \<le> unat (g_max_chars ?g)"
    using assms by (auto simp: console_ok_def)
  have lt: "g_pos ?g < g_max_chars ?g" using pos by (simp add: word_less_nat_alt)
  obtain s' where s': "putcharViaGadget c (?g, ?s) = Some (?g\<lparr>g_pos := g_pos ?g + 1\<rparr>, s')"
      "term_rel L s' (term_put (unat (TTY_Width ?s)) c t)" "same_screen ?s s'" "console_frame L ?s s'"
    using console_put [OF f(1) lt f(2) t(1,2) c(1)] by blast
  have "console_ok L K (?g\<lparr>g_pos := g_pos ?g + 1\<rparr>, s') cs"
    unfolding console_ok_def
  proof (intro conjI exI)
    show "term_rel L (snd (?g\<lparr>g_pos := g_pos ?g + 1\<rparr>, s')) (term_put (unat (TTY_Width ?s)) c t)"
      using s'(2) by simp
  qed (use f s'(3) t(3) c(2) room unat_Suc_less [OF lt] console_layout_cong [OF s'(3)]
      term_fits_cong [OF s'(3)] in \<open>simp_all add: same_screen_def\<close>)
  moreover have "same_on K st (?g\<lparr>g_pos := g_pos ?g + 1\<rparr>, s')"
    using s'(4) f(3) by (auto simp: same_on_def console_frame_def)
  ultimately show ?thesis using s'(1) by auto
qed

text \<open>Plain text as a format.\<close>

definition plain :: "u8 list \<Rightarrow> bool" where
  "plain cs \<longleftrightarrow> 0 \<notin> set cs \<and> 0x25 \<notin> set cs"

lemma args_match_plain [simp]:
  "plain cs \<Longrightarrow> args_match m K (map PChar cs @ ps) args = args_match m K ps args"
  by (induction cs) (auto simp: plain_def)

lemma args_match_plain_only [simp]: "plain cs \<Longrightarrow> args_match m K (map PChar cs) args"
  using args_match_plain [of cs m K "[]" args] by simp

lemma fmt_of_simps [simp]:
  "fmt_of [] = []" "fmt_of (pc # ps) = piece_fmt pc @ fmt_of ps" "fmt_of (ps @ qs) = fmt_of ps @ fmt_of qs"
  "fmt_of (map PChar cs) = cs"
  by (simp_all add: fmt_of_def) (induction cs, simp_all)

lemma out_of_simps [simp]:
  "out_of [] = []" "out_of (pc # ps) = piece_out pc @ out_of ps" "out_of (ps @ qs) = out_of ps @ out_of qs"
  "out_of (map PChar cs) = cs"
  by (simp_all add: out_of_def) (induction cs, simp_all)

interpretation console_sink: char_sink "console_ok L K" K for L :: image and K :: "addr set"
  by unfold_locales (rule console_ok_put)

lemma put_chars_console:
  assumes "g_function g = Some (putcharWrapper L)" and "unat (g_pos g) + length cs \<le> unat (g_max_chars g)"
    and "console_layout L s" "term_rel L s t" "term_fits s cs t" "0 \<notin> set cs"
  shows "\<exists>s'. put_chars cs (g, s) = Some (g\<lparr>g_pos := g_pos g + of_nat (length cs)\<rparr>, s') \<and>
    term_rel L s' (term_puts (unat (TTY_Width s)) cs t) \<and> same_screen s s' \<and> console_frame L s s'"
  using assms
proof (induction cs arbitrary: g s t)
  case Nil then show ?case by (simp add: term_puts_def)
next
  case (Cons c cs)
  let ?w = "unat (TTY_Width s)" and ?g = "g\<lparr>g_pos := g_pos g + 1\<rparr>"
  have lt: "g_pos g < g_max_chars g" using Cons.prems(2) by (simp add: word_less_nat_alt)
  obtain s1 where s1: "putcharViaGadget c (g, s) = Some (?g, s1)"
      "term_rel L s1 (term_put ?w c t)" "same_screen s s1" "console_frame L s s1"
    using console_put [OF Cons.prems(1) lt Cons.prems(3,4)] Cons.prems(5,6) by auto
  have w: "unat (TTY_Width s1) = ?w" using s1(3) by (simp add: same_screen_def)
  obtain s' where s': "put_chars cs (?g, s1) = Some (?g\<lparr>g_pos := g_pos ?g + of_nat (length cs)\<rparr>, s')"
      "term_rel L s' (term_puts ?w cs (term_put ?w c t))" "same_screen s1 s'" "console_frame L s1 s'"
    using Cons.IH [of ?g s1 "term_put ?w c t"] Cons.prems s1 unat_Suc_less [OF lt] w
    by (auto simp: console_layout_cong term_fits_cong)
  then show ?case
    using s1 same_screen_trans console_frame_trans by (auto simp: term_puts_def add.assoc)
qed

lemma printf_pieces:
  assumes "args_match (mem s) K ps args" and "at_rest (mem s) K fmt (fmt_of ps)"
    and "console_layout L s" "term_rel L s t" "term_fits s (out_of ps) t" "0 \<notin> set (out_of ps)"
    and "length (out_of ps) < 2 ^ 31" and "K \<inter> console_area L (fbCon s) = {}"
  shows "\<exists>s'. printf L fmt args s = Some (int (length (out_of ps)), s') \<and>
    term_rel L s' (term_puts (unat (TTY_Width s)) (out_of ps) t) \<and> same_screen s s' \<and> console_frame L s s'"
proof -
  let ?out = "out_of ps" and ?g = "externPutcharGadget L :: 'a console_scheme outputGadget_t"
  have g: "g_function ?g = Some (putcharWrapper L)" "g_pos ?g = 0" "unat (g_max_chars ?g) = 2 ^ 31 - 1"
    by (simp_all add: externPutcharGadget_def functionGadget_def discardingGadget_def
        PRINTF_MAX_POSSIBLE_BUFFER_SIZE_def)
  have "console_ok L K (?g, s) (?out @ [])" using g assms by (auto simp: console_ok_def)
  then have loop: "formatStringLoop fmt args (?g, s) = put_chars ?out (?g, s)"
    using assms(1,2) console_sink.format_pieces [of L K "(?g, s)" ps "[]" args fmt] by simp
  obtain s' where s': "put_chars ?out (?g, s) = Some (?g\<lparr>g_pos := of_nat (length ?out)\<rparr>, s')"
      "term_rel L s' (term_puts (unat (TTY_Width s)) ?out t)" "same_screen s s'" "console_frame L s s'"
    using put_chars_console [of ?g L ?out s t] g assms by auto
  have "appendTermWithGadget (?g\<lparr>g_pos := of_nat (length ?out)\<rparr>, s') = (?g\<lparr>g_pos := of_nat (length ?out)\<rparr>, s')"
    using g(1) by (simp add: appendTermWithGadget_def Let_def)
  then show ?thesis
    using loop s' assms(7)
    by (simp add: printf_def vprintf_def vsnprintf_impl_def sint_of_nat32)
qed

end
