(* ===== verification/PrintfProps.thy ===== *)
theory PrintfProps
  imports Printf
begin

text \<open>
  The properties of the formatted output.  First the safety of every format: output to a buffer
  changes nothing outside the buffer, except where the arguments of \<open>%n\<close> point.  Then the
  library functions on the formats of the theory Printf, and the decimal round trip with \<open>atoi\<close>.
\<close>

section \<open>Output stays in the buffer\<close>

text \<open>The bytes an argument may be written to by \<open>%n\<close>.\<close>

fun slot_target :: "va_slot \<Rightarrow> addr set" where
  "slot_target (VInt v) = span v 8"
| "slot_target (VPtr (Addr a)) = span a 8"
| "slot_target (VPtr (Lit s)) = {}"

definition targets :: "va_list \<Rightarrow> addr set" where
  "targets args = (\<Union>v\<in>set args. slot_target v)"

definition gadget_area :: "'s outputGadget_t \<Rightarrow> addr set" where
  "gadget_area g = span (g_buffer g) (unat (g_max_chars g))"

text \<open>The step from one state to another touches at most the buffer and \<open>B\<close>.\<close>

definition keeps :: "addr set \<Rightarrow> 'a gstate \<Rightarrow> 'a gstate \<Rightarrow> bool" where
  "keeps B st st' \<longleftrightarrow>
     (g_function (fst st) = None \<longrightarrow>
        g_function (fst st') = None \<and> g_buffer (fst st') = g_buffer (fst st) \<and>
        g_max_chars (fst st') = g_max_chars (fst st) \<and>
        (\<forall>b. b \<notin> gadget_area (fst st) \<union> B \<longrightarrow> mem (snd st') b = mem (snd st) b) \<and>
        trace (snd st') = trace (snd st))"

lemma keeps_refl [simp]: "keeps B st st"
  by (simp add: keeps_def)

lemma keeps_trans: "keeps B st st' \<Longrightarrow> keeps B st' st'' \<Longrightarrow> keeps B st st''"
  by (auto simp: keeps_def gadget_area_def)

lemma keeps_mono: "keeps B st st' \<Longrightarrow> B \<subseteq> C \<Longrightarrow> keeps C st st'"
  by (auto simp: keeps_def)

lemma putchar_keeps: "putcharViaGadget c st = Some st' \<Longrightarrow> keeps {} st st'"
proof -
  assume put: "putcharViaGadget c st = Some st'"
  let ?g = "fst st" and ?s = "snd st"
  have "g_buffer ?g + ucast (g_pos ?g) \<in> gadget_area ?g" if "\<not> g_pos ?g \<ge> g_max_chars ?g"
  proof -
    have "g_buffer ?g + ucast (g_pos ?g) = g_buffer ?g + of_nat (unat (g_pos ?g))" by simp
    then show ?thesis using that unfolding gadget_area_def by (metis span_nth not_le word_less_nat_alt)
  qed
  then show ?thesis using put
    by (auto simp: putcharViaGadget_def keeps_def Let_def fun_upd_apply split: if_splits)
qed

lemma bind_keeps:
  "Option.bind (f st) g = Some st' \<Longrightarrow> (\<And>st1. f st = Some st1 \<Longrightarrow> keeps B st st1) \<Longrightarrow>
     (\<And>st1. g st1 = Some st' \<Longrightarrow> keeps B st1 st') \<Longrightarrow> keeps B st st'"
  by (cases "f st") (auto intro: keeps_trans)

lemma put_then_keeps:
  assumes "Option.bind (putcharViaGadget c st) g = Some st'" and "\<And>st1. g st1 = Some st' \<Longrightarrow> keeps {} st1 st'"
  shows "keeps {} st st'"
  using assms(1) by (rule bind_keeps) (auto intro: putchar_keeps assms(2))

lemma put_chars_keeps: "put_chars cs st = Some st' \<Longrightarrow> keeps {} st st'"
proof (induction cs arbitrary: st)
  case (Cons c cs)
  then show ?case
    by (cases "putcharViaGadget c st") (auto intro: keeps_trans dest!: putchar_keeps)
qed simp

lemma pad_from_keeps: "pad_from i width (st :: 'a gstate) = Some st' \<Longrightarrow> keeps {} st st'"
proof (erule pad_from.raw_induct [rotated])
  fix f i width and st st' :: "'a gstate"
  assume IH: "\<And>i width st st'. f i width st = Some st' \<Longrightarrow> keeps {} st st'"
    and step: "(if i < width then Option.bind (putcharViaGadget 0x20 st) (f (i + 1) width) else Some st) = Some st'"
  show "keeps {} st st'"
    using step by (auto split: if_splits intro: put_then_keeps IH)
qed

lemma pad_right_keeps: "pad_right start width (st :: 'a gstate) = Some st' \<Longrightarrow> keeps {} st st'"
proof (erule pad_right.raw_induct [rotated])
  fix f i width and st st' :: "'a gstate"
  assume IH: "\<And>i width st st'. f i width st = Some st' \<Longrightarrow> keeps {} st st'"
    and step: "(if g_pos (fst st) - i < width
      then Option.bind (putcharViaGadget 0x20 st) (f i width) else Some st) = Some st'"
  show "keeps {} st st'"
    using step by (auto split: if_splits intro: put_then_keeps IH)
qed

lemma put_string_keeps: "put_string flags prec p (st :: 'a gstate) = Some st' \<Longrightarrow> keeps {} st st'"
proof (erule put_string.raw_induct [rotated])
  fix f flags prec p and st st' :: "'a gstate"
  assume IH: "\<And>flags prec p st st'. f flags prec p st = Some st' \<Longrightarrow> keeps {} st st'"
    and step: "(if deref (mem (snd st)) p \<noteq> 0 \<and> (\<not> has flags FLAGS_PRECISION \<or> prec \<noteq> 0)
      then Option.bind (putcharViaGadget (deref (mem (snd st)) p) st) (f flags (prec - 1) (inc p))
      else Some st) = Some st'"
  show "keeps {} st st'"
    using step by (auto split: if_splits intro: put_then_keeps IH)
qed

lemma outRev_keeps: "outRev buf width flags st = Some st' \<Longrightarrow> keeps {} st st'"
proof -
  assume "outRev buf width flags st = Some st'"
  then obtain st1 st2 where
    "(if \<not> has flags FLAGS_LEFT \<and> \<not> has flags FLAGS_ZEROPAD
      then pad_from (of_nat (length buf)) width st else Some st) = Some st1"
    "put_chars (rev buf) st1 = Some st2"
    "(if has flags FLAGS_LEFT then pad_right (g_pos (fst st)) width st2 else Some st2) = Some st'"
    by (auto simp: outRev_def Let_def bind_eq_Some_conv)
  then have "keeps {} st st1" "keeps {} st1 st2" "keeps {} st2 st'"
    by (auto split: if_splits intro: pad_from_keeps put_chars_keeps pad_right_keeps)
  then show ?thesis by (meson keeps_trans)
qed

lemma printInt_keeps: "printInt val neg base prec width flags st = Some st' \<Longrightarrow> keeps {} st st'"
  by (auto simp: printInt_def printIntegerFinalization_def Let_def split: prod.splits if_splits
      dest!: outRev_keeps)

lemma va_long_targets: "va_long args = Some (v, args') \<Longrightarrow> span v 8 \<subseteq> targets args \<and> set args' \<subseteq> set args"
  by (cases "args" rule: va_long.cases) (auto simp: targets_def)

lemma va_args_subset:
  "va_int args = Some (w, args') \<Longrightarrow> set args' \<subseteq> set args"
  "va_ptr args = Some (p, args') \<Longrightarrow> set args' \<subseteq> set args"
  by (auto simp: va_int_def dest!: va_long_targets) (cases args rule: va_ptr.cases; auto)+

text \<open>A conversion keeps everything but the buffer and the targets of its arguments.\<close>

definition conv_keeps :: "va_list \<Rightarrow> 'a gstate \<Rightarrow> va_list \<Rightarrow> 'a gstate \<Rightarrow> bool" where
  "conv_keeps args st args' st' \<longleftrightarrow> set args' \<subseteq> set args \<and> keeps (targets args) st st'"

lemma keeps_conv: "keeps {} st st' \<Longrightarrow> set args' \<subseteq> set args \<Longrightarrow> conv_keeps args st args' st'"
  by (auto simp: conv_keeps_def intro: keeps_mono)

lemma print_signed_keeps:
  "print_signed base flags width prec args st = Some (args', st') \<Longrightarrow> conv_keeps args st args' st'"
  by (auto simp: print_signed_def Let_def bind_eq_Some_conv split: if_splits
      dest!: printInt_keeps va_long_targets va_args_subset intro!: keeps_conv)

lemma print_unsigned_keeps:
  "print_unsigned base flags width prec args st = Some (args', st') \<Longrightarrow> conv_keeps args st args' st'"
  by (auto simp: print_unsigned_def Let_def bind_eq_Some_conv split: if_splits
      dest!: printInt_keeps va_long_targets va_args_subset intro!: keeps_conv)

lemma print_char_keeps:
  assumes "print_char flags width args st = Some (args', st')"
  shows "conv_keeps args st args' st'"
proof -
  from assms obtain st1 st2 c where st:
    "(if \<not> has flags FLAGS_LEFT then pad_from 1 width st else Some st) = Some st1"
    "va_int args = Some (c, args')" "putcharViaGadget (ucast c) st1 = Some st2"
    "(if has flags FLAGS_LEFT then pad_from 1 width st2 else Some st2) = Some st'"
    by (auto simp: print_char_def bind_eq_Some_conv)
  then have "keeps {} st st1" "keeps {} st1 st2" "keeps {} st2 st'"
    by (auto split: if_splits intro: pad_from_keeps putchar_keeps)
  then show ?thesis using va_args_subset(1) [OF st(2)] by (meson keeps_conv keeps_trans)
qed

lemma print_string_keeps:
  assumes "print_string flags width prec args st = Some (args', st')"
  shows "conv_keeps args st args' st'"
proof -
  from assms obtain p where p: "va_ptr args = Some (p, args')"
    by (auto simp: print_string_def Let_def bind_eq_Some_conv split: if_splits)
  have "keeps {} st st'"
  proof (cases "p = NULL")
    case True
    then show ?thesis using assms p
      by (auto simp: print_string_def bind_eq_Some_conv dest!: outRev_keeps)
  next
    case False
    then obtain l st1 st2 where
      "(if \<not> has flags FLAGS_LEFT then pad_from l width st else Some st) = Some st1"
      "put_string flags prec p st1 = Some st2"
      "(if has flags FLAGS_LEFT then pad_from l width st2 else Some st2) = Some st'"
      using assms p by (auto simp: print_string_def Let_def bind_eq_Some_conv)
    then have "keeps {} st st1" "keeps {} st1 st2" "keeps {} st2 st'"
      by (auto split: if_splits intro: pad_from_keeps put_string_keeps)
    then show ?thesis by (meson keeps_trans)
  qed
  then show ?thesis using va_args_subset(2) [OF p] by (rule keeps_conv)
qed

lemma print_pointer_keeps:
  "print_pointer flags prec args st = Some (args', st') \<Longrightarrow> conv_keeps args st args' st'"
  by (auto simp: print_pointer_def bind_eq_Some_conv
      dest!: printInt_keeps va_long_targets intro!: keeps_conv)

lemma write_back_keeps:
  assumes "write_back flags args st = Some (args', st')"
  shows "conv_keeps args st args' st'"
proof -
  from assms obtain a where a: "va_long args = Some (a, args')"
    by (auto simp: write_back_def bind_eq_Some_conv Let_def)
  have sub: "span a 8 \<subseteq> targets args" "set args' \<subseteq> set args" using va_long_targets [OF a] by auto
  have small: "a \<in> span a 8" "span a 2 \<subseteq> span a 8" "span a 4 \<subseteq> span a 8"
    using span_nth [of 0 8 a] span_mono [of 2 8 a] span_mono [of 4 8 a] by simp_all
  have "keeps (span a 8) st st'"
    using assms a small
    by (auto simp: write_back_def keeps_def Let_def fun_upd_apply
        intro!: c16.st_frame c32.st_frame c64.st_frame split: if_splits)
  then show ?thesis using sub keeps_mono [OF _ sub(1)] by (simp add: conv_keeps_def)
qed

lemma print_integer_keeps:
  "print_integer c flags width prec args st = Some (args', st') \<Longrightarrow> conv_keeps args st args' st'"
  unfolding print_integer_def Let_def by (auto split: if_splits intro: print_signed_keeps print_unsigned_keeps)

lemma convert_keeps:
  assumes "convert c flags width prec args st = Some (args', st')"
  shows "conv_keeps args st args' st'"
proof -
  have "conv_keeps args st args st1" if "putcharViaGadget c st = Some st1" for st1
    using putchar_keeps [OF that] by (rule keeps_conv) simp
  then show ?thesis using assms unfolding convert_def
    by (auto split: if_splits intro: print_integer_keeps print_char_keeps print_string_keeps
        print_pointer_keeps write_back_keeps)
qed

lemma parse_width_args:
  "parse_width m fmt flags args = Some (Some (fmt', flags', w, args')) \<Longrightarrow> set args' \<subseteq> set args"
  by (auto simp: parse_width_def bind_eq_Some_conv split: if_splits prod.splits option.splits
      dest!: va_args_subset(1))

lemma parse_precision_args:
  "parse_precision m fmt flags args = Some (Some (fmt', flags', w, args')) \<Longrightarrow> set args' \<subseteq> set args"
  by (auto simp: parse_precision_def bind_eq_Some_conv Let_def split: if_splits prod.splits option.splits
      dest!: va_args_subset(1))

lemma parse_spec_args:
  assumes "parse_spec m fmt args = Some (Some (fmt', flags, w, pr, args'))"
  shows "set args' \<subseteq> set args"
proof -
  from assms obtain f0 p0 f1 fl1 a1 f2 fl2 where
    "parse_width m p0 f0 args = Some (Some (f1, fl1, w, a1))"
    "parse_precision m f1 fl1 a1 = Some (Some (f2, fl2, pr, args'))"
    by (auto simp: parse_spec_def parse_bind_def bind_eq_Some_conv split: option.splits)
  then show ?thesis using parse_width_args parse_precision_args by blast
qed

lemma targets_mono: "set args' \<subseteq> set args \<Longrightarrow> targets args' \<subseteq> targets args"
  by (auto simp: targets_def)

lemma formatStringLoop_keeps:
  "formatStringLoop fmt args (st :: 'a gstate) = Some st' \<Longrightarrow> keeps (targets args) st st'"
proof (erule formatStringLoop.raw_induct [rotated])
  fix f fmt args and st st' :: "'a gstate"
  assume IH: "\<And>fmt args st st'. f fmt args st = Some st' \<Longrightarrow> keeps (targets args) st st'"
    and step: "(if deref (mem (snd st)) fmt = 0 then Some st
      else if deref (mem (snd st)) fmt \<noteq> 37
           then Option.bind (putcharViaGadget (deref (mem (snd st)) fmt) st) (f (inc fmt) args)
           else case advance (mem (snd st)) fmt of None \<Rightarrow> Some st
                | Some fmt \<Rightarrow>
                    Option.bind (parse_spec (mem (snd st)) fmt args)
                    (\<lambda>r. case r of None \<Rightarrow> Some st
                         | Some (fmt, flags, width, precision, args) \<Rightarrow>
                             Option.bind (convert (deref (mem (snd st)) fmt) flags width precision args st)
                             (\<lambda>(args, st). f (inc fmt) args st))) = Some st'"
  consider "st' = st"
    | st1 where "putcharViaGadget (deref (mem (snd st)) fmt) st = Some st1" "f (inc fmt) args st1 = Some st'"
    | q0 q flags w pr args1 args2 st1 where
        "parse_spec (mem (snd st)) q0 args = Some (Some (q, flags, w, pr, args1))"
        "convert (deref (mem (snd st)) q) flags w pr args1 st = Some (args2, st1)"
        "f (inc q) args2 st1 = Some st'"
    using step by (auto simp: bind_eq_Some_conv split: if_splits option.splits)
  then show "keeps (targets args) st st'"
  proof cases
    case 1 then show ?thesis by simp
  next
    case 2
    then have "keeps (targets args) st st1" using putchar_keeps keeps_mono by blast
    then show ?thesis using IH [OF 2(2)] by (rule keeps_trans)
  next
    case 3
    have c: "set args2 \<subseteq> set args1" "keeps (targets args1) st st1"
      using convert_keeps [OF 3(2)] by (auto simp: conv_keeps_def)
    then have "keeps (targets args) st st1" "keeps (targets args) st1 st'"
      using parse_spec_args [OF 3(1)] IH [OF 3(3)] targets_mono keeps_mono by (meson order_trans)+
    then show ?thesis by (rule keeps_trans)
  qed
qed

lemma append_term_keeps: "keeps {} st (appendTermWithGadget st)"
proof -
  let ?g = "fst st"
  let ?k = "if g_pos ?g < g_max_chars ?g then g_pos ?g else g_max_chars ?g - 1"
  have "g_buffer ?g + ucast ?k \<in> gadget_area ?g" if "g_max_chars ?g \<noteq> 0"
  proof -
    have "unat (g_max_chars ?g) \<noteq> 0" using that by (simp add: unat_eq_zero)
    then have "unat ?k < unat (g_max_chars ?g)"
      using that by (auto simp: word_less_nat_alt unat_pred)
    moreover have "g_buffer ?g + ucast ?k = g_buffer ?g + of_nat (unat ?k)" by simp
    ultimately show ?thesis unfolding gadget_area_def by (metis span_nth)
  qed
  then show ?thesis
    by (auto simp: appendTermWithGadget_def keeps_def Let_def fun_upd_apply)
qed

section \<open>Decimal digits\<close>

lemma uhex_decimal: "n < 10 \<Longrightarrow> digit_val (upper_digits ! n) = n \<and>
    48 \<le> unat (upper_digits ! n) \<and> unat (upper_digits ! n) \<le> 57"
proof -
  assume "n < 10"
  then have "n \<in> {0, 1, 2, 3, 4, 5, 6, 7, 8, 9}" by auto
  then show ?thesis by (auto simp: upper_digits_def digit_val_def)
qed

lemma base_digits_decimal:
  "is_digits (base_digits 10 n) \<and> dec_value (base_digits 10 n) = n"
proof (induction "10 :: nat" n rule: base_digits.induct)
  case (1 n)
  show ?case
  proof (cases "n < 10")
    case True
    then show ?thesis using uhex_decimal [OF True]
      by (simp add: base_digits.simps is_digits_def dec_value_def)
  next
    case False
    then have eq: "base_digits 10 n = base_digits 10 (n div 10) @ [upper_digits ! (n mod 10)]"
      by (simp add: base_digits.simps [of 10 n])
    have "n mod 10 < 10" by simp
    then show ?thesis using 1 False uhex_decimal [of "n mod 10"] unfolding eq
      by (simp add: is_digits_def dec_value_def)
  qed
qed

lemma is_digits_nonzero: "is_digits t \<Longrightarrow> 0 \<notin> set t"
  by (auto simp: is_digits_def list_all_iff)

section \<open>Properties\<close>


text \<open>The format and the arguments of the examples.\<close>

definition pieces0 :: "piece list" where
  "pieces0 = [PStr [0x61, 0x62], PChar 0x3D, PHex 0xAB]"

lemma pieces0_fmt: "lit ''%s=%x'' = Lit (fmt_of pieces0)" "0 \<notin> set (fmt_of pieces0)"
  by (simp_all add: lit_def fmt_of_def pieces0_def)

lemma pieces0_out: "out_of pieces0 = [0x61, 0x62, 0x3D, 0x41, 0x42]"
  by (simp add: out_of_def pieces0_def int_out_def base_digits.simps upper_digits_def)

lemma pieces0_args:
  "args_match m K pieces0 [VPtr (Lit [0x61, 0x62]), VInt 0xAB]" "at_rest m K (lit ''%s=%x'') (fmt_of pieces0)"
  using pieces0_fmt by (simp_all add: pieces0_def str_arg_def at_rest_def del: lit_chars)

definition machine0 :: machine where
  "machine0 = \<lparr>mem = (\<lambda>_. 0), trace = []\<rparr>"

text \<open>
  C5: \<open>snprintf\<close> on the formats made of ordinary characters, \<open>%%\<close>, \<open>%s\<close>, \<open>%-\<close>n\<open>s\<close>, \<open>%d\<close>, \<open>%i\<close>, \<open>%u\<close>, \<open>%x\<close>, \<open>%lu\<close>
  and \<open>%lx\<close>: it returns the length of the whole output, and the buffer holds the output cut to
  \<open>n - 1\<close> bytes and a NUL; no other byte changes. (The format and the strings must not lie in the
  buffer. The digits of \<open>%x\<close> and \<open>%lx\<close> are upper case.)
\<close>

theorem snprintf_formats:
  assumes "args_match (mem s) K ps args" and "at_rest (mem s) K fmt (fmt_of ps)"
    and "buf \<noteq> 0" and "n \<noteq> 0" and "unat n < 2 ^ 31" and "length (out_of ps) < 2 ^ 31"
    and "span buf (min (unat n) (length (out_of ps))) \<inter> K = {}"
  shows "snprintf buf n fmt args s = Some (int (length (out_of ps)),
    s\<lparr>mem := store_bytes (mem s) buf (take (unat n - 1) (out_of ps) @ [0])\<rparr>)"
  unfolding snprintf_def using assms by (rule vsnprintf_pieces)

theorem snprintf_formats_witness:
  "snprintf 0x1000 4 (lit ''%s=%x'') [VPtr (Lit [0x61, 0x62]), VInt 0xAB] machine0 =
     Some (5, machine0\<lparr>mem := store_bytes (\<lambda>_. 0) 0x1000 [0x61, 0x62, 0x3D, 0]\<rparr>)"
  using snprintf_formats [OF pieces0_args [of "mem machine0" "{}"], of "0x1000" 4]
  by (simp add: pieces0_out machine0_def)


text \<open>
  C9: \<open>printf\<close> on the same formats, with the console showing the terminal \<open>t\<close> and the output staying
  on the screen: it returns the length of the output and the console shows \<open>t\<close> after the
  characters of the output; no memory outside the console's area changes.
\<close>

theorem printf_shows_output:
  assumes "args_match (mem s) K ps args" and "at_rest (mem s) K fmt (fmt_of ps)"
    and "console_layout L s" and "term_rel L s t" and "term_fits s (out_of ps) t" and "0 \<notin> set (out_of ps)"
    and "length (out_of ps) < 2 ^ 31" and "K \<inter> console_area L (fbCon s) = {}"
  shows "\<exists>s'. printf L fmt args s = Some (int (length (out_of ps)), s') \<and>
    term_rel L s' (term_puts (unat (TTY_Width s)) (out_of ps) t) \<and> same_screen s s' \<and> console_frame L s s'"
  using assms by (rule printf_pieces)

theorem printf_shows_output_witness:
  "\<exists>s'. printf image0 (lit ''%u'') [VInt 42] console0 = Some (2, s') \<and> TTY_CursorX s' = 0 \<and> TTY_CursorY s' = 1"
proof -
  let ?t = "\<lparr>t_x = 0, t_y = 0, t_fg = COLOR_LGRAY, t_bg = COLOR_BLACK, t_bold = False, t_esc = None\<rparr>"
  have fmt: "lit ''%u'' = Lit (fmt_of [PUns 42])" "0 \<notin> set (fmt_of [PUns 42])"
    by (simp_all add: lit_def fmt_of_def)
  have out: "out_of [PUns 42] = [0x34, 0x32]"
    by (simp add: out_of_def int_out_def base_digits.simps upper_digits_def)
  have rel: "term_rel image0 console0 ?t"
    by (simp add: term_rel_def console0_def esc_text_def pending_def)
  have w: "unat (TTY_Width console0) = 2" "unat (TTY_Height console0) = 2" by (simp_all add: console0_def)
  have fits: "term_fits console0 (out_of [PUns 42]) ?t"
    unfolding out by (simp add: term_ok_def w term_put_def pending_def term_advance_def)
  have "at_rest (mem console0) {} (lit ''%u'') (fmt_of [PUns 42])" "args_match (mem console0) {} [PUns 42] [VInt 42]"
    unfolding fmt(1) using fmt(2) by (simp_all add: at_rest_def)
  then obtain s' where s': "printf image0 (lit ''%u'') [VInt 42] console0 = Some (2, s')"
      "term_rel image0 s' (term_puts 2 (out_of [PUns 42]) ?t)"
    using printf_shows_output [OF _ _ console0_layout rel fits] out w by fastforce
  have "term_puts 2 (out_of [PUns 42]) ?t = ?t\<lparr>t_y := 1\<rparr>"
    unfolding out by (simp add: term_puts_def term_put_def term_advance_def)
  then have "unat (TTY_CursorX s') = unat (0 :: u16)" "unat (TTY_CursorY s') = unat (1 :: u16)"
    using s'(2) by (simp_all add: term_rel_def)
  then show ?thesis using s'(1) unfolding word_unat_eq_iff by blast
qed



end
