(* ===== verification/Rtc.thy ===== *)
theory Rtc
  imports Serial
begin

text \<open>
  The real-time clock, \<open>kernel/time.c\<close>, and the speaker, \<open>kernel/audio/pcspk.c\<close>.  Both only talk to
  ports; what the clock answers is the device, a function of the history.
\<close>

section \<open>The clock\<close>

definition REG_SEC :: u8 where "REG_SEC = 0x00"
definition REG_MIN :: u8 where "REG_MIN = 0x02"
definition REG_HOUR :: u8 where "REG_HOUR = 0x04"
definition REG_WEEK_DAY :: u8 where "REG_WEEK_DAY = 0x06"
definition REG_DAY :: u8 where "REG_DAY = 0x07"
definition REG_MONTH :: u8 where "REG_MONTH = 0x08"
definition REG_YEAR :: u8 where "REG_YEAR = 0x09"
definition REG_B :: u8 where "REG_B = 0x0B"
definition IO_RTC_INDEX :: u16 where "IO_RTC_INDEX = 0x70"
definition IO_RTC_TARGET :: u16 where "IO_RTC_TARGET = 0x71"
definition REGB_DM :: u8 where "REGB_DM = push_bit 2 1"

lemmas rtc_defs = REG_SEC_def REG_MIN_def REG_HOUR_def REG_WEEK_DAY_def REG_DAY_def REG_MONTH_def
  REG_YEAR_def REG_B_def IO_RTC_INDEX_def IO_RTC_TARGET_def REGB_DM_def

record time =
  sec :: u8
  minute :: u8
  hour :: u8
  weekDay :: u8
  day :: u8
  month :: u8
  year :: u16

definition BcdToBin :: "u8 \<Rightarrow> u8" where
  "BcdToBin val = (val AND 0xF) + drop_bit 4 val * 10"

definition RtcRead :: "device \<Rightarrow> u8 \<Rightarrow> 'a machine_scheme \<Rightarrow> u8 \<times> 'a machine_scheme" where
  "RtcRead dev reg s = inb dev IO_RTC_TARGET (outb IO_RTC_INDEX reg s)"

text \<open>The day of the week is not converted from BCD, the other fields are.\<close>

definition GetTime :: "device \<Rightarrow> 'a machine_scheme \<Rightarrow> time \<times> 'a machine_scheme" where
  "GetTime dev s =
     (let (sc, s) = RtcRead dev REG_SEC s;
          (mi, s) = RtcRead dev REG_MIN s;
          (ho, s) = RtcRead dev REG_HOUR s;
          (wd, s) = RtcRead dev REG_WEEK_DAY s;
          (dy, s) = RtcRead dev REG_DAY s;
          (mo, s) = RtcRead dev REG_MONTH s;
          (yr, s) = RtcRead dev REG_YEAR s;
          (regb, s) = RtcRead dev REG_B s;
          conv = (if NOT regb AND REGB_DM \<noteq> 0 then BcdToBin else (\<lambda>v. v))
      in (\<lparr>sec = conv sc, minute = conv mi, hour = conv ho, weekDay = wd - 1, day = conv dy,
           month = conv mo, year = ucast (conv yr) + 2000\<rparr>, s))"

text \<open>
  \<open>sleep\<close> polls until the seconds have reached \<open>old.sec + seconds\<close>; the comparison is on ints.
\<close>

partial_function (option) sleep_loop ::
    "device \<Rightarrow> nat \<Rightarrow> time \<Rightarrow> 'a machine_scheme \<Rightarrow> 'a machine_scheme option" where
  "sleep_loop dev until CurrentTime s =
     (if unat (sec CurrentTime) < until
      then sleep_loop dev until (fst (GetTime dev s)) (snd (GetTime dev s)) else Some s)"

definition sleep :: "device \<Rightarrow> u8 \<Rightarrow> 'a machine_scheme \<Rightarrow> 'a machine_scheme option" where
  "sleep dev seconds s =
     (let (oldtime, s) = GetTime dev s in sleep_loop dev (unat (sec oldtime) + unat seconds) oldtime s)"

section \<open>The speaker\<close>

text \<open>A frequency of 0 divides by zero, which raises an exception whose handler panics: control does not come back.\<close>

definition playSound :: "device \<Rightarrow> u32 \<Rightarrow> 'a machine_scheme \<Rightarrow> 'a machine_scheme option" where
  "playSound dev nFrequence s =
     (if nFrequence = 0 then None
      else let Div = 1193180 div nFrequence;
               s = outb 0x43 0xB6 s;
               s = outb 0x42 (ucast Div) s;
               s = outb 0x42 (ucast (drop_bit 8 Div)) s;
               (tmp, s) = inb dev 0x61 s
           in Some (if tmp \<noteq> tmp OR 3 then outb 0x61 (tmp OR 3) s else s))"

definition noSound :: "device \<Rightarrow> 'a machine_scheme \<Rightarrow> 'a machine_scheme" where
  "noSound dev s = (let (v, s) = inb dev 0x61 s; tmp = v AND 0xFC in outb 0x61 tmp s)"

fun beep_loop :: "device \<Rightarrow> nat list \<Rightarrow> 'a machine_scheme \<Rightarrow> 'a machine_scheme option" where
  "beep_loop dev [] s = Some s"
| "beep_loop dev (i # is) s =
     do { s \<leftarrow> playSound dev (of_nat i) s; s \<leftarrow> sleep dev 1 s; beep_loop dev is s }"

definition beep :: "device \<Rightarrow> 'a machine_scheme \<Rightarrow> 'a machine_scheme option" where
  "beep dev s = map_option (noSound dev) (beep_loop dev [1..<11] s)"

section \<open>What the clock answers\<close>

text \<open>
  A clock chip answers on its data port with the register whose number was last written to the index
  port; \<open>regs\<close> is what the registers hold.
\<close>

definition selected :: "io_event list \<Rightarrow> u8" where
  "selected h = (if sent 0x70 h = [] then 0 else last (sent 0x70 h))"

definition rtc_device :: "(u8 \<Rightarrow> u8) \<Rightarrow> device \<Rightarrow> bool" where
  "rtc_device regs dev \<longleftrightarrow> (\<forall>h. ucast (dev h 0x71) = regs (selected h))"

lemma RtcRead_reg:
  assumes "rtc_device regs dev"
  shows "RtcRead dev r s = (regs r, s\<lparr>trace := trace s @ [Out8 0x70 r, In8 0x71 (regs r)]\<rparr>)"
proof -
  have "ucast (dev (trace s @ [Out8 0x70 r]) 0x71) = regs r"
    using assms by (simp add: rtc_device_def selected_def)
  then show ?thesis by (simp add: RtcRead_def inb_def outb_def emit_def rtc_defs Let_def)
qed

definition rtc_reads :: "(u8 \<Rightarrow> u8) \<Rightarrow> u8 list \<Rightarrow> io_event list" where
  "rtc_reads regs rs = concat (map (\<lambda>r. [Out8 0x70 r, In8 0x71 (regs r)]) rs)"

lemma GetTime_regs:
  assumes "rtc_device regs dev"
  shows "GetTime dev s =
    (let conv = (if NOT (regs REG_B) AND REGB_DM \<noteq> 0 then BcdToBin else (\<lambda>v. v)) in
      \<lparr>sec = conv (regs REG_SEC), minute = conv (regs REG_MIN), hour = conv (regs REG_HOUR),
       weekDay = regs REG_WEEK_DAY - 1, day = conv (regs REG_DAY), month = conv (regs REG_MONTH),
       year = ucast (conv (regs REG_YEAR)) + 2000\<rparr>,
     s\<lparr>trace := trace s @ rtc_reads regs [REG_SEC, REG_MIN, REG_HOUR, REG_WEEK_DAY, REG_DAY, REG_MONTH,
       REG_YEAR, REG_B]\<rparr>)"
  unfolding GetTime_def RtcRead_reg [OF assms] by (simp add: rtc_reads_def Let_def)

text \<open>Binary-coded decimal.\<close>

definition bcd :: "nat \<Rightarrow> u8" where
  "bcd n = of_nat (16 * (n div 10) + n mod 10)"

lemma BcdToBin_bcd:
  assumes "n < 100"
  shows "BcdToBin (bcd n) = of_nat n"
proof -
  let ?k = "16 * (n div 10) + n mod 10"
  have d: "n div 10 < 10" "n mod 10 < 10" using assms by (simp_all add: less_mult_imp_div_less)
  then have k: "?k < 160" "?k mod 16 = n mod 10" "?k div 16 = n div 10" by auto
  have "bcd n AND 0xF = take_bit 4 (of_nat ?k :: u8)"
    unfolding bcd_def take_bit_eq_mask by (simp add: mask_eq_exp_minus_1)
  also have "\<dots> = of_nat (take_bit 4 ?k)" by (rule take_bit_of_nat)
  also have "take_bit 4 ?k = ?k mod 16" by (simp add: take_bit_eq_mod)
  finally have "bcd n AND 0xF = of_nat (?k mod 16)" .
  moreover have "drop_bit 4 (bcd n) = of_nat (?k div 16)"
  proof -
    have "unat (bcd n) = ?k" unfolding bcd_def using k(1) by (intro unat_of_nat_lt) simp
    then have "unat (drop_bit 4 (bcd n)) = ?k div 16" by (simp only: unat_drop_bit_div) simp
    from arg_cong [OF this, of "of_nat :: nat \<Rightarrow> u8"] show ?thesis by (simp only: of_nat_unat ucast_id)
  qed
  ultimately have "BcdToBin (bcd n) = of_nat (n mod 10) + of_nat (n div 10) * 10"
    unfolding BcdToBin_def k(2,3) by simp
  also have "\<dots> = of_nat (n mod 10 + n div 10 * 10)" by (simp only: of_nat_add of_nat_mult of_nat_numeral)
  also have "n mod 10 + n div 10 * 10 = n" by simp
  finally show ?thesis .
qed

text \<open>The time a clock holds: in binary or in BCD, as its register B says; the week day runs from 1.\<close>

record clock =
  c_sec :: nat
  c_min :: nat
  c_hour :: nat
  c_week_day :: nat
  c_day :: nat
  c_month :: nat
  c_year :: nat

definition clock_ok :: "clock \<Rightarrow> bool" where
  "clock_ok c \<longleftrightarrow> c_sec c < 60 \<and> c_min c < 60 \<and> c_hour c < 24 \<and> 1 \<le> c_week_day c \<and> c_week_day c \<le> 7 \<and>
     c_day c \<le> 31 \<and> c_month c \<le> 12 \<and> c_year c < 100"

definition clock_regs :: "bool \<Rightarrow> clock \<Rightarrow> (u8 \<Rightarrow> u8) \<Rightarrow> bool" where
  "clock_regs binary c regs \<longleftrightarrow> bit (regs REG_B) 2 = binary \<and>
     (let enc = (if binary then of_nat else bcd) in
      regs REG_SEC = enc (c_sec c) \<and> regs REG_MIN = enc (c_min c) \<and> regs REG_HOUR = enc (c_hour c) \<and>
      regs REG_WEEK_DAY = of_nat (c_week_day c) \<and> regs REG_DAY = enc (c_day c) \<and>
      regs REG_MONTH = enc (c_month c) \<and> regs REG_YEAR = enc (c_year c))"

lemma regb_mode: "NOT b AND REGB_DM \<noteq> 0 \<longleftrightarrow> \<not> bit (b :: u8) 2"
proof -
  have "REGB_DM = 2 ^ 2" by (simp add: REGB_DM_def)
  then show ?thesis using and_exp_eq_0_iff_not_bit [of "NOT b" 2] by (simp add: bit_not_iff)
qed

lemma GetTime_clock:
  assumes dev: "rtc_device regs dev" and c: "clock_ok c" "clock_regs binary c regs"
  shows "fst (GetTime dev s) =
    \<lparr>sec = of_nat (c_sec c), minute = of_nat (c_min c), hour = of_nat (c_hour c),
     weekDay = of_nat (c_week_day c - 1), day = of_nat (c_day c), month = of_nat (c_month c),
     year = of_nat (2000 + c_year c)\<rparr>"
proof -
  let ?conv = "if NOT (regs REG_B) AND REGB_DM \<noteq> 0 then BcdToBin else (\<lambda>v. v)"
  have conv: "?conv (regs r) = of_nat n"
    if "regs r = (if binary then of_nat n else bcd n)" "n < 100" for r n
    using that c(2) BcdToBin_bcd unfolding regb_mode by (auto simp: clock_regs_def)
  have small: "c_sec c < 100" "c_min c < 100" "c_hour c < 100" "c_day c < 100" "c_month c < 100" "c_year c < 100"
    using c(1) by (simp_all add: clock_ok_def)
  have "?conv (regs REG_SEC) = of_nat (c_sec c)" "?conv (regs REG_MIN) = of_nat (c_min c)"
    "?conv (regs REG_HOUR) = of_nat (c_hour c)" "?conv (regs REG_DAY) = of_nat (c_day c)"
    "?conv (regs REG_MONTH) = of_nat (c_month c)" "?conv (regs REG_YEAR) = of_nat (c_year c)"
    using c(2) by (intro conv small; auto simp: clock_regs_def)+
  moreover have "regs REG_WEEK_DAY - 1 = of_nat (c_week_day c - 1)"
    using c by (auto simp: clock_regs_def clock_ok_def Let_def of_nat_diff)
  moreover have "(ucast (of_nat (c_year c) :: u8) :: u16) = of_nat (c_year c)"
    using small(6) by (simp add: word_unat_eq_iff unsigned_ucast_eq unsigned_of_nat take_bit_nat_eq_self)
  ultimately show ?thesis unfolding GetTime_regs [OF dev] Let_def by simp
qed

section \<open>Sleeping\<close>

text \<open>The readings of the clock one after the other.\<close>

fun reading :: "device \<Rightarrow> nat \<Rightarrow> 'a machine_scheme \<Rightarrow> time \<times> 'a machine_scheme" where
  "reading dev 0 s = GetTime dev s"
| "reading dev (Suc n) s = reading dev n (snd (GetTime dev s))"

lemma sleep_loop_returns:
  assumes "until \<le> unat (sec (fst (reading dev n s)))"
  shows "\<exists>s'. sleep_loop dev until t s = Some s'"
  using assms
proof (induction n arbitrary: t s)
  case 0
  then show ?case
    by (subst sleep_loop.simps, subst sleep_loop.simps) simp
next
  case (Suc n)
  from Suc.IH [of "snd (GetTime dev s)" "fst (GetTime dev s)"] Suc.prems
  obtain s' where "sleep_loop dev until (fst (GetTime dev s)) (snd (GetTime dev s)) = Some s'" by auto
  then show ?case by (subst sleep_loop.simps) simp
qed

lemma sleep_loop_reached:
  "sleep_loop dev until t s = Some s' \<Longrightarrow>
     until \<le> unat (sec t) \<or> (\<exists>n. until \<le> unat (sec (fst (reading dev n s))))"
proof (erule sleep_loop.raw_induct [rotated])
  fix f :: "device \<Rightarrow> nat \<Rightarrow> time \<Rightarrow> 'a machine_scheme \<Rightarrow> 'a machine_scheme option" and dev until t s s'
  assume IH: "\<And>dev until t s s'. f dev until t s = Some s' \<Longrightarrow>
      until \<le> unat (sec t) \<or> (\<exists>n. until \<le> unat (sec (fst (reading dev n s))))"
    and step: "(if unat (sec t) < until then f dev until (fst (GetTime dev s)) (snd (GetTime dev s)) else Some s) = Some s'"
  show "until \<le> unat (sec t) \<or> (\<exists>n. until \<le> unat (sec (fst (reading dev n s))))"
  proof (cases "unat (sec t) < until")
    case True
    then have "f dev until (fst (GetTime dev s)) (snd (GetTime dev s)) = Some s'" using step by simp
    from IH [OF this] show ?thesis
    proof
      assume "until \<le> unat (sec (fst (GetTime dev s)))"
      then show ?thesis by (intro disjI2 exI [of _ 0]) simp
    next
      assume "\<exists>n. until \<le> unat (sec (fst (reading dev n (snd (GetTime dev s)))))"
      then obtain n where "until \<le> unat (sec (fst (reading dev n (snd (GetTime dev s)))))" ..
      then show ?thesis by (intro disjI2 exI [of _ "Suc n"]) simp
    qed
  qed simp
qed

section \<open>Properties\<close>

text \<open>
  C36: On a clock chip that holds a valid time, in BCD or in binary, \<open>GetTime\<close> returns this time with
  the years counted from 2000 and the days of the week from 0. (The day of the week is read as it
  is: one digit is the same in both encodings.)
\<close>

theorem GetTime_reads_clock:
  assumes dev: "rtc_device regs dev" and c: "clock_ok c" "clock_regs binary c regs"
  shows "fst (GetTime dev s) =
    \<lparr>sec = of_nat (c_sec c), minute = of_nat (c_min c), hour = of_nat (c_hour c),
     weekDay = of_nat (c_week_day c - 1), day = of_nat (c_day c), month = of_nat (c_month c),
     year = of_nat (2000 + c_year c)\<rparr>"
  using assms by (rule GetTime_clock)

definition clock0 :: clock where
  "clock0 = \<lparr>c_sec = 59, c_min = 30, c_hour = 12, c_week_day = 3, c_day = 24, c_month = 10, c_year = 23\<rparr>"

definition regs0 :: "u8 \<Rightarrow> u8" where
  "regs0 r = (if r = 0 then 0x59 else if r = 2 then 0x30 else if r = 4 then 0x12 else if r = 6 then 3
     else if r = 7 then 0x24 else if r = 8 then 0x10 else if r = 9 then 0x23 else 0)"

definition machine1 :: machine where
  "machine1 = \<lparr>mem = (\<lambda>_. 0), trace = []\<rparr>"

lemma rtc_device0: "rtc_device regs0 (\<lambda>h p. ucast (regs0 (selected h)))"
  unfolding rtc_device_def by (intro allI bit_eqI) (simp add: bit_simps)

theorem GetTime_reads_clock_witness:
  "sec (fst (GetTime (\<lambda>h p. ucast (regs0 (selected h))) machine1)) = 59 \<and>
   year (fst (GetTime (\<lambda>h p. ucast (regs0 (selected h))) machine1)) = 2023"
proof -
  have "clock_ok clock0" by (simp add: clock_ok_def clock0_def)
  moreover have "clock_regs False clock0 regs0"
    by (simp add: clock_regs_def clock0_def regs0_def rtc_defs bcd_def)
  ultimately show ?thesis
    using GetTime_reads_clock [OF rtc_device0, of clock0 False machine1] by (simp add: clock0_def)
qed

text \<open>
  C26: \<open>sleep\<close> returns exactly when some later reading of the clock shows at least the starting second
  plus the duration, within the same minute's count.
\<close>

theorem sleep_returns_iff:
  "(\<exists>s'. sleep dev seconds s = Some s') =
   (\<exists>n. unat (sec (fst (GetTime dev s))) + unat seconds \<le> unat (sec (fst (reading dev n s))))"
proof -
  let ?t = "fst (GetTime dev s)" and ?s = "snd (GetTime dev s)"
  let ?u = "unat (sec ?t) + unat seconds"
  have run: "sleep dev seconds s = sleep_loop dev ?u ?t ?s" by (simp add: sleep_def split_def Let_def)
  show ?thesis
  proof
    assume "\<exists>s'. sleep dev seconds s = Some s'"
    then obtain s' where "sleep_loop dev ?u ?t ?s = Some s'" unfolding run ..
    from sleep_loop_reached [OF this]
    have "?u \<le> unat (sec ?t) \<or> (\<exists>n. ?u \<le> unat (sec (fst (reading dev n ?s))))" .
    then show "\<exists>n. ?u \<le> unat (sec (fst (reading dev n s)))"
    proof
      assume "\<exists>n. ?u \<le> unat (sec (fst (reading dev n ?s)))"
      then obtain n where "?u \<le> unat (sec (fst (reading dev n ?s)))" ..
      then show ?thesis by (intro exI [of _ "Suc n"]) simp
    qed (intro exI [of _ 0], simp)
  next
    assume "\<exists>n. ?u \<le> unat (sec (fst (reading dev n s)))"
    then obtain n where n: "?u \<le> unat (sec (fst (reading dev n s)))" ..
    show "\<exists>s'. sleep dev seconds s = Some s'"
    proof (cases n)
      case 0
      then show ?thesis using n run by (subst run, subst sleep_loop.simps) simp
    next
      case (Suc k) then show ?thesis using n sleep_loop_returns [of ?u dev k ?s ?t] run by simp
    qed
  qed
qed

text \<open>
  A sleep that reaches past the end of the minute never returns: the clock's seconds stay below
  60, and the target does not wrap around with them.
\<close>

theorem sleep_over_minute:
  assumes clock: "\<And>s :: 'a machine_scheme. unat (sec (fst (GetTime dev s))) < 60"
    and past: "60 \<le> unat (sec (fst (GetTime dev s))) + unat seconds"
  shows "sleep dev seconds (s :: 'a machine_scheme) = None"
proof -
  have below: "unat (sec (fst (reading dev n s))) < 60" for n and s :: "'a machine_scheme"
    using clock by (induction n arbitrary: s) simp_all
  show ?thesis
  proof (cases "sleep dev seconds s")
    case (Some s')
    then have "sleep_loop dev (unat (sec (fst (GetTime dev s))) + unat seconds) (fst (GetTime dev s))
        (snd (GetTime dev s)) = Some s'" by (simp add: sleep_def split_def Let_def)
    from sleep_loop_reached [OF this] have False
    proof
      assume "\<exists>n. unat (sec (fst (GetTime dev s))) + unat seconds \<le>
          unat (sec (fst (reading dev n (snd (GetTime dev s)))))"
      then obtain n where "unat (sec (fst (GetTime dev s))) + unat seconds \<le>
          unat (sec (fst (reading dev n (snd (GetTime dev s)))))" ..
      with past have "60 \<le> unat (sec (fst (reading dev n (snd (GetTime dev s)))))" by (rule le_trans)
      then show False using below [of n "snd (GetTime dev s)"] by simp
    qed (use past clock [of s] in simp)
    then show ?thesis ..
  qed
qed

theorem sleep_over_minute_witness: "sleep (\<lambda>h p. ucast (regs0 (selected h))) 1 machine1 = None"
proof -
  have "sec (fst (GetTime (\<lambda>h p. ucast (regs0 (selected h))) s)) = 59" for s :: machine
    unfolding GetTime_regs [OF rtc_device0] by (simp add: regs0_def rtc_defs BcdToBin_def)
  then show ?thesis using sleep_over_minute [of "\<lambda>h p. ucast (regs0 (selected h))" machine1 1] by simp
qed

text \<open>
  \<open>playSound\<close> programs channel 2 of the timer: the command 0xB6, then the low and the high byte of
  the divisor \<open>1193180 div nFrequence\<close> cut to 16 bits, and switches the two speaker bits on,
  keeping the others. (Below 19 Hz the divisor does not fit, which is the whole range \<open>beep\<close> plays.)
\<close>

theorem playSound_programs_timer:
  assumes "nFrequence \<noteq> 0" and "tmp = ucast (dev (trace s @ [Out8 0x43 0xB6, Out8 0x42 lo, Out8 0x42 hi]) 0x61)"
    and "lo = ucast (1193180 div nFrequence)" and "hi = ucast (drop_bit 8 (1193180 div nFrequence))"
  shows "playSound dev nFrequence s = Some (s\<lparr>trace := trace s @
      [Out8 0x43 0xB6, Out8 0x42 lo, Out8 0x42 hi, In8 0x61 tmp] @
      (if tmp AND 3 = 3 then [] else [Out8 0x61 (tmp OR 3)])\<rparr>) \<and>
    unat lo + 256 * unat hi = (1193180 div unat nFrequence) mod 2 ^ 16"
proof -
  let ?d = "1193180 div nFrequence"
  have bits: "tmp = tmp OR 3 \<longleftrightarrow> tmp AND 3 = 3" by (simp add: bit_eq_iff bit_or_iff bit_and_iff) blast
  have "unat ?d = 1193180 div unat nFrequence" by (simp add: unat_div)
  moreover have "unat lo = unat ?d mod 256" "unat hi = unat ?d div 256 mod 256"
    using assms(3,4) by (simp_all add: unsigned_ucast_eq take_bit_eq_mod unat_drop_bit_div)
  moreover have "x mod 256 + 256 * (x div 256 mod 256) = x mod 2 ^ 16" for x :: nat
    using mod_mult2_eq [of x 256 256] by simp
  ultimately have "unat lo + 256 * unat hi = (1193180 div unat nFrequence) mod 2 ^ 16" by simp
  then show ?thesis
    using assms bits by (simp add: playSound_def inb_def outb_def emit_def Let_def)
qed

theorem playSound_programs_timer_witness:
  "\<exists>s'. playSound (\<lambda>_ _. 0x30) 440 machine1 = Some s' \<and>
     trace s' = [Out8 0x43 0xB6, Out8 0x42 0x97, Out8 0x42 0x0A, In8 0x61 0x30, Out8 0x61 0x33]"
  using playSound_programs_timer [of 440 "0x30" "\<lambda>_ _. 0x30" machine1 "0x97" "0x0A"]
  by (simp add: machine1_def)

end
