(* ===== verification/Cursor.thy ===== *)
theory Cursor
  imports Console
begin

text \<open>
  What holds of the console over every sequence of characters, also those that leave the screen or that
  break off in an escape sequence.
\<close>

section \<open>One character\<close>

text \<open>The handler of escape sequences does not know the console.\<close>

definition same_console :: "'a console_scheme \<Rightarrow> 'a console_scheme \<Rightarrow> bool" where
  "same_console s s' \<longleftrightarrow> same_screen s s' \<and> TTY_WriteFunc s' = TTY_WriteFunc s \<and>
     TTY_CursorX s' = TTY_CursorX s \<and> TTY_CursorY s' = TTY_CursorY s"

lemmas same_console_simps = same_console_def same_screen_def

lemma esc_parse_console: "esc_parse L s = Some s' \<Longrightarrow> same_console s s'"
  by (auto simp: esc_parse_def esc_decode_def Let_def bind_eq_Some_conv same_console_simps split: if_splits)

lemma TTY_HandleEsc_console: "TTY_HandleEsc L ch s = Some (fin, s') \<Longrightarrow> same_console s s'"
  using esc_parse_console [of L "esc_append L ch s"]
  by (fastforce simp: TTY_HandleEsc_def bind_eq_Some_conv esc_append_def Let_def same_console_simps split: if_splits)

definition column_ok :: "'a console_scheme \<Rightarrow> bool" where
  "column_ok s \<longleftrightarrow> TTY_WriteFunc s = WriteFBCON \<and> TTY_CursorX s < TTY_Width s"

lemma column_ok_console: "same_console s s' \<Longrightarrow> column_ok s \<Longrightarrow> column_ok s'"
  by (simp add: same_console_simps column_ok_def)

text \<open>The steps of the cursor.\<close>

lemma column_home:
  "column_ok s \<Longrightarrow> column_ok (s\<lparr>TTY_CursorX := 0\<rparr>)"
  "column_ok s \<Longrightarrow> column_ok (s\<lparr>TTY_CursorX := 0, TTY_CursorY := y\<rparr>)"
  by (auto simp: column_ok_def intro: order.strict_trans1 [OF word_zero_le])

lemma column_right: "column_ok s \<Longrightarrow> column_ok (cursor_right s) \<and> same_screen s (cursor_right s)"
  using column_home(2) by (auto simp: cursor_right_def Let_def column_ok_def same_screen_def)

lemma column_left:
  assumes "column_ok s" and "TTY_CursorX s \<noteq> 0"
  shows "column_ok (s\<lparr>TTY_CursorX := TTY_CursorX s - 1\<rparr>)"
proof -
  have "TTY_CursorX s - 1 < TTY_CursorX s" 
    using assms(2) by (simp add: word_less_nat_alt unat_minus_one unat_gt_0)
  then show ?thesis using assms(1) by (auto simp: column_ok_def)
qed

lemma column_draw: "column_ok (draw_glyph L ch x y fg bg s) = column_ok s" "same_screen s (draw_glyph L ch x y fg bg s)"
  by (simp_all add: draw_glyph_store column_ok_def same_screen_def)

lemma column_putchar:
  assumes ok: "column_ok s" and put: "putchar L ch s = Some s'"
  shows "column_ok s' \<and> same_screen s s'"
proof -
  let ?w = "\<lambda>c x s. FBCON_Write L c x (TTY_CursorY s) (TTY_Color s) (TTY_BgColor s) s"
  have w: "?w ch (TTY_CursorX s) s = Some s'"
    using put ok by (simp add: putchar_def TTY_Write.simps [of L ch] column_ok_def)
  consider "ch = 0x1B" | "ch \<noteq> 0x1B" "esc s" | "ch = 0x0D" "\<not> esc s" | "ch = 0x08" "\<not> esc s" "TTY_CursorX s = 0"
    | "ch = 0x08" "\<not> esc s" "TTY_CursorX s \<noteq> 0" | "ch = 0x0A" "\<not> esc s" | "ch \<notin> {0x1B, 0x0D, 0x08, 0x0A}" "\<not> esc s"
    by blast
  then show ?thesis
  proof cases
    case 1 then show ?thesis using w ok by (auto simp: FBCON_Write.simps column_ok_def same_screen_def)
  next
    case 2
    then obtain fin s1 where "TTY_HandleEsc L ch s = Some (fin, s1)" "s' = s1\<lparr>esc := \<not> fin\<rparr>"
      using w by (auto simp: FBCON_Write.simps bind_eq_Some_conv)
    then show ?thesis using TTY_HandleEsc_console [of L ch s] ok
      by (auto simp: column_ok_def same_console_simps)
  next
    case 3 then show ?thesis using w ok column_home(1) by (auto simp: FBCON_Write.simps same_screen_def)
  next
    case 4 then show ?thesis using w ok by (auto simp: FBCON_Write.simps)
  next
    case 5
    let ?s = "s\<lparr>TTY_CursorX := TTY_CursorX s - 1\<rparr>"
    let ?g = "draw_glyph L 0x20 (TTY_CursorX ?s) (TTY_CursorY s) (TTY_Color s) (TTY_BgColor s) ?s"
    have g: "column_ok ?g" "same_screen s ?g"
      using column_left [OF ok 5(3)] by (simp_all add: column_draw(1)) (simp add: draw_glyph_store same_screen_def)
    have "TTY_WriteFunc ?s = WriteFBCON" "\<not> esc ?s" using ok 5 by (simp_all add: column_ok_def)
    then have "TTY_Write L 0x20 (TTY_CursorX ?s) (TTY_CursorY s) (TTY_Color s) (TTY_BgColor s) ?s = Some (cursor_right ?g)"
      by (simp add: TTY_Write.simps FBCON_Write_glyph)
    then have s': "s' = (cursor_right ?g)\<lparr>TTY_CursorX := TTY_CursorX (cursor_right ?g) - 1\<rparr>"
      using w 5 by (subst (asm) FBCON_Write.simps) simp
    have "TTY_CursorX ?g + 1 = TTY_CursorX s" "TTY_Width ?g = TTY_Width s" by (simp_all add: draw_glyph_store)
    then have "TTY_CursorX (cursor_right ?g) \<noteq> 0"
      using ok 5(3) by (auto simp: cursor_right_def Let_def column_ok_def)
    then have "column_ok s'" using column_right [OF g(1)] column_left s' by blast
    moreover have "same_screen s s'" using column_right [OF g(1)] g(2) unfolding s' by (simp add: same_screen_def)
    ultimately show ?thesis by blast
  next
    case 6 then show ?thesis using w ok column_home(2) by (auto simp: FBCON_Write.simps same_screen_def)
  next
    case 7
    let ?g = "draw_glyph L ch (TTY_CursorX s) (TTY_CursorY s) (TTY_Color s) (TTY_BgColor s) s"
    have "s' = cursor_right ?g" using w 7 FBCON_Write_glyph by fastforce
    moreover have "column_ok ?g" "same_screen s ?g" using ok by (simp_all add: column_draw)
    ultimately show ?thesis using column_right [of ?g] same_screen_trans by blast
  qed
qed

section \<open>Histories\<close>

text \<open>Whatever was written since \<open>s\<close>, character by character.\<close>

inductive console_history :: "image \<Rightarrow> 'a console_scheme \<Rightarrow> 'a console_scheme \<Rightarrow> bool" for L s where
  start: "console_history L s s"
| put: "console_history L s s1 \<Longrightarrow> putchar L ch s1 = Some s2 \<Longrightarrow> console_history L s s2"

text \<open>
  C23: The cursor keeps to its columns: over every sequence of characters - also ones that run off the
  screen, and broken escape sequences - the cursor stays left of \<open>TTY_Width\<close>, the output stays on the screen
  and the frame buffer, the size of the screen, the ports, the heap and the state of all other components
  stay as they were.  (The row has no such bound.)
\<close>

theorem cursor_in_columns:
  assumes "console_history L s s'" and "TTY_WriteFunc s = WriteFBCON" and "TTY_CursorX s < TTY_Width s"
  shows "TTY_CursorX s' < TTY_Width s' \<and> TTY_WriteFunc s' = WriteFBCON \<and> same_screen s s'"
proof -
  have "column_ok s' \<and> same_screen s s'"
    using assms(1)
  proof induction
    case start then show ?case using assms(2,3) by (simp add: column_ok_def)
  next
    case (put s1 ch s2) then show ?case using column_putchar same_screen_trans by blast
  qed
  then show ?thesis by (simp add: column_ok_def)
qed

theorem cursor_in_columns_witness:
  "\<exists>s'. putchar image0 0x0A console0 = Some s' \<and> TTY_CursorX s' < TTY_Width s'"
proof -
  have "putchar image0 0x0A console0 = Some (console0\<lparr>TTY_CursorX := 0, TTY_CursorY := 1\<rparr>)"
    by (simp add: putchar_def TTY_Write.simps FBCON_Write.simps console0_def)
  moreover have "TTY_WriteFunc console0 = WriteFBCON" "TTY_CursorX console0 < TTY_Width console0"
    by (simp_all add: console0_def)
  ultimately show ?thesis
    using cursor_in_columns [OF console_history.put [OF console_history.start]] by blast
qed

end
