(* ===== verification/Keyboard.thy ===== *)
theory Keyboard
  imports Printf
begin

text \<open>
  The keyboard driver, \<open>kernel/userinput/keyboard.c\<close>: the map from scan codes to characters, the
  two shift flags and the line buffer \<open>input\<close>, 100 bytes at \<open>input_at\<close> indexed by the global \<open>i\<close>.
  The second half relates the driver to a line editor.
\<close>

record keyboard = console +
  is_us_qwerty_left_shift_pressed :: u8
  is_us_qwerty_right_shift_pressed :: u8
  input_i :: u32

definition us_qwerty_left_shift :: u8 where "us_qwerty_left_shift = 0x2A"
definition us_qwerty_right_shift :: u8 where "us_qwerty_right_shift = 0x36"
definition us_qwerty_enter :: u8 where "us_qwerty_enter = 0x1C"
definition us_qwerty_backspace :: u8 where "us_qwerty_backspace = 0x0E"

lemmas us_qwerty_codes = us_qwerty_left_shift_def us_qwerty_right_shift_def us_qwerty_enter_def
  us_qwerty_backspace_def

section \<open>The operations\<close>

definition us_qwerty_ascii_ps2_mapping :: "u8 list" where
  "us_qwerty_ascii_ps2_mapping =
     [0, 0, 0x31, 0x32, 0x33, 0x34, 0x35, 0x36, 0x37, 0x38,
      0x39, 0x30, 0x2D, 0x3D, 0, 0, 0x71, 0x77, 0x65, 0x72,
      0x74, 0x79, 0x75, 0x69, 0x6F, 0x70, 0x5B, 0x5D, 0, 0,
      0x61, 0x73, 0x64, 0x66, 0x67, 0x68, 0x6A, 0x6B, 0x6C, 0x3B,
      0x27, 0x60, 0, 0x5C, 0x7A, 0x78, 0x63, 0x76, 0x62, 0x6E,
      0x6D, 0x2C, 0x2E, 0x2F, 0, 0x2A, 0, 0x20]"

text \<open>The letters by arithmetic, then the two \<open>else if\<close> chains, one after the other.\<close>

definition shift_letter :: "u8 \<Rightarrow> u8" where
  "shift_letter c = (if sint c > 96 \<and> sint c < 123 then c - 32 else c)"

definition shift_number :: "u8 \<Rightarrow> u8" where
  "shift_number c =
     (if c = 0x31 then 0x21 else if c = 0x32 then 0x40 else if c = 0x33 then 0x23
      else if c = 0x34 then 0x24 else if c = 0x35 then 0x25 else if c = 0x36 then 0x5E
      else if c = 0x37 then 0x26 else if c = 0x38 then 0x2A else if c = 0x39 then 0x28
      else if c = 0x30 then 0x29 else c)"

definition shift_misc :: "u8 \<Rightarrow> u8" where
  "shift_misc c =
     (if c = 0x60 then 0x7E else if c = 0x2D then 0x5F else if c = 0x3D then 0x2B
      else if c = 0x5B then 0x7B else if c = 0x5D then 0x7D else if c = 0x5C then 0x7C
      else if c = 0x3B then 0x3A else if c = 0x27 then 0x22 else if c = 0x2C then 0x3C
      else if c = 0x2E then 0x3E else if c = 0x2F then 0x3F else c)"

text \<open>The map has 58 entries, the guard lets the scan code 58 through: it reads the byte behind.\<close>

definition get_us_qwerty_char_from_scan_code :: "image \<Rightarrow> u8 \<Rightarrow> 'a keyboard_scheme \<Rightarrow> u8" where
  "get_us_qwerty_char_from_scan_code L scancode s =
     (if scancode > 58 then 0
      else let c = (us_qwerty_ascii_ps2_mapping @ [after_us_qwerty_ascii_ps2_mapping L]) ! unat scancode in
        if is_us_qwerty_left_shift_pressed s \<noteq> 0 \<or> is_us_qwerty_right_shift_pressed s \<noteq> 0
        then shift_misc (shift_number (shift_letter c)) else c)"

text \<open>\<open>input[k]\<close> for an int \<open>k\<close>, which may be negative.\<close>

definition input_slot :: "image \<Rightarrow> u32 \<Rightarrow> addr" where
  "input_slot L k = input_at L + scast k"

text \<open>The two \<open>if\<close> chains over the shift keys; the second component is \<open>c\<close>.\<close>

definition shift_keys :: "u8 \<Rightarrow> u8 \<Rightarrow> 'a keyboard_scheme \<Rightarrow> u8 \<times> 'a keyboard_scheme" where
  "shift_keys scancode c s =
     (let (c, s) =
        (if scancode = us_qwerty_left_shift then (0, s\<lparr>is_us_qwerty_left_shift_pressed := 1\<rparr>)
         else if scancode = us_qwerty_right_shift then (0, s\<lparr>is_us_qwerty_right_shift_pressed := 1\<rparr>)
         else (c, s)) in
      if scancode = us_qwerty_left_shift + 0x80 then (0, s\<lparr>is_us_qwerty_left_shift_pressed := 0\<rparr>)
      else if scancode = us_qwerty_right_shift + 0x80 then (0, s\<lparr>is_us_qwerty_right_shift_pressed := 0\<rparr>)
      else (c, s))"

text \<open>
  \<open>printf\<close> gets the typed character as its format.  The backspace writes \<open>input[i]\<close> before it looks
  whether \<open>i\<close> has become negative.
\<close>

definition line_keys :: "image \<Rightarrow> u8 \<Rightarrow> u8 \<Rightarrow> 'a keyboard_scheme \<Rightarrow> (u8 \<times> 'a keyboard_scheme) option" where
  "line_keys L scancode c s =
     (if scancode = us_qwerty_enter then
        do { (_, s) \<leftarrow> printf L (Lit [0x0A]) [] s;
             Some (0, s\<lparr>mem := store_bytes (mem s) (input_at L) (replicate 100 0), input_i := 0\<rparr>) }
      else if scancode = us_qwerty_backspace then
        do { s \<leftarrow> putchar L 0x08 s;
             let i = input_i s - 1;
             let s = s\<lparr>mem := (mem s)(input_slot L i := 0), input_i := i\<rparr>;
             Some (0, if sint i < 0 then s\<lparr>input_i := 0\<rparr> else s) }
      else Some (c, s))"

definition type_key :: "image \<Rightarrow> u8 \<Rightarrow> 'a keyboard_scheme \<Rightarrow> 'a keyboard_scheme option" where
  "type_key L c s =
     (if c \<noteq> 0 then
        let s = s\<lparr>mem := (mem s)(input_slot L (input_i s) := c), input_i := input_i s + 1\<rparr>
        in map_option snd (printf L (Lit [c]) [] s)
      else Some s)"

definition HandleKeyboard :: "image \<Rightarrow> u8 \<Rightarrow> 'a keyboard_scheme \<Rightarrow> 'a keyboard_scheme option" where
  "HandleKeyboard L scancode s =
     (let c = get_us_qwerty_char_from_scan_code L scancode s;
          (c, s) = shift_keys scancode c s in
      do { (c, s) \<leftarrow> line_keys L scancode c s;
           s \<leftarrow> type_key L c s;
           Some (outb 0x20 0x20 s) })"

section \<open>The layout\<close>

text \<open>The rows of a US keyboard, each with the scan code of its first key.\<close>

definition key_rows :: "bool \<Rightarrow> (nat \<times> string) list" where
  "key_rows shift =
     [(2, if shift then ''!@#$%^&*()_+'' else ''1234567890-=''),
      (16, if shift then ''QWERTYUIOP{}'' else ''qwertyuiop[]''),
      (30, if shift then ''ASDFGHJKL:'' @ [CHR 0x22] @ ''~'' else ''asdfghjkl;'' @ [CHR 0x27] @ ''`''),
      (43, if shift then ''|ZXCVBNM<>?'' else [CHR 0x5C] @ ''zxcvbnm,./''),
      (55, ''*''), (57, '' '')]"

definition key_char :: "bool \<Rightarrow> nat \<Rightarrow> u8" where
  "key_char shift n =
     (case find (\<lambda>(k, row). k \<le> n \<and> n < k + length row) (key_rows shift) of
        None \<Rightarrow> 0 | Some (k, row) \<Rightarrow> of_char (row ! (n - k)))"

definition mapped_char :: "bool \<Rightarrow> nat \<Rightarrow> u8" where
  "mapped_char shift n =
     (if shift then shift_misc (shift_number (shift_letter (us_qwerty_ascii_ps2_mapping ! n)))
      else us_qwerty_ascii_ps2_mapping ! n)"

lemma mapping_letters:
  "map shift_letter us_qwerty_ascii_ps2_mapping =
     [0, 0, 0x31, 0x32, 0x33, 0x34, 0x35, 0x36, 0x37, 0x38, 0x39, 0x30, 0x2D, 0x3D, 0,
      0, 0x51, 0x57, 0x45, 0x52, 0x54, 0x59, 0x55, 0x49, 0x4F, 0x50, 0x5B, 0x5D, 0, 0,
      0x41, 0x53, 0x44, 0x46, 0x47, 0x48, 0x4A, 0x4B, 0x4C, 0x3B, 0x27, 0x60, 0, 0x5C, 0x5A,
      0x58, 0x43, 0x56, 0x42, 0x4E, 0x4D, 0x2C, 0x2E, 0x2F, 0, 0x2A, 0, 0x20]"
  by (simp add: us_qwerty_ascii_ps2_mapping_def shift_letter_def)

lemma mapping_numbers:
  "map shift_number (map shift_letter us_qwerty_ascii_ps2_mapping) =
     [0, 0, 0x21, 0x40, 0x23, 0x24, 0x25, 0x5E, 0x26, 0x2A, 0x28, 0x29, 0x2D, 0x3D, 0,
      0, 0x51, 0x57, 0x45, 0x52, 0x54, 0x59, 0x55, 0x49, 0x4F, 0x50, 0x5B, 0x5D, 0, 0,
      0x41, 0x53, 0x44, 0x46, 0x47, 0x48, 0x4A, 0x4B, 0x4C, 0x3B, 0x27, 0x60, 0, 0x5C, 0x5A,
      0x58, 0x43, 0x56, 0x42, 0x4E, 0x4D, 0x2C, 0x2E, 0x2F, 0, 0x2A, 0, 0x20]"
  unfolding mapping_letters by (simp add: shift_number_def)

lemma mapping_shifted:
  "map shift_misc (map shift_number (map shift_letter us_qwerty_ascii_ps2_mapping)) =
     [0, 0, 0x21, 0x40, 0x23, 0x24, 0x25, 0x5E, 0x26, 0x2A, 0x28, 0x29, 0x5F, 0x2B, 0,
      0, 0x51, 0x57, 0x45, 0x52, 0x54, 0x59, 0x55, 0x49, 0x4F, 0x50, 0x7B, 0x7D, 0, 0,
      0x41, 0x53, 0x44, 0x46, 0x47, 0x48, 0x4A, 0x4B, 0x4C, 0x3A, 0x22, 0x7E, 0, 0x7C, 0x5A,
      0x58, 0x43, 0x56, 0x42, 0x4E, 0x4D, 0x3C, 0x3E, 0x3F, 0, 0x2A, 0, 0x20]"
  unfolding mapping_numbers by (simp add: shift_misc_def)

lemma length_mapping: "length us_qwerty_ascii_ps2_mapping = 58"
  by (simp add: us_qwerty_ascii_ps2_mapping_def)

lemma upt_58: "[0..<58] = [0, 1, 2, 3, 4, 5, 6, 7, 8, 9, 10, 11, 12, 13, 14, 15, 16, 17, 18, 19,
      20, 21, 22, 23, 24, 25, 26, 27, 28, 29, 30, 31, 32, 33, 34, 35, 36, 37, 38, 39,
      40, 41, 42, 43, 44, 45, 46, 47, 48, 49, 50, 51, 52, 53, 54, 55, 56, 57]"
  by code_simp

lemma key_chars:
  "map (key_char True) [0..<58] =
     [0, 0, 0x21, 0x40, 0x23, 0x24, 0x25, 0x5E, 0x26, 0x2A, 0x28, 0x29, 0x5F, 0x2B, 0,
      0, 0x51, 0x57, 0x45, 0x52, 0x54, 0x59, 0x55, 0x49, 0x4F, 0x50, 0x7B, 0x7D, 0, 0,
      0x41, 0x53, 0x44, 0x46, 0x47, 0x48, 0x4A, 0x4B, 0x4C, 0x3A, 0x22, 0x7E, 0, 0x7C, 0x5A,
      0x58, 0x43, 0x56, 0x42, 0x4E, 0x4D, 0x3C, 0x3E, 0x3F, 0, 0x2A, 0, 0x20]"
  "map (key_char False) [0..<58] = us_qwerty_ascii_ps2_mapping"
  unfolding upt_58 by (simp_all add: key_char_def key_rows_def us_qwerty_ascii_ps2_mapping_def)

lemma mapped_char_rows: "n < 58 \<Longrightarrow> mapped_char shift n = key_char shift n"
  using arg_cong [OF trans [OF mapping_shifted key_chars(1) [symmetric]], of "\<lambda>l. l ! n"]
    arg_cong [OF key_chars(2), of "\<lambda>l. l ! n"]
  by (simp add: mapped_char_def length_mapping split: if_split)

lemma scancode_char:
  assumes "scancode \<noteq> 58"
  shows "get_us_qwerty_char_from_scan_code L scancode s =
    key_char (is_us_qwerty_left_shift_pressed s \<noteq> 0 \<or> is_us_qwerty_right_shift_pressed s \<noteq> 0) (unat scancode)"
proof (cases "unat scancode < 58")
  case True
  then have "\<not> scancode > 58" "(us_qwerty_ascii_ps2_mapping @ [after_us_qwerty_ascii_ps2_mapping L]) ! unat scancode
      = us_qwerty_ascii_ps2_mapping ! unat scancode"
    by (simp_all add: word_less_nat_alt nth_append length_mapping)
  then show ?thesis
    using mapped_char_rows [OF True]
    by (simp add: get_us_qwerty_char_from_scan_code_def mapped_char_def Let_def)
next
  case False
  moreover have "unat scancode \<noteq> 58" using assms by (simp add: word_unat_eq_iff)
  ultimately have "58 < unat scancode" by simp
  then show ?thesis
    by (simp add: get_us_qwerty_char_from_scan_code_def word_less_nat_alt key_char_def key_rows_def)
qed

section \<open>The line editor\<close>

text \<open>
  What the driver is for: the state of the shift keys and the text of the line, and for every key
  the characters it shows.  A percent sign is stored but not shown.
\<close>

record line_editor =
  le_left :: bool
  le_right :: bool
  le_text :: "u8 list"

definition typed :: "u8 \<Rightarrow> line_editor \<Rightarrow> u8" where
  "typed k e = key_char (le_left e \<or> le_right e) (unat k)"

definition key_step :: "u8 \<Rightarrow> line_editor \<Rightarrow> line_editor \<times> u8 list" where
  "key_step k e =
     (if k = 0x2A then (e\<lparr>le_left := True\<rparr>, [])
      else if k = 0x36 then (e\<lparr>le_right := True\<rparr>, [])
      else if k = 0xAA then (e\<lparr>le_left := False\<rparr>, [])
      else if k = 0xB6 then (e\<lparr>le_right := False\<rparr>, [])
      else if k = 0x1C then (e\<lparr>le_text := []\<rparr>, [0x0A])
      else if k = 0x0E then (e\<lparr>le_text := butlast (le_text e)\<rparr>, [0x08])
      else if typed k e = 0 then (e, [])
      else (e\<lparr>le_text := le_text e @ [typed k e]\<rparr>, if typed k e = 0x25 then [] else [typed k e]))"

text \<open>What the driver needs of its client: room for a character, a character to take back.\<close>

definition key_ok :: "u8 \<Rightarrow> line_editor \<Rightarrow> bool" where
  "key_ok k e \<longleftrightarrow> k \<noteq> 58 \<and> (k = 0x0E \<longrightarrow> le_text e \<noteq> []) \<and>
     (typed k e \<noteq> 0 \<longrightarrow> length (le_text e) < 100)"

definition input_holds :: "image \<Rightarrow> memory \<Rightarrow> u8 list \<Rightarrow> bool" where
  "input_holds L m text \<longleftrightarrow> length text \<le> 100 \<and>
     load_bytes m (input_at L) 100 = text @ replicate (100 - length text) 0"

definition line_rel :: "image \<Rightarrow> 'a keyboard_scheme \<Rightarrow> line_editor \<Rightarrow> bool" where
  "line_rel L s e \<longleftrightarrow>
     (is_us_qwerty_left_shift_pressed s \<noteq> 0) = le_left e \<and>
     (is_us_qwerty_right_shift_pressed s \<noteq> 0) = le_right e \<and>
     input_i s = of_nat (length (le_text e)) \<and> input_holds L (mem s) (le_text e)"

definition key_layout :: "image \<Rightarrow> 'a console_scheme \<Rightarrow> bool" where
  "key_layout L s \<longleftrightarrow> console_layout L s \<and> span (input_at L) 100 \<inter> console_area L (fbCon s) = {}"

text \<open>What a key leaves alone.\<close>

definition key_frame :: "image \<Rightarrow> 'a keyboard_scheme \<Rightarrow> 'a keyboard_scheme \<Rightarrow> bool" where
  "key_frame L s s' \<longleftrightarrow> fbCon s' = fbCon s \<and> TTY_Width s' = TTY_Width s \<and> TTY_Height s' = TTY_Height s \<and>
     keyboard.more s' = keyboard.more s \<and>
     (\<forall>b. b \<notin> console_area L (fbCon s) \<union> span (input_at L) 100 \<longrightarrow> mem s' b = mem s b)"

lemma key_frame_refl [simp]: "key_frame L s s"
  by (simp add: key_frame_def)

lemma key_frame_trans: "key_frame L s s' \<Longrightarrow> key_frame L s' s'' \<Longrightarrow> key_frame L s s''"
  by (simp add: key_frame_def)

text \<open>The line buffer as a list.\<close>

lemma input_slot_nth: "n < 2 ^ 31 \<Longrightarrow> input_slot L (of_nat n) = input_at L + of_nat n"
  by (simp add: input_slot_def scast_of_nat_32_64)

lemma input_append:
  assumes "input_holds L m text" and "length text < 100"
  shows "input_holds L (m(input_at L + of_nat (length text) := c)) (text @ [c])"
proof -
  have "(text @ replicate (100 - length text) 0)[length text := c]
      = (text @ [c]) @ replicate (100 - length (text @ [c])) 0"
    using assms(2) by (cases "100 - length text") (auto simp: list_update_append)
  then show ?thesis using assms load_bytes_upd [of "length text" 100 m "input_at L" c]
    by (simp add: input_holds_def)
qed

lemma input_butlast:
  assumes "input_holds L m text" and "text \<noteq> []"
  shows "input_holds L (m(input_at L + of_nat (length text - 1) := 0)) (butlast text)"
proof -
  obtain xs x where t: "text = xs @ [x]" using assms(2) by (cases "text" rule: rev_cases) auto
  have le: "length xs < 100" and rep: "0 # replicate (99 - length xs) 0 = replicate (100 - length xs) (0 :: u8)"
    using assms(1) by (auto simp: input_holds_def t Suc_diff_le simp flip: replicate_Suc)
  show ?thesis using assms(1) le rep load_bytes_upd [of "length xs" 100 m "input_at L" 0]
    by (auto simp: input_holds_def t list_update_append)
qed

lemma input_clear: "input_holds L (store_bytes m (input_at L) (replicate 100 0)) []"
  using load_store_bytes [of "replicate 100 (0 :: u8)" m "input_at L"] by (simp add: input_holds_def)

lemma input_cong:
  "(\<And>b. b \<in> span (input_at L) 100 \<Longrightarrow> m' b = m b) \<Longrightarrow> input_holds L m' text = input_holds L m text"
  unfolding input_holds_def using load_bytes_cong [of "input_at L" 100 m' m] by simp

lemma same_screen_keyboard:
  "same_screen s (s' :: 'a keyboard_scheme) \<Longrightarrow>
     is_us_qwerty_left_shift_pressed s' = is_us_qwerty_left_shift_pressed s \<and>
     is_us_qwerty_right_shift_pressed s' = is_us_qwerty_right_shift_pressed s \<and>
     input_i s' = input_i s \<and> keyboard.more s' = keyboard.more s \<and> trace s' = trace s"
  by (cases s; cases s') (simp add: same_screen_def)

text \<open>Showing characters keeps the line.\<close>

lemma line_rel_screen:
  assumes "key_layout L s" and "same_screen s s'" and "console_frame L s s'"
  shows "line_rel L s' e = line_rel L s e"
proof -
  have "input_holds L (mem s') (le_text e) = input_holds L (mem s) (le_text e)"
    using assms(1,3) by (intro input_cong) (auto simp: key_layout_def console_frame_def)
  then show ?thesis using same_screen_keyboard [OF assms(2)] by (simp add: line_rel_def)
qed

lemma key_frame_screen: "same_screen s s' \<Longrightarrow> console_frame L s s' \<Longrightarrow> key_frame L s s'"
  using same_screen_keyboard [of s s'] by (simp add: key_frame_def same_screen_def console_frame_def)

text \<open>The character as a format.\<close>

lemma printf_percent: "printf L (Lit [0x25]) [] s = Some (0, s)"
  by (simp add: printf_def vprintf_def vsnprintf_impl_def formatStringLoop.simps advance_def
      appendTermWithGadget_def externPutcharGadget_def functionGadget_def discardingGadget_def Let_def)

lemma printf_key:
  assumes "console_layout L s" "term_rel L s t" "term_fits s (if c = 0x25 then [] else [c]) t" "c \<noteq> 0"
  shows "\<exists>r s'. printf L (Lit [c]) [] s = Some (r, s') \<and>
    term_rel L s' (term_puts (unat (TTY_Width s)) (if c = 0x25 then [] else [c]) t) \<and>
    same_screen s s' \<and> console_frame L s s'"
proof (cases "c = 0x25")
  case True then show ?thesis using assms printf_percent [of L s] by (simp add: term_puts_def)
next
  case False
  then show ?thesis using assms printf_pieces [of s "{}" "[PChar c]" "[]" "Lit [c]" L t]
    by (auto simp: at_rest_def fmt_of_def out_of_def)
qed

section \<open>The driver is a line editor\<close>

definition key_refines ::
    "image \<Rightarrow> 'a keyboard_scheme option \<Rightarrow> 'a keyboard_scheme \<Rightarrow> line_editor \<Rightarrow> terminal \<Rightarrow> io_event list \<Rightarrow> bool" where
  "key_refines L r s e' t' io \<longleftrightarrow>
     (\<exists>s'. r = Some s' \<and> line_rel L s' e' \<and> term_rel L s' t' \<and> key_frame L s s' \<and> trace s' = trace s @ io)"

text \<open>Writes to the line buffer, the index and the shift flags keep the screen.\<close>

lemma term_rel_line:
  assumes "key_layout L s" and "term_rel L s t" and "length (pending t) < 256"
    and "\<And>b. b \<notin> span (input_at L) 100 \<Longrightarrow> m b = mem s b"
  shows "term_rel L (s\<lparr>mem := m, input_i := i\<rparr>) t"
proof -
  have "m b = mem s b" if "b \<in> console_area L (fbCon s)" for b
    using assms(1,4) that by (auto simp: key_layout_def)
  then show ?thesis
    using term_rel_cong [of "s\<lparr>mem := m, input_i := i\<rparr>" s L t] assms(2,3) by simp
qed

lemma term_rel_shift [simp]:
  "term_rel L (s\<lparr>is_us_qwerty_left_shift_pressed := l\<rparr>) t = term_rel L s t"
  "term_rel L (s\<lparr>is_us_qwerty_right_shift_pressed := l\<rparr>) t = term_rel L s t"
  by (simp_all add: term_rel_def esc_text_def)

lemma key_refines_outb:
  "key_refines L r s e t io \<Longrightarrow> key_refines L (map_option (outb p v) r) s e t (io @ [Out8 p v])"
  by (auto simp: key_refines_def line_rel_def term_rel_def key_frame_def outb_def emit_def esc_text_def)

lemma type_key_refines:
  assumes lay: "key_layout L s" and rel: "line_rel L s e" "term_rel L s t" and ok: "term_ok s t"
    and fits: "term_fits s (if c = 0x25 then [] else [c]) t" and c: "c \<noteq> 0" "length (le_text e) < 100"
  shows "key_refines L (type_key L c s) s (e\<lparr>le_text := le_text e @ [c]\<rparr>)
    (term_puts (unat (TTY_Width s)) (if c = 0x25 then [] else [c]) t) []"
proof -
  let ?n = "length (le_text e)"
  let ?m = "(mem s)(input_at L + of_nat ?n := c)"
  let ?s = "s\<lparr>mem := ?m, input_i := of_nat (Suc ?n)\<rparr>"
  have i: "input_i s = of_nat ?n" "input_slot L (input_i s) = input_at L + of_nat ?n"
    using rel(1) c(2) by (simp_all add: line_rel_def input_slot_nth)
  have out: "?m b = mem s b" if "b \<notin> span (input_at L) 100" for b
    using that c(2) by (metis fun_upd_other span_nth)
  have "term_rel L ?s t"
    using lay rel(2) _ out by (rule term_rel_line) (use ok in \<open>simp_all add: term_ok_def\<close>)
  moreover have "console_layout L ?s" "key_layout L ?s"
    using lay by (simp_all add: key_layout_def console_layout_def)
  moreover have "term_fits ?s (if c = 0x25 then [] else [c]) t" using fits ok by (simp add: term_ok_def)
  ultimately obtain r s' where s': "printf L (Lit [c]) [] ?s = Some (r, s')"
      "term_rel L s' (term_puts (unat (TTY_Width s)) (if c = 0x25 then [] else [c]) t)"
      "same_screen ?s s'" "console_frame L ?s s'"
    using printf_key [of L ?s t c] c(1) by (auto simp del: of_nat_Suc)
  have "line_rel L ?s (e\<lparr>le_text := le_text e @ [c]\<rparr>)"
    using rel(1) input_append [of L "mem s" "le_text e" c] c(2) by (simp add: line_rel_def)
  then have "line_rel L s' (e\<lparr>le_text := le_text e @ [c]\<rparr>)"
    using line_rel_screen [OF \<open>key_layout L ?s\<close> s'(3,4)] by simp
  moreover have "key_frame L s ?s" using out by (simp add: key_frame_def)
  moreover have "trace s' = trace s" using same_screen_keyboard [OF s'(3)] by simp
  moreover have "type_key L c s = Some s'" using s'(1) i c(1) by (simp add: type_key_def Let_def add.commute)
  ultimately show ?thesis
    using s'(2) key_frame_trans [OF _ key_frame_screen [OF s'(3,4)]] by (auto simp: key_refines_def)
qed

lemma pending_term_sgr [simp]: "pending (term_sgr c t) = pending t"
  by (simp add: pending_def)

lemma pending_put: "term_ok s t \<Longrightarrow> length (pending (term_put w c t)) < 256"
  by (auto simp: term_put_def term_esc_def term_advance_def pending_def term_ok_def split: option.splits)

text \<open>The keys that edit the line.\<close>

lemma enter_refines:
  assumes lay: "key_layout L s" and rel: "line_rel L s e" "term_rel L s t" and ok: "term_ok s t"
  shows "key_refines L (map_option snd (line_keys L us_qwerty_enter c s)) s (e\<lparr>le_text := []\<rparr>)
    (term_puts (unat (TTY_Width s)) [0x0A] t) [] \<and>
    (\<exists>s'. line_keys L us_qwerty_enter c s = Some (0, s'))"
proof -
  let ?t = "term_put (unat (TTY_Width s)) 0x0A t"
  obtain r s1 where s1: "printf L (Lit [0x0A]) [] s = Some (r, s1)" "term_rel L s1 ?t"
      "same_screen s s1" "console_frame L s s1"
    using printf_key [of L s t "0x0A"] lay rel(2) ok by (auto simp: key_layout_def term_puts_def)
  let ?m = "store_bytes (mem s1) (input_at L) (replicate 100 0)"
  let ?s = "s1\<lparr>mem := ?m, input_i := 0\<rparr>"
  have lay1: "key_layout L s1"
    using lay console_layout_cong [OF s1(3)] s1(3) by (simp add: key_layout_def same_screen_def)
  have out: "?m b = mem s1 b" if "b \<notin> span (input_at L) 100" for b
    using that by (simp add: store_bytes_frame)
  have "term_rel L ?s ?t"
    using lay1 s1(2) pending_put [OF ok] out by (rule term_rel_line)
  moreover have "line_rel L ?s (e\<lparr>le_text := []\<rparr>)"
    using rel(1) same_screen_keyboard [OF s1(3)] by (simp add: line_rel_def input_clear)
  moreover have "key_frame L s1 ?s" using out by (simp add: key_frame_def)
  then have "key_frame L s ?s" using key_frame_trans [OF key_frame_screen [OF s1(3,4)]] by blast
  moreover have "trace ?s = trace s" using same_screen_keyboard [OF s1(3)] by simp
  moreover have "line_keys L us_qwerty_enter c s = Some (0, ?s)" using s1(1) by (simp add: line_keys_def)
  ultimately show ?thesis by (auto simp: key_refines_def term_puts_def)
qed

lemma backspace_key_refines:
  assumes lay: "key_layout L s" and rel: "line_rel L s e" "term_rel L s t" and ok: "term_ok s t"
    and ne: "le_text e \<noteq> []"
  shows "key_refines L (map_option snd (line_keys L us_qwerty_backspace c s)) s
    (e\<lparr>le_text := butlast (le_text e)\<rparr>) (term_puts (unat (TTY_Width s)) [0x08] t) [] \<and>
    (\<exists>s'. line_keys L us_qwerty_backspace c s = Some (0, s'))"
proof -
  let ?t = "term_put (unat (TTY_Width s)) 0x08 t"
  obtain n where n: "length (le_text e) = Suc n" "n < 100"
    using ne rel(1) by (cases "length (le_text e)") (auto simp: line_rel_def input_holds_def)
  obtain s1 where s1: "putchar L 0x08 s = Some s1" "term_rel L s1 ?t" "same_screen s s1" "console_frame L s s1"
    using putchar_terminal [of L s t "0x08"] lay rel(2) ok by (auto simp: key_layout_def put_refines_def)
  let ?m = "(mem s1)(input_at L + of_nat n := 0)"
  let ?s = "s1\<lparr>mem := ?m, input_i := of_nat n\<rparr>"
  have lay1: "key_layout L s1"
    using lay console_layout_cong [OF s1(3)] s1(3) by (simp add: key_layout_def same_screen_def)
  have rel1: "line_rel L s1 e" using line_rel_screen [OF lay s1(3,4)] rel(1) by simp
  have i: "input_i s1 - 1 = of_nat n" "input_slot L (of_nat n) = input_at L + of_nat n"
      "\<not> sint (of_nat n :: u32) < 0"
    using rel1 n by (simp_all add: line_rel_def input_slot_nth sint_of_nat32)
  have out: "?m b = mem s1 b" if "b \<notin> span (input_at L) 100" for b
    using that n(2) by (metis fun_upd_other span_nth)
  have "term_rel L ?s ?t" using lay1 s1(2) pending_put [OF ok] out by (rule term_rel_line)
  moreover have "line_rel L ?s (e\<lparr>le_text := butlast (le_text e)\<rparr>)"
    using rel1 input_butlast [of L "mem s1" "le_text e"] ne n by (simp add: line_rel_def)
  moreover have "key_frame L s1 ?s" using out by (simp add: key_frame_def)
  then have "key_frame L s ?s" using key_frame_trans [OF key_frame_screen [OF s1(3,4)]] by blast
  moreover have "trace ?s = trace s" using same_screen_keyboard [OF s1(3)] by simp
  moreover have "line_keys L us_qwerty_backspace c s = Some (0, ?s)"
    using s1(1) i unfolding line_keys_def by (simp add: us_qwerty_codes Let_def)
  ultimately show ?thesis by (auto simp: key_refines_def term_puts_def)
qed

text \<open>One key.\<close>

lemma HandleKeyboard_alt:
  "HandleKeyboard L k s = map_option (outb 0x20 0x20)
     (Option.bind (line_keys L k (fst (shift_keys k (get_us_qwerty_char_from_scan_code L k s) s))
        (snd (shift_keys k (get_us_qwerty_char_from_scan_code L k s) s))) (\<lambda>(c, s). type_key L c s))"
  by (simp add: HandleKeyboard_def Let_def split_def map_conv_bind_option comp_def)

lemma key_refines_line:
  assumes "key_refines L (map_option snd r) s e t io" and "\<exists>s'. r = Some (0, s')"
  shows "key_refines L (Option.bind r (\<lambda>(c, s). type_key L c s)) s e t io"
  using assms by (auto simp: type_key_def)

lemma typed_scancode:
  "line_rel L s e \<Longrightarrow> k \<noteq> 58 \<Longrightarrow> get_us_qwerty_char_from_scan_code L k s = typed k e"
  by (simp add: scancode_char typed_def line_rel_def)

lemma shift_key_refines:
  assumes "line_rel L s e" "term_rel L s t" "k \<in> {0x2A, 0x36, 0xAA, 0xB6}"
  shows "key_refines L (Option.bind (line_keys L k (fst (shift_keys k c s)) (snd (shift_keys k c s)))
      (\<lambda>(c, s). type_key L c s)) s (fst (key_step k e)) t []"
  using assms
  by (auto simp: key_refines_def shift_keys_def line_keys_def type_key_def key_step_def us_qwerty_codes
      line_rel_def key_frame_def Let_def)

lemma HandleKeyboard_step:
  assumes lay: "key_layout L s" and rel: "line_rel L s e" "term_rel L s t" and ok: "term_ok s t" "key_ok k e"
    and fits: "term_fits s (snd (key_step k e)) t"
  shows "key_refines L (HandleKeyboard L k s) s (fst (key_step k e))
    (term_puts (unat (TTY_Width s)) (snd (key_step k e)) t) [Out8 0x20 0x20]"
proof -
  let ?c = "get_us_qwerty_char_from_scan_code L k s" and ?w = "unat (TTY_Width s)"
  have c: "?c = typed k e" using typed_scancode [OF rel(1)] ok(2) by (simp add: key_ok_def)
  have "key_refines L (Option.bind (line_keys L k (fst (shift_keys k ?c s)) (snd (shift_keys k ?c s)))
      (\<lambda>(c, s). type_key L c s)) s (fst (key_step k e)) (term_puts ?w (snd (key_step k e)) t) []"
  proof (cases "k \<in> {0x2A, 0x36, 0xAA, 0xB6}")
    case True
    then have "snd (key_step k e) = []" by (auto simp: key_step_def)
    then show ?thesis using shift_key_refines [OF rel True] by (simp add: term_puts_def)
  next
    case False
    then have sk: "shift_keys k ?c s = (?c, s)" by (auto simp: shift_keys_def us_qwerty_codes Let_def)
    consider "k = us_qwerty_enter" | "k = us_qwerty_backspace"
      | "k \<noteq> us_qwerty_enter" "k \<noteq> us_qwerty_backspace" "typed k e = 0"
      | "k \<noteq> us_qwerty_enter" "k \<noteq> us_qwerty_backspace" "typed k e \<noteq> 0" by blast
    then show ?thesis
    proof cases
      case 1
      then show ?thesis using enter_refines [OF lay rel ok(1), of ?c] sk
        by (auto intro!: key_refines_line simp: key_step_def us_qwerty_codes)
    next
      case 2
      then show ?thesis using backspace_key_refines [OF lay rel ok(1), of ?c] sk ok(2)
        by (auto intro!: key_refines_line simp: key_step_def us_qwerty_codes key_ok_def)
    next
      case 3
      then show ?thesis using sk rel c False
        by (auto simp: key_refines_def line_keys_def type_key_def key_step_def us_qwerty_codes term_puts_def)
    next
      case 4
      then have "key_step k e = (e\<lparr>le_text := le_text e @ [typed k e]\<rparr>,
          if typed k e = 0x25 then [] else [typed k e])"
        using False by (auto simp: key_step_def us_qwerty_codes)
      then show ?thesis using 4 sk c fits ok(2) type_key_refines [OF lay rel ok(1), of "typed k e"]
        by (simp add: line_keys_def key_ok_def)
    qed
  qed
  from key_refines_outb [OF this] show ?thesis by (simp add: HandleKeyboard_alt)
qed

text \<open>A sequence of keys, as the interrupts bring them.\<close>

fun HandleKeys :: "image \<Rightarrow> u8 list \<Rightarrow> 'a keyboard_scheme \<Rightarrow> 'a keyboard_scheme option" where
  "HandleKeys L [] s = Some s"
| "HandleKeys L (k # ks) s = Option.bind (HandleKeyboard L k s) (HandleKeys L ks)"

fun key_run :: "nat \<Rightarrow> u8 list \<Rightarrow> line_editor \<times> terminal \<Rightarrow> line_editor \<times> terminal" where
  "key_run w [] (e, t) = (e, t)"
| "key_run w (k # ks) (e, t) = key_run w ks (fst (key_step k e), term_puts w (snd (key_step k e)) t)"

text \<open>The line has room for every key and the screen for every character.\<close>

fun keys_fit :: "'a console_scheme \<Rightarrow> u8 list \<Rightarrow> line_editor \<Rightarrow> terminal \<Rightarrow> bool" where
  "keys_fit s [] e t \<longleftrightarrow> True"
| "keys_fit s (k # ks) e t \<longleftrightarrow> key_ok k e \<and> term_ok s t \<and> term_fits s (snd (key_step k e)) t \<and>
     keys_fit s ks (fst (key_step k e)) (term_puts (unat (TTY_Width s)) (snd (key_step k e)) t)"

lemma keys_fit_size:
  "TTY_Width s' = TTY_Width s \<Longrightarrow> TTY_Height s' = TTY_Height s \<Longrightarrow> keys_fit s' ks e t = keys_fit s ks e t"
  by (induction ks arbitrary: e t) (simp_all add: term_fits_size [of s' s] term_ok_def)

lemma keys_fit_frame: "key_frame L s s' \<Longrightarrow> keys_fit s' ks e t = keys_fit s ks e t"
  by (rule keys_fit_size) (simp_all add: key_frame_def)

lemma key_layout_frame: "key_frame L s s' \<Longrightarrow> key_layout L s' = key_layout L s"
  by (simp add: key_layout_def key_frame_def console_layout_def)

lemma HandleKeys_run:
  assumes "key_layout L s" "line_rel L s e" "term_rel L s t" "keys_fit s ks e t"
  shows "\<exists>s'. HandleKeys L ks s = Some s' \<and> line_rel L s' (fst (key_run (unat (TTY_Width s)) ks (e, t))) \<and>
    term_rel L s' (snd (key_run (unat (TTY_Width s)) ks (e, t))) \<and> key_frame L s s' \<and>
    trace s' = trace s @ replicate (length ks) (Out8 0x20 0x20)"
  using assms
proof (induction ks arbitrary: s e t)
  case Nil then show ?case by simp
next
  case (Cons k ks)
  let ?w = "unat (TTY_Width s)"
  obtain s1 where s1: "HandleKeyboard L k s = Some s1" "line_rel L s1 (fst (key_step k e))"
      "term_rel L s1 (term_puts ?w (snd (key_step k e)) t)" "key_frame L s s1"
      "trace s1 = trace s @ [Out8 0x20 0x20]"
    using HandleKeyboard_step [OF Cons.prems(1-3), of k] Cons.prems(4) by (auto simp: key_refines_def)
  have w: "unat (TTY_Width s1) = ?w" using s1(4) by (simp add: key_frame_def)
  show ?case
    using Cons.IH [OF _ s1(2,3)] Cons.prems(1,4) s1 w key_layout_frame [OF s1(4)] keys_fit_frame [OF s1(4)]
    by (auto intro: key_frame_trans)
qed

text \<open>Backspace on an empty line.\<close>

lemma backspace_underflow:
  assumes "console_layout L s" "term_rel L s t" "term_ok s t" "input_i s = 0"
  shows "\<exists>s'. HandleKeyboard L us_qwerty_backspace s = Some s' \<and> mem s' (input_at L - 1) = 0 \<and> input_i s' = 0"
proof -
  obtain s1 where s1: "putchar L 0x08 s = Some s1" "same_screen s s1"
    using putchar_terminal [of L s t "0x08"] assms by (auto simp: put_refines_def)
  have i: "input_i s1 = 0" using same_screen_keyboard [OF s1(2)] assms(4) by simp
  let ?s = "s1\<lparr>mem := (mem s1)(input_at L - 1 := 0), input_i := 0\<rparr>"
  have "shift_keys us_qwerty_backspace c s = (c, s)" for c by (simp add: shift_keys_def us_qwerty_codes)
  moreover have "line_keys L us_qwerty_backspace c s = Some (0, ?s)" for c
    using s1(1) i unfolding line_keys_def by (simp add: us_qwerty_codes Let_def input_slot_def)
  ultimately have "HandleKeyboard L us_qwerty_backspace s = Some (outb 0x20 0x20 ?s)"
    by (simp add: HandleKeyboard_alt type_key_def)
  then show ?thesis by (simp add: outb_def emit_def)
qed

section \<open>Properties\<close>

definition keyboard0 :: keyboard where
  "keyboard0 = console.extend console0 (keyboard.fields 0 0 0)"

text \<open>
  The character of a scan code is the one a US keyboard has on that key, in the lower or the
  upper row according to the shift keys; every other scan code gives no character. Only 58 is left
  out: for it the driver reads one byte behind its table.
\<close>

theorem scancode_layout:
  assumes "scancode \<noteq> 58"
  shows "get_us_qwerty_char_from_scan_code L scancode s =
    key_char (is_us_qwerty_left_shift_pressed s \<noteq> 0 \<or> is_us_qwerty_right_shift_pressed s \<noteq> 0) (unat scancode)"
  using assms by (rule scancode_char)

theorem scancode_layout_witness:
  "get_us_qwerty_char_from_scan_code image0 0x05 (keyboard0\<lparr>is_us_qwerty_right_shift_pressed := 1\<rparr>) = 0x24"
  using scancode_layout [of "0x05" image0 "keyboard0\<lparr>is_us_qwerty_right_shift_pressed := 1\<rparr>"]
  by (simp add: key_char_def key_rows_def)

text \<open>
  C4: A sequence of keys edits a line: shift keys change the layer, a character key appends its
  character to \<open>input\<close> and shows it on the terminal, backspace takes the last character back, enter
  empties the line and starts a new one; every key is acknowledged to the interrupt controller once
  and no other memory changes. The line must have room for a typed character and must not be empty
  when backspace is pressed. A percent sign is stored but not shown, since the driver passes the
  character to \<open>printf\<close> as a format.
\<close>

theorem keyboard_edits_line:
  assumes "key_layout L s" "line_rel L s e" "term_rel L s t" "keys_fit s ks e t"
  shows "\<exists>s'. HandleKeys L ks s = Some s' \<and> line_rel L s' (fst (key_run (unat (TTY_Width s)) ks (e, t))) \<and>
    term_rel L s' (snd (key_run (unat (TTY_Width s)) ks (e, t))) \<and> key_frame L s s' \<and>
    trace s' = trace s @ replicate (length ks) (Out8 0x20 0x20)"
  using assms by (rule HandleKeys_run)

lemma keyboard0_layout: "key_layout image0 keyboard0"
proof -
  have "span (0x102040 :: addr) 100 \<inter> fb_bytes fb0 = {}"
    unfolding fb_bytes_def by (rule span_disjI) (simp_all add: fb0_def fb_area_def)
  moreover have "span (0x102040 :: addr) 100 \<inter> span 0x101000 256 = {}" by (rule span_disjI') simp_all
  moreover have "span (0x102040 :: addr) 100 \<inter> span 0x111000 256 = {}" by (rule span_disjI) simp_all
  ultimately have "span (0x102040 :: addr) 100 \<inter>
      (fb_bytes fb0 \<union> span 0x101000 256 \<union> span 0x111000 256) = {}" by blast
  moreover have "console_layout image0 keyboard0"
    using console0_layout by (simp add: console_layout_def keyboard0_def console.defs console0_def keyboard.defs)
  ultimately show ?thesis
    by (simp add: key_layout_def console_area_def image0_def keyboard0_def console0_def console.defs keyboard.defs)
qed

theorem keyboard_edits_line_witness:
  "\<exists>s'. HandleKeys image0 [0x2A, 0x1E, 0xAA, 0x30, 0x0E] keyboard0 = Some s' \<and>
     input_holds image0 (mem s') [0x41] \<and> input_i s' = 1"
proof -
  let ?t = "\<lparr>t_x = 0, t_y = 0, t_fg = COLOR_LGRAY, t_bg = COLOR_BLACK, t_bold = False, t_esc = None\<rparr>"
  let ?e = "\<lparr>le_left = False, le_right = False, le_text = []\<rparr>" and ?ks = "[0x2A, 0x1E, 0xAA, 0x30, 0x0E] :: u8 list"
  note k0 = keyboard0_def console.defs keyboard.defs console0_def
  have rel: "term_rel image0 keyboard0 ?t" by (simp add: term_rel_def k0 esc_text_def pending_def)
  have "load_bytes (\<lambda>_. 0) a n = replicate n 0" for a n by (induction n arbitrary: a) simp_all
  then have line: "line_rel image0 keyboard0 ?e" by (simp add: line_rel_def input_holds_def k0)
  have typed: "typed 0x2A e = 0" "typed 0xAA e = 0" "typed 0x0E e = 0"
    "typed 0x1E e = (if le_left e \<or> le_right e then 0x41 else 0x61)"
    "typed 0x30 e = (if le_left e \<or> le_right e then 0x42 else 0x62)" for e
    by (simp_all add: typed_def key_char_def key_rows_def)
  have w: "unat (TTY_Width keyboard0) = 2" "unat (TTY_Height keyboard0) = 2" by (simp_all add: k0)
  have fit: "keys_fit keyboard0 ?ks ?e ?t"
    by (simp add: key_ok_def typed key_step_def term_ok_def w pending_def term_puts_def term_put_def
        term_advance_def)
  have run: "fst (key_run 2 ?ks (?e, ?t)) = ?e\<lparr>le_text := [0x41]\<rparr>" by (simp add: key_step_def typed)
  show ?thesis
    using keyboard_edits_line [OF keyboard0_layout line rel fit] unfolding w run
    by (auto simp: line_rel_def)
qed

text \<open>
  C35: Backspace on an empty line clears the byte in front of the array \<open>input\<close>: the driver writes
  \<open>input[-1]\<close> and only then sets the index back to 0.
\<close>

theorem backspace_writes_before_input:
  assumes "console_layout L s" "term_rel L s t" "term_ok s t" "input_i s = 0"
  shows "\<exists>s'. HandleKeyboard L us_qwerty_backspace s = Some s' \<and> mem s' (input_at L - 1) = 0 \<and> input_i s' = 0"
  using assms by (rule backspace_underflow)

theorem backspace_writes_before_input_witness:
  "\<exists>s'. HandleKeyboard image0 us_qwerty_backspace (keyboard0\<lparr>mem := (\<lambda>_. 0)(0x10203F := 7)\<rparr>) = Some s' \<and>
     mem s' 0x10203F = 0"
proof -
  let ?t = "\<lparr>t_x = 0, t_y = 0, t_fg = COLOR_LGRAY, t_bg = COLOR_BLACK, t_bold = False, t_esc = None\<rparr>"
  let ?s = "keyboard0\<lparr>mem := (\<lambda>_. 0)(0x10203F := 7)\<rparr>"
  note k0 = keyboard0_def console.defs keyboard.defs console0_def
  have "console_layout image0 ?s" using keyboard0_layout by (simp add: key_layout_def console_layout_def)
  moreover have "term_rel image0 ?s ?t" by (simp add: term_rel_def k0 esc_text_def pending_def)
  moreover have "term_ok ?s ?t" by (simp add: term_ok_def k0 pending_def)
  moreover have "input_i ?s = 0" by (simp add: k0)
  ultimately show ?thesis
    using backspace_writes_before_input [of image0 ?s ?t] by (auto simp: image0_def)
qed

end
