(* ===== verification/Log.thy ===== *)
theory Log
  imports Printf
begin

text \<open>
  Kernel messages: \<open>log\<close> of \<open>kernel/log.c\<close>, which composes a coloured line in a stack buffer of 256
  bytes and sends it to the debug line and to the console, and \<open>panic\<close> of \<open>kernel/panic.c\<close>.
\<close>

section \<open>The operations\<close>

definition LOGLEVEL_VERBOSE :: u8 where "LOGLEVEL_VERBOSE = 0"
definition LOGLEVEL_DEBUG :: u8 where "LOGLEVEL_DEBUG = 1"
definition LOGLEVEL_INFO :: u8 where "LOGLEVEL_INFO = 2"
definition LOGLEVEL_WARN :: u8 where "LOGLEVEL_WARN = 3"
definition LOGLEVEL_ERROR :: u8 where "LOGLEVEL_ERROR = 4"
definition LOGLEVEL_FATAL :: u8 where "LOGLEVEL_FATAL = 5"

lemmas LOGLEVEL_defs = LOGLEVEL_VERBOSE_def LOGLEVEL_DEBUG_def LOGLEVEL_INFO_def LOGLEVEL_WARN_def
  LOGLEVEL_ERROR_def LOGLEVEL_FATAL_def

text \<open>The bytes of a literal; \<open>esc_seq\<close> and \<open>nl\<close> write the escapes a HOL string cannot.\<close>

definition bytes :: "string \<Rightarrow> u8 list" where
  "bytes s = map of_char s"

definition esc_seq :: "string \<Rightarrow> u8 list" where
  "esc_seq s = 0x1B # bytes s"

definition nl :: "u8 list" where
  "nl = [0x0A]"

definition ansiColors :: "u8 list list" where
  "ansiColors = [esc_seq ''[0m'', esc_seq ''[0m'', esc_seq ''[37m'', esc_seq ''[33m'',
     esc_seq ''[0;31m'', esc_seq ''[31m !!! '']"

definition log_fmt :: "u8 list" where
  "log_fmt = esc_seq ''[1m'' @ esc_seq ''[33m['' @ esc_seq ''[36m%-*s'' @ esc_seq ''[1m'' @
     esc_seq ''[33m]%s %s''"

text \<open>Every caller passes a level of the table; a larger one would read behind it.\<close>

definition log :: "image \<Rightarrow> cptr \<Rightarrow> cptr \<Rightarrow> u8 \<Rightarrow> 'a console_scheme \<Rightarrow> 'a console_scheme option" where
  "log L module msg level s =
     do { s \<leftarrow> (if TTY_CursorX s \<noteq> 0 then map_option snd (puts L (Lit [0x0D, 0x0A]) s) else Some s);
          let str = log_str_at L;
          (_, s) \<leftarrow> sprintf str (Lit log_fmt)
            [VInt 8, VPtr module, VPtr (Lit (ansiColors ! unat level)), VPtr msg] s;
          m \<leftarrow> (if level = LOGLEVEL_FATAL then strcat str (Lit (bytes '' !!!'')) (mem s) else Some (mem s));
          m \<leftarrow> strcat str (Lit (esc_seq ''[0m'' @ [0x0D, 0x0A])) m;
          let s = s\<lparr>mem := m\<rparr>;
          s \<leftarrow> (if TTY_WriteFunc s \<noteq> WriteCOM then comout (Addr str) s else Some s);
          map_option snd (puts L (Addr str) s) }"

text \<open>
  The registers a handler passes, as \<open>registers_t\<close> lays them out: eight bytes each.  \<open>CR2\<close> is what
  the processor's register holds.
\<close>

definition regs_at :: "memory \<Rightarrow> addr \<Rightarrow> nat \<Rightarrow> u64" where
  "regs_at m regs k = load64 m (regs + 8 * of_nat k)"

abbreviation (input) "reg_rdi \<equiv> 0 :: nat"
abbreviation (input) "reg_rsi \<equiv> 1 :: nat"
abbreviation (input) "reg_rbx \<equiv> 3 :: nat"
abbreviation (input) "reg_rdx \<equiv> 4 :: nat"
abbreviation (input) "reg_rcx \<equiv> 5 :: nat"
abbreviation (input) "reg_rax \<equiv> 6 :: nat"
abbreviation (input) "reg_rip \<equiv> 17 :: nat"

text \<open>
  \<open>DUMPREGS\<close> stores what each of its instructions finds in the processor: a value for every field of
  \<open>registers_t\<close> but the last two it sets, which become 0.
\<close>

record registers_t =
  r_rdi :: u64
  r_rsi :: u64
  r_rbp :: u64
  r_rbx :: u64
  r_rdx :: u64
  r_rcx :: u64
  r_rax :: u64
  r_r8 :: u64
  r_r9 :: u64
  r_r10 :: u64
  r_r11 :: u64
  r_r12 :: u64
  r_r13 :: u64
  r_r14 :: u64
  r_r15 :: u64
  r_intNo :: u64
  r_errCode :: u64
  r_rip :: u64
  r_cs :: u64
  r_rflags :: u64
  r_rsp :: u64
  r_ss :: u64

definition set_regs :: "addr \<Rightarrow> (nat \<times> u64) list \<Rightarrow> memory \<Rightarrow> memory" where
  "set_regs regs kvs m = fold (\<lambda>(a, v) m. store64 m a v) (map (\<lambda>(k, v). (regs + 8 * of_nat k, v)) kvs) m"

definition dumped :: "registers_t \<Rightarrow> (nat \<times> u64) list" where
  "dumped cpu =
     [(6, r_rax cpu), (3, r_rbx cpu), (5, r_rcx cpu), (4, r_rdx cpu), (0, r_rdi cpu), (1, r_rsi cpu), (2, r_rbp cpu),
      (20, r_rsp cpu), (7, r_r8 cpu), (8, r_r9 cpu), (9, r_r10 cpu), (10, r_r11 cpu), (11, r_r12 cpu), (12, r_r13 cpu),
      (13, r_r14 cpu), (14, r_r15 cpu), (18, r_cs cpu), (21, r_ss cpu), (19, r_rflags cpu), (17, r_rip cpu),
      (15, 0x0), (16, 0x0)]"

definition DUMPREGS :: "registers_t \<Rightarrow> addr \<Rightarrow> memory \<Rightarrow> memory" where
  "DUMPREGS cpu regs m = set_regs regs (dumped cpu) m"

definition panic_fmt :: "u8 list" where
  "panic_fmt = bytes ''Kernel Panic'' @ nl @ nl @ bytes ''%s '' @ nl @ nl @
     bytes ''SeshOS has been shutdown to prevent damage to your computer''"

definition debug_fmt :: "u8 list" where
  "debug_fmt = nl @ nl @ bytes ''Debug Info:'' @ nl @ bytes ''RAX: 0x%lx'' @ nl @ bytes ''RBX: 0x%lx'' @ nl @
     bytes ''RCX: 0x%lx'' @ nl @ bytes ''RDX: 0x%lx'' @ nl @ bytes ''RDI: 0x%lx'' @ nl @
     bytes ''RSI: 0x%lx'' @ nl @ bytes ''RIP: 0x%lx'' @ nl @ bytes ''CR2: 0x%lx''"

text \<open>What \<open>panic\<close> prints, and the loop it ends in.\<close>

definition panic_screen ::
    "image \<Rightarrow> u64 \<Rightarrow> cptr \<Rightarrow> addr \<Rightarrow> 'a console_scheme \<Rightarrow> 'a console_scheme option" where
  "panic_screen L cr2 panicMessage regs s =
     do { (_, s) \<leftarrow> printf L (Lit panic_fmt) [VPtr panicMessage] s;
          if regs \<noteq> 0
          then map_option snd (printf L (Lit debug_fmt)
            (map VInt (map (regs_at (mem s) regs)
              [reg_rax, reg_rbx, reg_rcx, reg_rdx, reg_rdi, reg_rsi, reg_rip] @ [cr2])) s)
          else Some s }"

partial_function (option) halt_loop :: "'s \<Rightarrow> 's option" where
  "halt_loop s = halt_loop s"

definition panic ::
    "image \<Rightarrow> u64 \<Rightarrow> cptr \<Rightarrow> addr \<Rightarrow> 'a console_scheme \<Rightarrow> 'a console_scheme option" where
  "panic L cr2 panicMessage regs s = Option.bind (panic_screen L cr2 panicMessage regs s) halt_loop"

lemma halt_loop_never: "halt_loop s = Some s' \<Longrightarrow> False"
  by (erule halt_loop.raw_induct [rotated]) blast

lemma halt_loop_None [simp]: "halt_loop s = None"
  using halt_loop_never [of s] by (cases "halt_loop s") simp_all

lemma panic_never_returns: "panic L cr2 msg regs s = None"
  by (cases "panic_screen L cr2 msg regs s") (simp_all add: panic_def)

text \<open>\<open>sprintf\<close>: the whole output, terminated.\<close>

lemma sprintf_pieces:
  assumes "args_match (mem s) K ps args" and "at_rest (mem s) K fmt (fmt_of ps)" and "buf \<noteq> 0"
    and "length (out_of ps) < 2 ^ 31 - 1" and "span buf (length (out_of ps)) \<inter> K = {}"
  shows "sprintf buf fmt args s = Some (int (length (out_of ps)),
    s\<lparr>mem := store_bytes (mem s) buf (out_of ps @ [0])\<rparr>)"
proof -
  let ?n = "ucast PRINTF_MAX_POSSIBLE_BUFFER_SIZE :: u64"
  have n: "unat ?n = 2 ^ 31 - 1"
    unfolding unat_ucast_32_64 by (simp add: PRINTF_MAX_POSSIBLE_BUFFER_SIZE_def)
  have "span buf (min (unat ?n) (length (out_of ps))) \<inter> K = {}"
    using assms(5) span_mono [of "min (unat ?n) (length (out_of ps))" "length (out_of ps)" buf] by auto
  then have "vsnprintf buf ?n fmt args s = Some (int (length (out_of ps)),
      s\<lparr>mem := store_bytes (mem s) buf (take (unat ?n - 1) (out_of ps) @ [0])\<rparr>)"
    using assms(1-4) n by (intro vsnprintf_pieces) auto
  moreover have "take (unat ?n - 1) (out_of ps) = out_of ps" using assms(4) n by simp
  ultimately show ?thesis by (simp add: sprintf_def vsprintf_def)
qed

section \<open>A log line\<close>

text \<open>What a log line consists of.\<close>

definition log_head :: "u8 list \<Rightarrow> u8 \<Rightarrow> u8 list \<Rightarrow> u8 list" where
  "log_head module level msg =
     esc_seq ''[1m'' @ esc_seq ''[33m['' @ esc_seq ''[36m'' @ module @ replicate (8 - length module) 0x20 @
     esc_seq ''[1m'' @ esc_seq ''[33m]'' @ (ansiColors ! unat level) @ [0x20] @ msg"

definition log_tail :: "u8 \<Rightarrow> u8 list" where
  "log_tail level = (if level = LOGLEVEL_FATAL then bytes '' !!!'' else []) @ esc_seq ''[0m'' @ [0x0D, 0x0A]"

definition log_text :: "u8 list \<Rightarrow> u8 \<Rightarrow> u8 list \<Rightarrow> u8 list" where
  "log_text module level msg = log_head module level msg @ log_tail level"

definition log_pieces :: "u8 list \<Rightarrow> u8 \<Rightarrow> u8 list \<Rightarrow> piece list" where
  "log_pieces module level msg =
     map PChar (esc_seq ''[1m'' @ esc_seq ''[33m['' @ esc_seq ''[36m'') @ [PStrStar 8 module] @
     map PChar (esc_seq ''[1m'' @ esc_seq ''[33m]'') @ [PStr (ansiColors ! unat level)] @
     map PChar [0x20] @ [PStr msg]"

lemmas text_defs = esc_seq_def bytes_def nl_def

lemma fmt_of_log: "fmt_of (log_pieces module level msg) = log_fmt" "0 \<notin> set log_fmt"
  by (simp_all add: log_pieces_def log_fmt_def text_defs)

lemma out_of_log: "out_of (log_pieces module level msg) = log_head module level msg"
  by (simp add: log_pieces_def log_head_def text_defs)

lemma ansiColors_text: "unat level < 6 \<Longrightarrow> 0 \<notin> set (ansiColors ! unat level) \<and> length (ansiColors ! unat level) \<le> 10"
proof -
  assume "unat level < 6"
  then have "unat level \<in> {0, 1, 2, 3, 4, 5}" by auto
  then show ?thesis by (auto simp: ansiColors_def text_defs)
qed

lemma args_match_log:
  assumes "str_arg m K module mo" and "str_arg m K msg me" and "unat level < 6"
  shows "args_match m K (log_pieces mo level me)
    [VInt 8, VPtr module, VPtr (Lit (ansiColors ! unat level)), VPtr msg]"
proof -
  have "plain (esc_seq ''[1m'' @ esc_seq ''[33m['' @ esc_seq ''[36m'')" "plain (esc_seq ''[1m'' @ esc_seq ''[33m]'')"
    "plain [0x20]" by (simp_all add: plain_def text_defs)
  moreover have "str_arg m K (Lit (ansiColors ! unat level)) (ansiColors ! unat level)"
    using ansiColors_text [OF assms(3)] by (simp add: str_arg_def)
  ultimately show ?thesis using assms unfolding log_pieces_def by (simp del: map_append)
qed

lemma log_text_nonzero: "0 \<notin> set mo \<Longrightarrow> 0 \<notin> set me \<Longrightarrow> unat level < 6 \<Longrightarrow> 0 \<notin> set (log_text mo level me)"
  using ansiColors_text [of level] by (auto simp: log_text_def log_head_def log_tail_def text_defs)

text \<open>The buffer: composed once, extended twice.\<close>

lemma store_bytes_text: "store_bytes (store_bytes m a (xs @ [0])) (a + of_nat (length xs)) (ys @ [0]) =
    store_bytes m a (xs @ ys @ [0])"
proof -
  have "store_bytes (store_bytes m a (xs @ [0])) (a + of_nat (length xs)) (ys @ [0]) =
      store_bytes ((store_bytes m a xs)(a + of_nat (length xs) := 0)) (a + of_nat (length xs)) (ys @ [0])"
    by (simp add: store_bytes_append)
  also have "\<dots> = store_bytes (store_bytes m a xs) (a + of_nat (length xs)) (ys @ [0])"
    by (cases ys) simp_all
  also have "\<dots> = store_bytes m a (xs @ ys @ [0])"
    by (simp only: store_bytes_append [of m a xs "ys @ [0]"])
  finally show ?thesis .
qed

lemma strcat_text:
  assumes "0 \<notin> set (xs @ ys)" and "length (xs @ ys) < 2 ^ 31"
  shows "strcat a (Lit ys) (store_bytes m a (xs @ [0])) = Some (store_bytes m a ((xs @ ys) @ [0]))"
proof -
  have "cstr (store_bytes m a (xs @ [0])) (Addr a) xs" using assms by (intro cstr_store_bytes) simp_all
  then have "strcat a (Lit ys) (store_bytes m a (xs @ [0])) =
      Some (store_bytes (store_bytes m a (xs @ [0])) (a + of_nat (length xs)) (ys @ [0]))"
    using assms by (intro strcat_store) simp_all
  then show ?thesis by (simp only: store_bytes_text append_assoc)
qed

lemma log_buffer:
  assumes "0 \<notin> set (log_text mo level me)" and "length (log_text mo level me) < 2 ^ 31"
  shows "do { m \<leftarrow> (if level = LOGLEVEL_FATAL then strcat a (Lit (bytes '' !!!''))
                     (store_bytes m a (log_head mo level me @ [0]))
                   else Some (store_bytes m a (log_head mo level me @ [0])));
               strcat a (Lit (esc_seq ''[0m'' @ [0x0D, 0x0A])) m } =
    Some (store_bytes m a (log_text mo level me @ [0]))"
proof (cases "level = LOGLEVEL_FATAL")
  case True
  let ?h = "log_head mo level me" and ?b = "bytes '' !!!''" and ?e = "esc_seq ''[0m'' @ [0x0D, 0x0A]"
  have t: "log_text mo level me = (?h @ ?b) @ ?e" using True by (simp add: log_text_def log_tail_def)
  have "strcat a (Lit ?b) (store_bytes m a (?h @ [0])) = Some (store_bytes m a ((?h @ ?b) @ [0]))"
    using assms unfolding t by (intro strcat_text) auto
  moreover have "strcat a (Lit ?e) (store_bytes m a ((?h @ ?b) @ [0])) =
      Some (store_bytes m a (((?h @ ?b) @ ?e) @ [0]))"
    using assms unfolding t by (intro strcat_text)
  ultimately show ?thesis using True t by simp
next
  case False
  let ?h = "log_head mo level me" and ?e = "esc_seq ''[0m'' @ [0x0D, 0x0A]"
  have t: "log_text mo level me = ?h @ ?e" using False by (simp add: log_text_def log_tail_def)
  have "strcat a (Lit ?e) (store_bytes m a (?h @ [0])) = Some (store_bytes m a ((?h @ ?e) @ [0]))"
    using assms unfolding t by (intro strcat_text)
  then show ?thesis using False t by simp
qed

text \<open>The state of the console after the buffer was written.\<close>

definition log_layout :: "image \<Rightarrow> 'a console_scheme \<Rightarrow> bool" where
  "log_layout L s \<longleftrightarrow> console_layout L s \<and> log_str_at L \<noteq> 0 \<and>
     span (log_str_at L) 256 \<inter> console_area L (fbCon s) = {}"

lemma term_rel_mem:
  assumes "term_rel L s t" and "length (pending t) < 256" and "A \<inter> console_area L (fbCon s) = {}"
    and "\<And>b. b \<notin> A \<Longrightarrow> m b = mem s b"
  shows "term_rel L (s\<lparr>mem := m\<rparr>) t"
  using term_rel_cong [of "s\<lparr>mem := m\<rparr>" s L t] assms by (auto simp: disjoint_iff)

definition log_prefix :: "terminal \<Rightarrow> u8 list" where
  "log_prefix t = (if t_x t \<noteq> 0 then [0x0D, 0x0A] else [])"

definition log_frame :: "image \<Rightarrow> 'a console_scheme \<Rightarrow> 'a console_scheme \<Rightarrow> bool" where
  "log_frame L s s' \<longleftrightarrow> same_screen s (s'\<lparr>trace := trace s\<rparr>) \<and>
     (\<forall>b. b \<notin> console_area L (fbCon s) \<union> span (log_str_at L) 256 \<longrightarrow> mem s' b = mem s b)"

lemma log_frame_screen: "same_screen s s' \<Longrightarrow> console_frame L s s' \<Longrightarrow> log_frame L s s'"
  by (simp add: log_frame_def same_screen_def console_frame_def)

lemma log_frame_trans: "log_frame L s s' \<Longrightarrow> log_frame L s' s'' \<Longrightarrow> log_frame L s s''"
  by (simp add: log_frame_def same_screen_def)

lemma term_rel_trace: "term_rel L (s\<lparr>trace := tr\<rparr>) t = term_rel L s t"
  by (simp add: term_rel_def esc_text_def)

text \<open>The new line in front of a message that does not start one.\<close>

lemma log_new_line:
  assumes "console_layout L s" "term_rel L s t" "term_fits s (log_prefix t) t"
  shows "\<exists>s1. (if TTY_CursorX s \<noteq> 0 then map_option snd (puts L (Lit [0x0D, 0x0A]) s) else Some s) = Some s1 \<and>
    term_rel L s1 (term_puts (unat (TTY_Width s)) (log_prefix t) t) \<and> same_screen s s1 \<and> console_frame L s s1"
proof (cases "t_x t = 0")
  case True
  then have "TTY_CursorX s = 0" using assms(2) by (simp add: term_rel_def unat_eq_0)
  then show ?thesis using assms(2) True by (simp add: log_prefix_def term_puts_def)
next
  case False
  then have x: "TTY_CursorX s \<noteq> 0" "log_prefix t = [0x0D, 0x0A]"
    using assms(2) by (auto simp: term_rel_def log_prefix_def)
  obtain s1 where s1: "puts L (Lit [0x0D, 0x0A]) s = Some (2, s1)"
      "term_rel L s1 (term_puts (unat (TTY_Width s)) (log_prefix t) t)" "same_screen s s1" "console_frame L s s1"
    using puts_terminal [OF assms, of "Lit [0x0D, 0x0A]"] unfolding x(2) by auto
  then show ?thesis using x(1) by (intro exI [of _ s1]) simp
qed

text \<open>The line in the buffer.\<close>

definition compose_log :: "image \<Rightarrow> cptr \<Rightarrow> cptr \<Rightarrow> u8 \<Rightarrow> 'a console_scheme \<Rightarrow> 'a console_scheme option" where
  "compose_log L module msg level s =
     do { (_, s) \<leftarrow> sprintf (log_str_at L) (Lit log_fmt)
            [VInt 8, VPtr module, VPtr (Lit (ansiColors ! unat level)), VPtr msg] s;
          m \<leftarrow> (if level = LOGLEVEL_FATAL then strcat (log_str_at L) (Lit (bytes '' !!!'')) (mem s) else Some (mem s));
          m \<leftarrow> strcat (log_str_at L) (Lit (esc_seq ''[0m'' @ [0x0D, 0x0A])) m;
          Some (s\<lparr>mem := m\<rparr>) }"

definition send_log :: "image \<Rightarrow> 'a console_scheme \<Rightarrow> 'a console_scheme option" where
  "send_log L s =
     do { s \<leftarrow> (if TTY_WriteFunc s \<noteq> WriteCOM then comout (Addr (log_str_at L)) s else Some s);
          map_option snd (puts L (Addr (log_str_at L)) s) }"

lemma log_compose: "log L module msg level s =
     do { s \<leftarrow> (if TTY_CursorX s \<noteq> 0 then map_option snd (puts L (Lit [0x0D, 0x0A]) s) else Some s);
          s \<leftarrow> compose_log L module msg level s;
          send_log L s }"
  by (simp add: log_def compose_log_def send_log_def Let_def split_def bind_assoc)

lemma composed_log:
  assumes strs: "str_arg (mem s) K module mo" "str_arg (mem s) K msg me"
    and K: "K \<inter> span (log_str_at L) 256 = {}" and d: "log_str_at L \<noteq> 0"
    and level: "unat level < 6" and len: "length (log_text mo level me) < 256"
  shows "compose_log L module msg level s =
    Some (s\<lparr>mem := store_bytes (mem s) (log_str_at L) (log_text mo level me @ [0])\<rparr>)"
proof -
  let ?d = "log_str_at L"
  have nz: "0 \<notin> set (log_text mo level me)"
    using strs level by (intro log_text_nonzero) (auto simp: str_arg_def cstr_def)
  have head: "length (log_head mo level me) < 256" using len by (simp add: log_text_def)
  have "span ?d (length (log_head mo level me)) \<inter> K = {}"
    using K span_mono [of "length (log_head mo level me)" 256 ?d] head by auto
  moreover have "at_rest (mem s) K (Lit log_fmt) (fmt_of (log_pieces mo level me))"
    unfolding fmt_of_log(1) using fmt_of_log(2) by (simp add: at_rest_def)
  ultimately have "sprintf ?d (Lit log_fmt)
      [VInt 8, VPtr module, VPtr (Lit (ansiColors ! unat level)), VPtr msg] s =
      Some (int (length (log_head mo level me)),
        s\<lparr>mem := store_bytes (mem s) ?d (log_head mo level me @ [0])\<rparr>)"
    using sprintf_pieces [of s K "log_pieces mo level me"] args_match_log [OF strs level] d head
    by (simp add: out_of_log)
  then show ?thesis using log_buffer [OF nz, of ?d "mem s"] len by (auto simp: compose_log_def bind_eq_Some_conv)
qed

lemma str_arg_frame:
  assumes "console_frame L s s'" and "K \<inter> console_area L (fbCon s) = {}"
  shows "str_arg (mem s') K p u = str_arg (mem s) K p u"
proof -
  have "cstr (mem s') p u = cstr (mem s) p u" if "ptr_span p (Suc (length u)) \<subseteq> K"
    using that assms by (intro cstr_ptr_cong) (auto simp: console_frame_def)
  then show ?thesis by (auto simp: str_arg_def)
qed

text \<open>Sending the line to the debug port and to the screen.\<close>

lemma show_log:
  assumes lay: "log_layout L s" and rel: "term_rel L s t" and fits: "term_fits s text t"
    and str: "cstr (mem s) (Addr (log_str_at L)) text" and len: "length text < 256"
  shows "\<exists>s'. send_log L s = Some s' \<and>
    term_rel L s' (term_puts (unat (TTY_Width s)) text t) \<and>
    trace s' = trace s @ map (Out8 0xE9) text \<and> log_frame L s s'"
proof -
  let ?d = "log_str_at L" and ?s = "s\<lparr>trace := trace s @ map (Out8 0xE9) text\<rparr>"
  have co: "comout (Addr ?d) s = Some ?s" using comout_string [OF str] len by (simp add: debug_out_def)
  have "span ?d (Suc (length text)) \<inter> console_area L (fbCon ?s) = {}"
    using lay span_mono [of "Suc (length text)" 256 ?d] len by (auto simp: log_layout_def)
  moreover have "console_layout L ?s" using lay by (simp add: log_layout_def console_layout_def)
  moreover have "term_fits ?s text t" using fits term_fits_size [of ?s s] by simp
  ultimately obtain s' where s': "puts L (Addr ?d) ?s = Some (int (length text), s')"
      "term_rel L s' (term_puts (unat (TTY_Width s)) text t)" "same_screen ?s s'" "console_frame L ?s s'"
    using puts_terminal [of L ?s t "text" "Addr ?d"] rel str len by (auto simp: term_rel_trace)
  have "log_frame L s ?s" by (simp add: log_frame_def)
  then show ?thesis
    using co rel s' log_frame_trans [OF _ log_frame_screen [OF s'(3,4)]] by (auto simp: send_log_def term_rel_def same_screen_def)
qed

lemma log_line:
  assumes lay: "log_layout L s" and rel: "term_rel L s t"
    and strs: "str_arg (mem s) K module mo" "str_arg (mem s) K msg me"
    and K: "K \<inter> (console_area L (fbCon s) \<union> span (log_str_at L) 256) = {}"
    and level: "unat level < 6" and len: "length (log_text mo level me) < 256"
    and fits: "term_fits s (log_prefix t @ log_text mo level me) t"
  shows "\<exists>s'. log L module msg level s = Some s' \<and>
    term_rel L s' (term_puts (unat (TTY_Width s)) (log_prefix t @ log_text mo level me) t) \<and>
    trace s' = trace s @ map (Out8 0xE9) (log_text mo level me) \<and> log_frame L s s'"
proof -
  let ?text = "log_text mo level me" and ?d = "log_str_at L"
  let ?t = "term_puts (unat (TTY_Width s)) (log_prefix t) t"
  have f: "term_fits s (log_prefix t) t" "term_fits s ?text ?t" using fits by (simp_all add: term_fits_append)
  have cl: "console_layout L s" using lay by (simp add: log_layout_def)
  obtain s1 where s1: "(if TTY_CursorX s \<noteq> 0 then map_option snd (puts L (Lit [0x0D, 0x0A]) s) else Some s) = Some s1"
      "term_rel L s1 ?t" "same_screen s s1" "console_frame L s s1"
    using log_new_line [OF cl rel f(1)] by blast
  have fb: "fbCon s1 = fbCon s" "TTY_Width s1 = TTY_Width s" using s1(3) by (simp_all add: same_screen_def)
  let ?m = "store_bytes (mem s1) ?d (?text @ [0])"
  let ?s = "s1\<lparr>mem := ?m\<rparr>"
  have comp: "compose_log L module msg level s1 = Some ?s"
    using composed_log [of s1 K module mo msg me L level] str_arg_frame [OF s1(4)] strs K lay level len
    by (auto simp: log_layout_def)
  have out: "?m b = mem s1 b" if "b \<notin> span ?d 256" for b
    using that span_mono [of "Suc (length ?text)" 256 ?d] len by (intro store_bytes_frame) auto
  have "length (pending ?t) < 256"
    using f(2) by (auto simp: log_text_def log_head_def text_defs term_ok_def)
  moreover have disj: "span ?d 256 \<inter> console_area L (fbCon s1) = {}" using lay fb by (simp add: log_layout_def)
  ultimately have rel1: "term_rel L ?s ?t" using s1(2) out by (intro term_rel_mem)
  have "0 \<notin> set ?text" using strs level by (intro log_text_nonzero) (auto simp: str_arg_def cstr_def)
  then have "cstr (mem ?s) (Addr ?d) ?text" using len by (simp add: cstr_store_bytes)
  moreover have "log_layout L ?s"
    using lay cl s1(3) by (simp add: log_layout_def console_layout_def same_screen_def)
  moreover have "term_fits ?s ?text ?t" using f(2) term_fits_size [of ?s s] s1(3) by (simp add: same_screen_def)
  ultimately obtain s' where s': "send_log L ?s = Some s'"
      "term_rel L s' (term_puts (unat (TTY_Width ?s)) ?text ?t)"
      "trace s' = trace ?s @ map (Out8 0xE9) ?text" "log_frame L ?s s'"
    using show_log [OF _ rel1] len by blast
  have "log L module msg level s = Some s'" unfolding log_compose s1(1) by (simp add: comp s'(1))
  moreover have "log_frame L s1 ?s" using out by (auto simp: log_frame_def same_screen_def)
  ultimately show ?thesis
    using s'(2-4) log_frame_screen [OF s1(3,4)] s1(3) fb
    by (auto simp: term_puts_append same_screen_def intro: log_frame_trans)
qed

section \<open>A panic\<close>

definition panic_pieces :: "u8 list \<Rightarrow> piece list" where
  "panic_pieces me = map PChar (bytes ''Kernel Panic'' @ nl @ nl) @ [PStr me] @
     map PChar (bytes '' '' @ nl @ nl @ bytes ''SeshOS has been shutdown to prevent damage to your computer'')"

definition reg_pieces :: "string \<Rightarrow> u64 \<Rightarrow> piece list" where
  "reg_pieces name v = map PChar (nl @ bytes name @ bytes '': 0x'') @ [PHexLong v]"

definition reg_names :: "string list" where
  "reg_names = [''RAX'', ''RBX'', ''RCX'', ''RDX'', ''RDI'', ''RSI'', ''RIP'', ''CR2'']"

definition debug_pieces :: "u64 list \<Rightarrow> piece list" where
  "debug_pieces vs = map PChar (nl @ nl @ bytes ''Debug Info:'') @ concat (map2 reg_pieces reg_names vs)"

text \<open>The registers a panic shows.\<close>

definition shown_regs :: "memory \<Rightarrow> addr \<Rightarrow> u64 \<Rightarrow> u64 list" where
  "shown_regs m regs cr2 =
     map (regs_at m regs) [reg_rax, reg_rbx, reg_rcx, reg_rdx, reg_rdi, reg_rsi, reg_rip] @ [cr2]"

definition panic_text :: "u8 list \<Rightarrow> u64 list \<Rightarrow> u8 list" where
  "panic_text me vs = out_of (panic_pieces me) @ out_of (debug_pieces vs)"

lemma fmt_of_panic: "fmt_of (panic_pieces me) = panic_fmt" "0 \<notin> set panic_fmt"
  by (simp_all add: panic_pieces_def panic_fmt_def text_defs)

lemma reg_cells_disjoint:
  assumes "j < 22" "k < 22" "j \<noteq> k"
  shows "span (regs + 8 * of_nat j) 8 \<inter> span (regs + 8 * of_nat k) 8 = {}"
  using span_shift_disj [of "8 * j" 8 "8 * k" 8 regs] span_shift_disj [of "8 * k" 8 "8 * j" 8 regs] assms
  by (cases "j < k") (auto simp: Int_commute)

lemma set_regs_at:
  assumes "(k, v) \<in> set kvs" and "distinct (map fst kvs)" and "\<forall>j\<in>fst ` set kvs. j < 22"
  shows "regs_at (set_regs regs kvs m) regs k = v"
  unfolding regs_at_def set_regs_def
proof (rule c64.ld_fold_lookup)
  let ?at = "\<lambda>j. regs + 8 * of_nat j" and ?ps = "map (\<lambda>(k, v). (regs + 8 * of_nat k, v)) kvs"
  have k: "k < 22" using assms(1,3) by force
  show "?at k \<in> fst ` set ?ps" using assms(1) by force
  fix p assume "p \<in> set ?ps"
  then obtain j w where p: "p = (?at j, w)" "(j, w) \<in> set kvs" by auto
  then have j: "j < 22" using assms(3) by force
  show "snd p = v" if "fst p = ?at k"
  proof -
    have "j = k" using that p(1) reg_cells_disjoint [OF j k] span_nth [of 0 8 "?at j"] by auto
    then show ?thesis using assms(1,2) p eq_key_imp_eq_value by fastforce
  qed
  show "span (?at k) 8 \<inter> span (fst p) 8 = {}" if "fst p \<noteq> ?at k"
    using that p(1) reg_cells_disjoint [OF k j] by auto
qed

lemma set_regs_frame:
  assumes "b \<notin> span regs 176" and "\<forall>j\<in>fst ` set kvs. j < 22"
  shows "set_regs regs kvs m b = m b"
  unfolding set_regs_def
proof (rule c64.fold_st_frame)
  fix p assume "p \<in> set (map (\<lambda>(k, v). (regs + 8 * of_nat k, v)) kvs)"
  then obtain j where "fst p = regs + of_nat (8 * j)" "j < 22" using assms(2) by fastforce
  moreover have "span (regs + of_nat (8 * j)) 8 \<subseteq> span regs 176" using \<open>j < 22\<close> by (intro span_sub) simp
  ultimately show "b \<notin> span (fst p) 8" using assms(1) by auto
qed

lemma dumped_keys: "distinct (map fst (dumped cpu))" "\<forall>j\<in>fst ` set (dumped cpu). j < 22"
  by (simp_all add: dumped_def)

lemma DUMPREGS_frame: "b \<notin> span regs 176 \<Longrightarrow> DUMPREGS cpu regs m b = m b"
  unfolding DUMPREGS_def by (rule set_regs_frame [OF _ dumped_keys(2)])

text \<open>What a panic shows of a dump.\<close>

lemma shown_dump:
  "shown_regs (DUMPREGS cpu regs m) regs cr2 =
     [r_rax cpu, r_rbx cpu, r_rcx cpu, r_rdx cpu, r_rdi cpu, r_rsi cpu, r_rip cpu, cr2]"
proof -
  have at: "regs_at (DUMPREGS cpu regs m) regs k = v" if "(k, v) \<in> set (dumped cpu)" for k v
    unfolding DUMPREGS_def using that dumped_keys by (rule set_regs_at)
  show ?thesis
    using at [of 6 "r_rax cpu"] at [of 3 "r_rbx cpu"] at [of 5 "r_rcx cpu"] at [of 4 "r_rdx cpu"] at [of 0 "r_rdi cpu"]
      at [of 1 "r_rsi cpu"] at [of 17 "r_rip cpu"]
    by (simp add: shown_regs_def dumped_def)
qed

lemma length_shown_regs: "length (shown_regs m regs cr2) = 8"
  by (simp add: shown_regs_def)

lemma debug_pieces_8:
  "length vs = 8 \<Longrightarrow> fmt_of (debug_pieces vs) = debug_fmt \<and> args_match m K (debug_pieces vs) (map VInt vs)"
proof -
  assume "length vs = 8"
  then obtain a b c d e f g h where vs: "vs = [a, b, c, d, e, f, g, h]"
    by (auto simp: numeral_eq_Suc length_Suc_conv)
  have plain: "plain (nl @ nl @ bytes ''Debug Info:'')" "list_all (\<lambda>n. plain (nl @ bytes n @ bytes '': 0x'')) reg_names"
    by (simp_all add: plain_def text_defs reg_names_def)
  have "fmt_of (debug_pieces vs) = debug_fmt"
    by (simp add: vs debug_pieces_def reg_names_def reg_pieces_def debug_fmt_def text_defs)
  moreover have "args_match m K (debug_pieces vs) (map VInt vs)"
    using plain by (simp add: vs debug_pieces_def reg_names_def reg_pieces_def del: map_append)
  ultimately show ?thesis by blast
qed

lemma debug_fmt_nonzero: "0 \<notin> set debug_fmt"
  by (simp add: debug_fmt_def text_defs)

lemma args_match_panic: "str_arg m K p me \<Longrightarrow> args_match m K (panic_pieces me) [VPtr p]"
proof -
  assume p: "str_arg m K p me"
  have "plain (bytes ''Kernel Panic'' @ nl @ nl)" "plain (bytes '' '' @ nl @ nl @
      bytes ''SeshOS has been shutdown to prevent damage to your computer'')"
    by (simp_all add: plain_def text_defs)
  then show ?thesis using p by (simp add: panic_pieces_def del: map_append)
qed

lemma shown_regs_cong:
  assumes "\<And>b. b \<in> span regs 176 \<Longrightarrow> m' b = m b"
  shows "shown_regs m' regs cr2 = shown_regs m regs cr2"
proof -
  have "regs_at m' regs k = regs_at m regs k" if "k < 22" for k
  proof -
    have "span (regs + of_nat (8 * k)) 8 \<subseteq> span regs 176" using that by (intro span_sub) simp
    then have "load64 m' (regs + of_nat (8 * k)) = load64 m (regs + of_nat (8 * k))"
      using assms by (intro c64.ld_cong) auto
    then show ?thesis by (simp add: regs_at_def)
  qed
  then show ?thesis by (simp add: shown_regs_def)
qed

lemma shown_regs_frame:
  "console_frame L s s' \<Longrightarrow> span regs 176 \<inter> console_area L (fbCon s) = {} \<Longrightarrow>
     shown_regs (mem s') regs cr2 = shown_regs (mem s) regs cr2"
  by (intro shown_regs_cong) (auto simp: console_frame_def)

text \<open>The text of a panic fits any buffer of \<open>int\<close> size and holds no NUL.\<close>

lemma panic_text_ok:
  assumes "length vs = 8" "0 \<notin> set me" "length me < 1000"
  shows "0 \<notin> set (panic_text me vs)" "length (panic_text me vs) < 2 ^ 31"
proof -
  have len: "length (base_digits 16 (unat v)) \<le> 16" for v :: u64
    using base_digits_length [of 16 "unat v" 16] unsigned_less [of v] by simp
  obtain a b c d e f g h where vs: "vs = [a, b, c, d, e, f, g, h]"
    using assms(1) by (auto simp: numeral_eq_Suc length_Suc_conv)
  note pt = panic_text_def panic_pieces_def debug_pieces_def reg_names_def reg_pieces_def text_defs int_out_def vs
  show "0 \<notin> set (panic_text me vs)" using assms(2) base_digits_nonzero [of 16] by (simp add: pt)
  have "length (panic_text me vs) \<le> 300 + length me"
    using len [of a] len [of b] len [of c] len [of d] len [of e] len [of f] len [of g] len [of h] by (simp add: pt)
  then show "length (panic_text me vs) < 2 ^ 31" using assms(3) by simp
qed

lemma panic_report:
  assumes lay: "console_layout L s" and rel: "term_rel L s t" and msg: "str_arg (mem s) K msg me"
    and K: "K \<inter> console_area L (fbCon s) = {}"
    and regs: "regs \<noteq> 0" "span regs 176 \<inter> console_area L (fbCon s) = {}"
    and fits: "term_fits s (panic_text me (shown_regs (mem s) regs cr2)) t"
    and out: "0 \<notin> set (panic_text me (shown_regs (mem s) regs cr2))"
      "length (panic_text me (shown_regs (mem s) regs cr2)) < 2 ^ 31"
  shows "\<exists>s'. panic_screen L cr2 msg regs s = Some s' \<and>
    term_rel L s' (term_puts (unat (TTY_Width s)) (panic_text me (shown_regs (mem s) regs cr2)) t) \<and>
    same_screen s s' \<and> console_frame L s s'"
proof -
  let ?vs = "shown_regs (mem s) regs cr2" and ?w = "unat (TTY_Width s)"
  let ?o1 = "out_of (panic_pieces me)" and ?o2 = "out_of (debug_pieces ?vs)"
  let ?t = "term_puts ?w ?o1 t"
  have f: "term_fits s ?o1 t" "term_fits s ?o2 ?t"
    using fits by (simp_all add: panic_text_def term_fits_append)
  obtain r s1 where s1: "printf L (Lit panic_fmt) [VPtr msg] s = Some (r, s1)" "term_rel L s1 ?t"
      "same_screen s s1" "console_frame L s s1"
    using printf_pieces [OF args_match_panic [OF msg] _ lay rel f(1) _ _ K, of "Lit panic_fmt"] out
      fmt_of_panic by (auto simp: panic_text_def at_rest_def)
  have vs: "shown_regs (mem s1) regs cr2 = ?vs" by (rule shown_regs_frame [OF s1(4) regs(2)])
  have dp: "fmt_of (debug_pieces ?vs) = debug_fmt" "args_match (mem s1) {} (debug_pieces ?vs) (map VInt ?vs)"
    using debug_pieces_8 [OF length_shown_regs] by auto
  have "term_fits s1 ?o2 ?t" "unat (TTY_Width s1) = ?w"
    using f(2) term_fits_cong [OF s1(3)] s1(3) by (simp_all add: same_screen_def)
  then obtain r' s' where s': "printf L (Lit debug_fmt) (map VInt ?vs) s1 = Some (r', s')"
      "term_rel L s' (term_puts ?w ?o2 ?t)" "same_screen s1 s'" "console_frame L s1 s'"
    using printf_pieces [OF dp(2), of "Lit debug_fmt" L ?t] dp(1) debug_fmt_nonzero s1(2) out
      console_layout_cong [OF s1(3)] lay by (auto simp: panic_text_def at_rest_def)
  have "panic_screen L cr2 msg regs s = Some s'"
    using s1(1) s'(1) regs(1) vs by (simp add: panic_screen_def shown_regs_def)
  then show ?thesis
    using s'(2-4) s1(3,4) same_screen_trans console_frame_trans
    by (auto simp: panic_text_def term_puts_append)
qed

section \<open>The colours of a log line\<close>

lemma term_puts_plain:
  assumes "0x1B \<notin> set cs" and "t_esc t = None"
  shows "t_fg (term_puts w cs t) = t_fg t \<and> t_bg (term_puts w cs t) = t_bg t \<and>
    t_bold (term_puts w cs t) = t_bold t \<and> t_esc (term_puts w cs t) = None"
  using assms
proof (induction cs arbitrary: t)
  case Nil then show ?case by (simp add: term_puts_def)
next
  case (Cons c cs)
  have put: "t_fg (term_put w c t) = t_fg t" "t_bg (term_put w c t) = t_bg t"
    "t_bold (term_put w c t) = t_bold t" "t_esc (term_put w c t) = None"
    using Cons.prems by (auto simp: term_put_def term_advance_def)
  have "term_puts w (c # cs) t = term_puts w cs (term_put w c t)" by (simp add: term_puts_def)
  then show ?case using Cons.IH [of "term_put w c t"] Cons.prems put by simp
qed

text \<open>A complete escape sequence \<open>ESC [ code m\<close> changes the attributes and nothing else.\<close>

lemma term_puts_code:
  assumes "t_esc t = None" and "\<forall>c\<in>set code. 0x30 \<le> sint c \<and> sint c \<le> 0x3B"
  shows "term_puts w (0x1B # 0x5B # code @ [0x6D]) t = term_sgr (attr_code code) t"
proof -
  have ne: "c \<noteq> 0x1B \<and> c \<noteq> 0x6D \<and> c \<noteq> 0x5B \<and> \<not> is_final c" if "c \<in> set code" for c
    using assms(2) that by (auto simp: is_final_def)
  have collect: "term_puts w cs (t\<lparr>t_esc := Some e\<rparr>) = t\<lparr>t_esc := Some (e @ cs)\<rparr>"
    if "set cs \<subseteq> set code" for cs e
    using that
  proof (induction cs arbitrary: e)
    case (Cons c cs)
    then have "term_put w c (t\<lparr>t_esc := Some e\<rparr>) = t\<lparr>t_esc := Some (e @ [c])\<rparr>"
      using ne [of c] by (simp add: term_put_def term_esc_def pending_def)
    then show ?case using Cons.IH [of "e @ [c]"] Cons.prems by (simp add: term_puts_def)
  qed (simp add: term_puts_def)
  have bracket: "term_put w 0x5B (term_put w 0x1B t) = t\<lparr>t_esc := Some [0x5B]\<rparr>"
    using assms(1) by (simp add: term_put_def term_esc_def pending_def is_final_def esc_code_def)
  have t: "t\<lparr>t_esc := None\<rparr> = t" using assms(1) by simp
  have "takeWhile (\<lambda>c. c \<noteq> 0x6D) (code @ [0x6D]) = code"
    using ne by (simp add: takeWhile_append takeWhile_eq_all_conv)
  then have "esc_code ((0x5B # code) @ [0x6D]) = Some code" by (simp add: esc_code_def)
  then have final: "term_put w 0x6D (t\<lparr>t_esc := Some (0x5B # code)\<rparr>) = term_sgr (attr_code code) t"
    using t by (simp add: term_put_def term_esc_def pending_def is_final_def)
  have "term_puts w (0x1B # 0x5B # code @ [0x6D]) t =
      term_put w 0x6D (term_puts w code (term_put w 0x5B (term_put w 0x1B t)))"
    by (simp add: term_puts_def)
  then show ?thesis using collect [of code "[0x5B]"] bracket final by simp
qed

text \<open>The line up to the message.\<close>

definition log_start :: "u8 list \<Rightarrow> u8 \<Rightarrow> u8 list" where
  "log_start module level =
     esc_seq ''[1m'' @ esc_seq ''[33m['' @ esc_seq ''[36m'' @ module @ replicate (8 - length module) 0x20 @
     esc_seq ''[1m'' @ esc_seq ''[33m]'' @ (ansiColors ! unat level) @ [0x20]"

lemma log_head_start: "log_head module level msg = log_start module level @ msg"
  by (simp add: log_head_def log_start_def)

lemma esc_codes:
  assumes "t_esc t = None"
  shows "term_puts w (esc_seq ''[0m'') t = term_sgr 0 t" "term_puts w (esc_seq ''[1m'') t = term_sgr 1 t"
    "term_puts w (esc_seq ''[31m'') t = term_sgr 31 t"
    "term_puts w (esc_seq ''[33m'') t = term_sgr 33 t" "term_puts w (esc_seq ''[36m'') t = term_sgr 36 t"
    "term_puts w (esc_seq ''[37m'') t = term_sgr 37 t" "term_puts w (esc_seq ''[0;31m'') t = term_sgr 1131 t"
  using term_puts_code [OF assms, of "[0x30]" w] term_puts_code [OF assms, of "[0x31]" w]
    term_puts_code [OF assms, of "[0x33, 0x31]" w] term_puts_code [OF assms, of "[0x33, 0x33]" w]
    term_puts_code [OF assms, of "[0x33, 0x36]" w] term_puts_code [OF assms, of "[0x33, 0x37]" w]
    term_puts_code [OF assms, of "[0x30, 0x3B, 0x33, 0x31]" w]
  by (simp_all add: text_defs attr_code_def atoi_step_def)

lemma log_start_codes:
  "log_start module level = esc_seq ''[1m'' @ esc_seq ''[33m'' @ [0x5B] @ esc_seq ''[36m'' @
     (module @ replicate (8 - length module) 0x20) @ esc_seq ''[1m'' @ esc_seq ''[33m'' @ [0x5D] @
     (ansiColors ! unat level) @ [0x20]"
  by (simp add: log_start_def text_defs)

lemma log_start_attributes:
  assumes "t_esc t = None" and "0x1B \<notin> set module"
  obtains t' where "term_puts w (log_start module level) t = term_puts w ((ansiColors ! unat level) @ [0x20]) t'"
    "t_esc t' = None" "t_bold t'" "t_fg t' = COLOR_YELLOW"
proof -
  define ms where "ms = module @ replicate (8 - length module) 0x20"
  define t1 where "t1 = term_puts w [0x5B] (term_sgr 33 (term_sgr 1 t))"
  define t2 where "t2 = term_puts w ms (term_sgr 36 t1)"
  define t3 where "t3 = term_puts w [0x5D] (term_sgr 33 (term_sgr 1 t2))"
  have e1: "t_esc t1 = None" using assms(1) term_puts_plain [of "[0x5B]" "term_sgr 33 (term_sgr 1 t)" w]
    by (simp add: t1_def)
  have e2: "t_esc t2 = None"
    using assms(2) term_puts_plain [of ms "term_sgr 36 t1" w] e1 by (simp add: t2_def ms_def)
  have e3: "t_esc t3 = None \<and> t_bold t3 \<and> t_fg t3 = COLOR_YELLOW"
    using term_puts_plain [of "[0x5D]" "term_sgr 33 (term_sgr 1 t2)" w] e2
    by (simp add: t3_def term_sgr_def palette_def)
  have "term_puts w (log_start module level) t = term_puts w ((ansiColors ! unat level) @ [0x20]) t3"
    unfolding log_start_codes ms_def [symmetric] term_puts_append
    using assms(1) e1 e2 by (simp add: esc_codes flip: t1_def t2_def t3_def)
  then show thesis using that e3 by blast
qed

lemma log_colours_lemma:
  assumes esc: "t_esc t = None" and module: "0x1B \<notin> set module" and level: "unat level < 6"
  shows "t_fg (term_puts w (log_start module level) t) =
      [COLOR_LGRAY, COLOR_LGRAY, COLOR_LGRAY, COLOR_YELLOW, COLOR_YELLOW, COLOR_RED] ! unat level \<and>
    t_bold (term_puts w (log_start module level) t) = (2 \<le> unat level) \<and>
    t_esc (term_puts w (log_start module level) t) = None"
proof -
  obtain t' where t': "term_puts w (log_start module level) t = term_puts w ((ansiColors ! unat level) @ [0x20]) t'"
    "t_esc t' = None" "t_bold t'" "t_fg t' = COLOR_YELLOW"
    using log_start_attributes [OF esc module] .
  have fatal: "esc_seq ''[31m !!! '' = esc_seq ''[31m'' @ bytes '' !!! ''" by (simp add: text_defs)
  have "unat level \<in> {0, 1, 2, 3, 4, 5}" using level by auto
  then show ?thesis
    unfolding t'(1) term_puts_append using t'(2-4)
    by (auto simp: ansiColors_def esc_codes term_puts_plain fatal term_puts_append term_sgr_def palette_def bytes_def)
qed

section \<open>Properties\<close>

text \<open>A screen of 80 by 25 characters, and the terminal it shows.\<close>

definition console25 :: console where
  "console25 = console0\<lparr>TTY_Width := 80, TTY_Height := 25,
     fbCon := \<lparr>fb_width = 640, fb_height = 400, fb_mode = FB_MODE_RGBA, fb_ptr = 0x800000000\<rparr>\<rparr>"

definition term0 :: terminal where
  "term0 = \<lparr>t_x = 0, t_y = 0, t_fg = COLOR_LGRAY, t_bg = COLOR_BLACK, t_bold = False, t_esc = None\<rparr>"

lemma console25_size: "unat (TTY_Width console25) = 80" "unat (TTY_Height console25) = 25"
  by (simp_all add: console25_def)

lemma console25_rel: "term_rel image0 console25 term0"
  by (simp add: term_rel_def console25_def console0_def term0_def esc_text_def pending_def)

lemma console25_bytes: "fb_bytes (fbCon console25) = span 0x800000000 1024000"
  by (simp add: fb_bytes_def fb_area_def console25_def)

lemma console25_layout: "log_layout image0 console25"
proof -
  have "span 0x800000000 1024000 \<inter> span (0x101000 :: addr) 256 = {}" by (rule span_disjI') simp_all
  then have "console_layout image0 console25"
    using image0_layout console25_bytes
    by (simp add: console_layout_def) (simp add: console25_def image0_def fb_ok_def fb_area_def)
  moreover have "span (0x113000 :: addr) 256 \<inter> span 0x800000000 1024000 = {}" by (rule span_disjI) simp_all
  moreover have "span (0x113000 :: addr) 256 \<inter> span 0x101000 256 = {}" by (rule span_disjI') simp_all
  moreover have "span (0x113000 :: addr) 256 \<inter> span 0x111000 256 = {}" by (rule span_disjI') simp_all
  ultimately show ?thesis
    unfolding log_layout_def console_area_def console25_bytes by (simp add: image0_def Int_Un_distrib)
qed

lemmas term_eval = term_put_def term_esc_def term_advance_def pending_def term_ok_def is_final_def esc_code_def

text \<open>
  C8: A log line: \<open>log\<close> starts a new line when the cursor is not at the start of one, composes
  \<open>[module] message\<close> with its colours in its buffer, sends the line to the debug port once and shows it on
  the terminal; nothing but the console and the buffer changes. The composed line must be shorter
  than the buffer (\<open>sprintf\<close> and \<open>strcat\<close> do not check) and fit on the screen.
\<close>

theorem log_shows_line:
  assumes lay: "log_layout L s" and rel: "term_rel L s t"
    and strs: "str_arg (mem s) K module mo" "str_arg (mem s) K msg me"
    and K: "K \<inter> (console_area L (fbCon s) \<union> span (log_str_at L) 256) = {}"
    and level: "unat level < 6" and len: "length (log_text mo level me) < 256"
    and fits: "term_fits s (log_prefix t @ log_text mo level me) t"
  shows "\<exists>s'. log L module msg level s = Some s' \<and>
    term_rel L s' (term_puts (unat (TTY_Width s)) (log_prefix t @ log_text mo level me) t) \<and>
    trace s' = trace s @ map (Out8 0xE9) (log_text mo level me) \<and> log_frame L s s'"
  using assms by (rule log_line)

theorem log_shows_line_witness:
  "\<exists>s'. log image0 (lit ''BOOTDTCT'') (lit ''ok'') LOGLEVEL_WARN console25 = Some s' \<and>
     sent 0xE9 (trace s') = log_text (bytes ''BOOTDTCT'') LOGLEVEL_WARN (bytes ''ok'')"
proof -
  have lits: "lit ''BOOTDTCT'' = Lit (bytes ''BOOTDTCT'')" "lit ''ok'' = Lit (bytes ''ok'')"
    by (simp_all add: lit_def bytes_def)
  have args: "str_arg m {} (Lit (bytes ''BOOTDTCT'')) (bytes ''BOOTDTCT'')" "str_arg m {} (Lit (bytes ''ok'')) (bytes ''ok'')" for m
    by (simp_all add: str_arg_def bytes_def)
  have fits: "term_fits console25 (log_prefix term0 @ log_text (bytes ''BOOTDTCT'') LOGLEVEL_WARN (bytes ''ok'')) term0"
    by (simp add: log_prefix_def log_text_def log_head_def log_tail_def text_defs ansiColors_def LOGLEVEL_defs
        term_eval console25_size term0_def)
  have "length (log_text (bytes ''BOOTDTCT'') LOGLEVEL_WARN (bytes ''ok'')) < 256" "unat LOGLEVEL_WARN < 6"
    by (simp_all add: log_text_def log_head_def log_tail_def text_defs ansiColors_def LOGLEVEL_defs)
  then obtain s' where "log image0 (lit ''BOOTDTCT'') (lit ''ok'') LOGLEVEL_WARN console25 = Some s'"
      "trace s' = trace console25 @ map (Out8 0xE9) (log_text (bytes ''BOOTDTCT'') LOGLEVEL_WARN (bytes ''ok''))"
    unfolding lits using log_shows_line [OF console25_layout console25_rel args _ _ _ fits] by auto
  then show ?thesis by (simp add: console25_def console0_def)
qed

text \<open>
  The message of a log line is light grey for the levels up to INFO, yellow for WARN, red for FATAL;
  an ERROR keeps the yellow of the bracket, since \<open>ESC[0;31m\<close> is not one of the codes the console
  knows.
\<close>

theorem log_colours:
  assumes esc: "t_esc t = None" and module: "0x1B \<notin> set module" and level: "unat level < 6"
  shows "t_fg (term_puts w (log_start module level) t) =
      [COLOR_LGRAY, COLOR_LGRAY, COLOR_LGRAY, COLOR_YELLOW, COLOR_YELLOW, COLOR_RED] ! unat level \<and>
    t_bold (term_puts w (log_start module level) t) = (2 \<le> unat level) \<and>
    t_esc (term_puts w (log_start module level) t) = None"
  using assms by (rule log_colours_lemma)

theorem log_colours_witness:
  "t_fg (term_puts 80 (log_start (bytes ''FBCON'') LOGLEVEL_ERROR) term0) = COLOR_YELLOW"
  using log_colours [of term0 "bytes ''FBCON''" LOGLEVEL_ERROR 80]
  by (simp add: term0_def bytes_def LOGLEVEL_defs)

text \<open>
  C16: A panic shows its message and, when the handler passed registers, the values of RAX, RBX, RCX,
  RDX, RDI, RSI, RIP and CR2 in hexadecimal, changes nothing but the console, and never returns.
\<close>

theorem panic_reports:
  assumes lay: "console_layout L s" and rel: "term_rel L s t" and msg: "str_arg (mem s) K msg me"
    and K: "K \<inter> console_area L (fbCon s) = {}"
    and regs: "regs \<noteq> 0" "span regs 176 \<inter> console_area L (fbCon s) = {}"
    and fits: "term_fits s (panic_text me (shown_regs (mem s) regs cr2)) t"
    and out: "0 \<notin> set (panic_text me (shown_regs (mem s) regs cr2))"
      "length (panic_text me (shown_regs (mem s) regs cr2)) < 2 ^ 31"
  shows "panic L cr2 msg regs s = None \<and>
    (\<exists>s'. panic_screen L cr2 msg regs s = Some s' \<and>
      term_rel L s' (term_puts (unat (TTY_Width s)) (panic_text me (shown_regs (mem s) regs cr2)) t) \<and>
      same_screen s s' \<and> console_frame L s s')"
  using panic_never_returns panic_report [OF assms] by blast

theorem panic_reports_witness:
  "\<exists>s'. panic_screen image0 0xABC (lit ''x'') 0x200000 console25 = Some s' \<and> TTY_CursorY s' = 14"
proof -
  have m: "mem console25 = (\<lambda>_. 0)" by (simp add: console25_def console0_def)
  have vs: "shown_regs (mem console25) 0x200000 0xABC = [0, 0, 0, 0, 0, 0, 0, 0xABC]"
    unfolding m by (simp add: shown_regs_def regs_at_def load64_def mem_eval)
  let ?out = "panic_text (bytes ''x'') [0, 0, 0, 0, 0, 0, 0, 0xABC]"
  note pt = panic_text_def panic_pieces_def debug_pieces_def reg_names_def reg_pieces_def text_defs
    int_out_def base_digits.simps upper_digits_def
  have run: "term_fits console25 ?out term0" "0 \<notin> set ?out" "length ?out < 2 ^ 31"
    by (simp_all add: pt term_eval console25_size term0_def)
  have y: "t_y (term_puts 80 ?out term0) = 14"
    by (simp add: pt term_eval term0_def term_puts_def)
  have "span (0x200000 :: addr) 176 \<inter> span 0x800000000 1024000 = {}" by (rule span_disjI) simp_all
  moreover have "span (0x200000 :: addr) 176 \<inter> span 0x101000 256 = {}" by (rule span_disjI') simp_all
  moreover have "span (0x200000 :: addr) 176 \<inter> span 0x111000 256 = {}" by (rule span_disjI') simp_all
  ultimately have area: "span 0x200000 176 \<inter> console_area image0 (fbCon console25) = {}"
    unfolding console_area_def console25_bytes by (simp add: image0_def Int_Un_distrib)
  have lay: "console_layout image0 console25" using console25_layout by (simp add: log_layout_def)
  have "str_arg (mem console25) {} (lit ''x'') (bytes ''x'')" by (simp add: str_arg_def lit_def bytes_def)
  then obtain s' where s': "panic_screen image0 0xABC (lit ''x'') 0x200000 console25 = Some s'"
      "term_rel image0 s' (term_puts (unat (TTY_Width console25)) ?out term0)"
    using panic_reports [OF lay console25_rel _ _ _ area, of "{}" "lit ''x''" "bytes ''x''" "0xABC"] run
    unfolding vs by auto
  then have "unat (TTY_CursorY s') = unat (14 :: u16)" using y by (simp add: term_rel_def console25_size)
  then show ?thesis using s'(1) unfolding word_unat_eq_iff by blast
qed

end
