(* ===== verification/Interrupts.thy ===== *)
theory Interrupts
  imports Keyboard Log
begin

text \<open>
  Descriptor tables and interrupts: \<open>kernel/gdt\<close>, \<open>kernel/idt/idt.c\<close> and \<open>kernel/idt/interrupts.c\<close>.
  The state adds the processor's table registers, its interrupt flag and the global \<open>idt\<close>; the
  table itself, \<open>idt_page\<close>, lies in the memory.
\<close>

record interrupts = keyboard +
  idt_limit :: u16
  idt_offset :: u64
  idtr :: "u16 \<times> u64"
  gdtr :: "u16 \<times> u64"
  cs :: u16
  data_selector :: u16
  interrupt_flag :: bool

section \<open>The global descriptor table\<close>

record GDTEntry =
  Limit0 :: u16
  Base0 :: u16
  Base1 :: u8
  AccessByte :: u8
  Limit1_Flags :: u8
  Base2 :: u8

definition GDT_entry :: "u8 \<Rightarrow> u8 \<Rightarrow> GDTEntry" where
  "GDT_entry access flags =
     \<lparr>Limit0 = 0, Base0 = 0, Base1 = 0, AccessByte = access, Limit1_Flags = flags, Base2 = 0\<rparr>"

definition DefaultGDT :: "GDTEntry list" where
  "DefaultGDT = [GDT_entry 0x00 0x00, GDT_entry 0x9A 0xA0, GDT_entry 0x92 0xA0,
     GDT_entry 0x00 0x00, GDT_entry 0x9A 0xA0, GDT_entry 0x92 0xA0]"

text \<open>The assembly of \<open>gdtasm.asm\<close>: load the register, reload the segments.\<close>

definition LoadGDT :: "u16 \<Rightarrow> u64 \<Rightarrow> 'a interrupts_scheme \<Rightarrow> 'a interrupts_scheme" where
  "LoadGDT sz offset s = s\<lparr>gdtr := (sz, offset), data_selector := 0x10, cs := 0x08\<rparr>"

section \<open>The interrupt descriptor table\<close>

definition sizeof_InterruptEntry :: u64 where "sizeof_InterruptEntry = 16"

definition int_ta_gate :: u8 where "int_ta_gate = 0x8E"

text \<open>The fields of an entry: \<open>offset_0\<close> at 0, \<open>selector\<close> at 2, \<open>type_attribute\<close> at 5, \<open>offset_1\<close> at 6, \<open>offset_2\<close> at 8.\<close>

definition set_interrupt_offset :: "addr \<Rightarrow> u64 \<Rightarrow> memory \<Rightarrow> memory" where
  "set_interrupt_offset int_ptr offset m =
     (let m = store16 m int_ptr (ucast (offset AND 0xFFFF));
          m = store16 m (int_ptr + 6) (ucast (drop_bit 16 (offset AND 0xFFFF0000)))
      in store32 m (int_ptr + 8) (ucast (drop_bit 32 (offset AND 0xFFFFFFFF00000000))))"

definition get_interrupt_offset :: "memory \<Rightarrow> addr \<Rightarrow> u64" where
  "get_interrupt_offset m int_ptr =
     (let offset = 0;
          offset = offset OR ucast (load16 m int_ptr);
          offset = offset OR push_bit 16 (ucast (load16 m (int_ptr + 6)))
      in offset OR push_bit 32 (ucast (load32 m (int_ptr + 8))))"

definition CreateEntry :: "int \<Rightarrow> u64 \<Rightarrow> 'a interrupts_scheme \<Rightarrow> 'a interrupts_scheme" where
  "CreateEntry interruptNum Handler s =
     (let entry = idt_offset s + of_int interruptNum * sizeof_InterruptEntry;
          m = set_interrupt_offset entry Handler (mem s);
          m = m(entry + 5 := int_ta_gate)
      in s\<lparr>mem := store16 m (entry + 2) 0x08\<rparr>)"

section \<open>The interrupt controller\<close>

definition mastr_pic_cmnd_port :: u16 where "mastr_pic_cmnd_port = 0x20"
definition slave_pic_cmnd_port :: u16 where "slave_pic_cmnd_port = 0xA0"
definition mastr_pic_data_port :: u16 where "mastr_pic_data_port = 0x21"
definition slave_pic_data_port :: u16 where "slave_pic_data_port = 0xA1"
definition PIC_EOI :: u8 where "PIC_EOI = 0x20"
definition icw1_init :: u8 where "icw1_init = 0x10"
definition icw1_icw4 :: u8 where "icw1_icw4 = 0x01"
definition icw4_8086 :: u8 where "icw4_8086 = 0x01"

lemmas pic_defs = mastr_pic_cmnd_port_def slave_pic_cmnd_port_def mastr_pic_data_port_def
  slave_pic_data_port_def PIC_EOI_def icw1_init_def icw1_icw4_def icw4_8086_def

definition remap_interrupts_for_io :: "device \<Rightarrow> 'a machine_scheme \<Rightarrow> 'a machine_scheme" where
  "remap_interrupts_for_io dev s =
     (let (mastr_data_value, s) = inb dev mastr_pic_data_port s; s = io_wait s;
          (slave_data_value, s) = inb dev slave_pic_data_port s; s = io_wait s;
          s = outb mastr_pic_cmnd_port (icw1_init OR icw1_icw4) s; s = io_wait s;
          s = outb slave_pic_cmnd_port (icw1_init OR icw1_icw4) s; s = io_wait s;
          s = outb mastr_pic_data_port 0x20 s; s = io_wait s;
          s = outb slave_pic_data_port 0x28 s; s = io_wait s;
          s = outb mastr_pic_data_port 4 s; s = io_wait s;
          s = outb slave_pic_data_port 2 s; s = io_wait s;
          s = outb mastr_pic_data_port icw4_8086 s; s = io_wait s;
          s = outb slave_pic_data_port icw4_8086 s; s = io_wait s;
          s = outb mastr_pic_data_port mastr_data_value s; s = io_wait s;
          s = outb slave_pic_data_port slave_data_value s
      in io_wait s)"

definition end_interrupts_for_mastr_io :: "'a machine_scheme \<Rightarrow> 'a machine_scheme" where
  "end_interrupts_for_mastr_io s = outb mastr_pic_cmnd_port PIC_EOI s"

definition end_interrupts_for_slave_io :: "'a machine_scheme \<Rightarrow> 'a machine_scheme" where
  "end_interrupts_for_slave_io s = end_interrupts_for_mastr_io (outb slave_pic_cmnd_port PIC_EOI s)"

definition PIC_EndMaster :: "'a machine_scheme \<Rightarrow> 'a machine_scheme" where
  "PIC_EndMaster s = outb mastr_pic_cmnd_port PIC_EOI s"

definition PIC_EndSlave :: "'a machine_scheme \<Rightarrow> 'a machine_scheme" where
  "PIC_EndSlave s = outb mastr_pic_cmnd_port PIC_EOI (outb slave_pic_cmnd_port PIC_EOI s)"

text \<open>\<open>create_idt\<close>, with the instructions \<open>lidt\<close> and \<open>sti\<close> as updates of the processor's state.\<close>

definition create_idt :: "image \<Rightarrow> device \<Rightarrow> 'a interrupts_scheme \<Rightarrow> 'a interrupts_scheme" where
  "create_idt L dev s =
     (let s = s\<lparr>idt_limit := 0x0FFF, idt_offset := idt_page_at L\<rparr>;
          s = CreateEntry 0xE (PageFault_Handler_at L) s;
          s = CreateEntry 0x0 (DivideByZero_Handler_at L) s;
          s = CreateEntry 0x8 (DoubleFault_Handler_at L) s;
          s = CreateEntry 0xD (GPFault_Handler_at L) s;
          s = CreateEntry 0x21 (Keyboard_Handler_at L) s;
          s = CreateEntry 0x69 (Test_Handler_at L) s;
          s = s\<lparr>idtr := (idt_limit s, idt_offset s)\<rparr>;
          s = remap_interrupts_for_io dev s;
          s = outb mastr_pic_data_port 0xF9 s;
          s = outb slave_pic_data_port 0xEF s
      in s\<lparr>interrupt_flag := True\<rparr>)"

section \<open>The handlers\<close>

definition DivideByZero_Handler :: "image \<Rightarrow> u64 \<Rightarrow> addr \<Rightarrow> 'a console_scheme \<Rightarrow> 'a console_scheme option" where
  "DivideByZero_Handler L cr2 frame s = panic L cr2 (lit ''You can't divide by 0 silly :P'') frame s"

definition PageFault_Handler :: "image \<Rightarrow> u64 \<Rightarrow> addr \<Rightarrow> 'a console_scheme \<Rightarrow> 'a console_scheme option" where
  "PageFault_Handler L cr2 frame s = panic L cr2 (lit ''Page Fault Detected'') frame s"

definition DoubleFault_Handler :: "image \<Rightarrow> u64 \<Rightarrow> addr \<Rightarrow> 'a console_scheme \<Rightarrow> 'a console_scheme option" where
  "DoubleFault_Handler L cr2 frame s = panic L cr2 (lit ''Double Fault Detected'') frame s"

definition GPFault_Handler :: "image \<Rightarrow> u64 \<Rightarrow> addr \<Rightarrow> 'a console_scheme \<Rightarrow> 'a console_scheme option" where
  "GPFault_Handler L cr2 frame s = panic L cr2 (lit ''General Protection Fault Detected'') frame s"

definition Keyboard_Handler :: "image \<Rightarrow> device \<Rightarrow> 'a keyboard_scheme \<Rightarrow> 'a keyboard_scheme option" where
  "Keyboard_Handler L dev s =
     (let (scancode, s) = inb dev 0x60 s in map_option PIC_EndMaster (HandleKeyboard L scancode s))"

definition Test_Handler :: "image \<Rightarrow> 'a console_scheme \<Rightarrow> 'a console_scheme option" where
  "Test_Handler L s = map_option snd (printf L (Lit (bytes ''NICE'' @ nl)) [] s)"

section \<open>Entries\<close>

text \<open>The cells an entry consists of, byte by byte.\<close>

lemma store16_bytes: "store16 m a v = m(a := ucast v, a + 1 := ucast (drop_bit 8 v))"
  by (simp add: store16_def eval_nat_numeral)

lemma store32_bytes:
  "store32 m a v = m(a := ucast v, a + 1 := ucast (drop_bit 8 v), a + 2 := ucast (drop_bit 16 v),
     a + 3 := ucast (drop_bit 24 v))"
  by (simp add: store32_def eval_nat_numeral drop_bit_drop_bit add.commute [of _ a])

lemma load16_bytes: "load16 m a = le_word [m a, m (a + 1)]"
  by (simp add: load16_def eval_nat_numeral)

lemma load32_bytes: "load32 m a = le_word [m a, m (a + 1), m (a + 2), m (a + 3)]"
  by (simp add: load32_def eval_nat_numeral add.commute [of _ a])

lemma le_word_16: "le_word [ucast v, ucast (drop_bit 8 v)] = (v :: u16)"
  using le_word_le_bytes_id [of 2 v] by (simp add: eval_nat_numeral del: le_word.simps)

lemma le_word_32: "le_word [ucast v, ucast (drop_bit 8 v), ucast (drop_bit 16 v), ucast (drop_bit 24 v)] = (v :: u32)"
  using le_word_le_bytes_id [of 4 v] by (simp add: eval_nat_numeral drop_bit_drop_bit del: le_word.simps)

definition gate_offset :: "u64 \<Rightarrow> u16 \<times> u16 \<times> u32" where
  "gate_offset h = (ucast (h AND 0xFFFF), ucast (drop_bit 16 (h AND 0xFFFF0000)),
     ucast (drop_bit 32 (h AND 0xFFFFFFFF00000000)))"

lemma offset_parts:
  "(ucast (ucast (h AND 0xFFFF) :: u16) OR push_bit 16 (ucast (ucast (drop_bit 16 (h AND 0xFFFF0000)) :: u16)))
     OR push_bit 32 (ucast (ucast (drop_bit 32 (h AND 0xFFFFFFFF00000000)) :: u32)) = (h :: u64)"
proof -
  have m: "(0xFFFF :: u64) = mask 16" "(0xFFFF0000 :: u64) = push_bit 16 (mask 16)"
    "(0xFFFFFFFF00000000 :: u64) = push_bit 32 (mask 32)"
    by (simp_all add: mask_eq_exp_minus_1 push_bit_eq_mult)
  let ?x = "((ucast (ucast (h AND mask 16) :: u16) OR push_bit 16 (ucast (ucast (drop_bit 16 (h AND push_bit 16 (mask 16))) :: u16)))
     OR push_bit 32 (ucast (ucast (drop_bit 32 (h AND push_bit 32 (mask 32))) :: u32))) :: u64"
  have "bit ?x n = bit h n" if "n < 64" for n
  proof -
    consider "n < 16" | "16 \<le> n" "n < 32" | "32 + (n - 32) = n" "\<not> n < 32" using that by fastforce
    then show ?thesis by cases (use that in \<open>auto simp: bit_simps\<close>)
  qed
  then show ?thesis unfolding m by (intro bit_eqI) simp
qed

text \<open>A gate: what the processor reads from the sixteen bytes of an entry.\<close>

definition gate_at :: "memory \<Rightarrow> addr \<Rightarrow> u64 \<Rightarrow> bool" where
  "gate_at m a h \<longleftrightarrow> get_interrupt_offset m a = h \<and> load16 m (a + 2) = 0x08 \<and> m (a + 5) = int_ta_gate"

lemma get_set_offset: "get_interrupt_offset (set_interrupt_offset a h m) a = h"
proof -
  have "load16 (set_interrupt_offset a h m) a = ucast (h AND 0xFFFF)"
    "load16 (set_interrupt_offset a h m) (a + 6) = ucast (drop_bit 16 (h AND 0xFFFF0000))"
    "load32 (set_interrupt_offset a h m) (a + 8) = ucast (drop_bit 32 (h AND 0xFFFFFFFF00000000))"
    by (simp_all add: set_interrupt_offset_def store16_bytes store32_bytes load16_bytes load32_bytes add.assoc
        le_word_16 le_word_32 del: le_word.simps)
  then show ?thesis unfolding get_interrupt_offset_def Let_def using offset_parts [of h] by simp
qed

text \<open>\<open>CreateEntry\<close> makes a gate and leaves everything outside its sixteen bytes.\<close>

lemma span_field: "i + n \<le> k \<Longrightarrow> b \<in> span (a + of_nat i) n \<Longrightarrow> b \<in> span a k"
  using span_sub [of i n k a] by blast

lemma CreateEntry_mem:
  "mem (CreateEntry n h s) =
     store16 ((set_interrupt_offset (idt_offset s + of_int n * 16) h (mem s))
       (idt_offset s + of_int n * 16 + 5 := int_ta_gate)) (idt_offset s + of_int n * 16 + 2) 0x08"
  by (simp add: CreateEntry_def Let_def sizeof_InterruptEntry_def)

lemma CreateEntry_other [simp]:
  "idt_offset (CreateEntry n h s) = idt_offset s" "idt_limit (CreateEntry n h s) = idt_limit s"
  "trace (CreateEntry n h s) = trace s"
  by (simp_all add: CreateEntry_def Let_def)

lemma CreateEntry_frame:
  assumes "b \<notin> span (idt_offset s + of_int n * 16) 16"
  shows "mem (CreateEntry n h s) b = mem s b"
proof -
  let ?a = "idt_offset s + of_int n * 16"
  have out: "b \<noteq> ?a + of_nat i" if "i < 16" for i using assms that by auto
  have "b \<noteq> ?a" "b \<noteq> ?a + 1" "b \<noteq> ?a + 2" "b \<noteq> ?a + 3" "b \<noteq> ?a + 5" "b \<noteq> ?a + 6" "b \<noteq> ?a + 7"
    "b \<noteq> ?a + 8" "b \<noteq> ?a + 9" "b \<noteq> ?a + 10" "b \<noteq> ?a + 11"
    using out [of 0] out [of 1] out [of 2] out [of 3] out [of 5] out [of 6] out [of 7] out [of 8] out [of 9]
      out [of 10] out [of 11] by simp_all
  then show ?thesis
    by (simp add: CreateEntry_mem set_interrupt_offset_def store16_bytes store32_bytes add.assoc)
qed

lemma CreateEntry_gate: "gate_at (mem (CreateEntry n h s)) (idt_offset s + of_int n * 16) h"
proof -
  let ?a = "idt_offset s + of_int n * 16"
  let ?m = "set_interrupt_offset ?a h (mem s)"
  have "get_interrupt_offset (mem (CreateEntry n h s)) ?a = get_interrupt_offset ?m ?a"
    unfolding CreateEntry_mem
    by (simp add: get_interrupt_offset_def store16_bytes load16_bytes load32_bytes add.assoc del: le_word.simps)
  moreover have "load16 (mem (CreateEntry n h s)) (?a + 2) = 0x08" unfolding CreateEntry_mem by simp
  moreover have "mem (CreateEntry n h s) (?a + 5) = int_ta_gate"
    unfolding CreateEntry_mem by (simp add: store16_bytes add.assoc)
  ultimately show ?thesis by (simp add: gate_at_def get_set_offset)
qed

lemma gate_at_cong:
  assumes "\<And>b. b \<in> span a 16 \<Longrightarrow> m' b = m b"
  shows "gate_at m' a h = gate_at m a h"
proof -
  have eq: "m' (a + of_nat i) = m (a + of_nat i)" if "i < 16" for i using assms that by auto
  have "m' a = m a" "m' (a + 1) = m (a + 1)" "m' (a + 2) = m (a + 2)" "m' (a + 3) = m (a + 3)" "m' (a + 5) = m (a + 5)"
    "m' (a + 6) = m (a + 6)" "m' (a + 7) = m (a + 7)" "m' (a + 8) = m (a + 8)" "m' (a + 9) = m (a + 9)"
    "m' (a + 10) = m (a + 10)" "m' (a + 11) = m (a + 11)"
    using eq [of 0] eq [of 1] eq [of 2] eq [of 3] eq [of 5] eq [of 6] eq [of 7] eq [of 8] eq [of 9] eq [of 10] eq [of 11]
    by simp_all
  then show ?thesis
    by (simp add: gate_at_def get_interrupt_offset_def load16_bytes load32_bytes add.assoc del: le_word.simps)
qed

section \<open>The whole table\<close>

definition idt_vectors :: "image \<Rightarrow> (int \<times> u64) list" where
  "idt_vectors L =
     [(0xE, PageFault_Handler_at L), (0x0, DivideByZero_Handler_at L), (0x8, DoubleFault_Handler_at L),
      (0xD, GPFault_Handler_at L), (0x21, Keyboard_Handler_at L), (0x69, Test_Handler_at L)]"

definition entry_at :: "addr \<Rightarrow> int \<Rightarrow> addr" where
  "entry_at a n = a + of_int n * 16"

lemma entry_disjoint_less:
  assumes "0 \<le> n" "n < k" "k < 256"
  shows "span (entry_at a k) 16 \<inter> span (entry_at a n) 16 = {}"
proof -
  let ?d = "16 * nat (k - n)"
  have k: "entry_at a k = entry_at a n + of_nat ?d"
    using assms by (simp add: entry_at_def algebra_simps)
  have "16 \<le> ?d" "?d \<le> 16 * 256" using assms by auto
  then show ?thesis
    unfolding k using span_next_disj [of ?d 16 "entry_at a n"] span_mono [of 16 ?d "entry_at a n"] by auto
qed

lemma entry_disjoint:
  assumes "n \<noteq> k" "0 \<le> n" "n < 256" "0 \<le> k" "k < 256"
  shows "span (entry_at a k) 16 \<inter> span (entry_at a n) 16 = {}"
  using entry_disjoint_less [of n k a] entry_disjoint_less [of k n a] assms by (cases "n < k") auto

definition install :: "(int \<times> u64) list \<Rightarrow> 'a interrupts_scheme \<Rightarrow> 'a interrupts_scheme" where
  "install es s = fold (\<lambda>(n, h). CreateEntry n h) es s"

lemma install_simps [simp]:
  "install [] s = s" "install ((n, h) # es) s = install es (CreateEntry n h s)"
  by (simp_all add: install_def)

lemma install_other [simp]:
  "idt_offset (install es s) = idt_offset s" "idt_limit (install es s) = idt_limit s"
  "trace (install es s) = trace s"
  by (induction es arbitrary: s) auto

lemma install_frame:
  assumes "\<And>n h. (n, h) \<in> set es \<Longrightarrow> b \<notin> span (entry_at (idt_offset s) n) 16"
  shows "mem (install es s) b = mem s b"
  using assms
proof (induction es arbitrary: s)
  case (Cons e es)
  obtain n h where e: "e = (n, h)" by (cases e)
  have "mem (CreateEntry n h s) b = mem s b"
    using Cons.prems [of n h] e by (intro CreateEntry_frame) (auto simp: entry_at_def)
  then show ?case using Cons.IH [of "CreateEntry n h s"] Cons.prems e by auto
qed simp

text \<open>Every installed gate is there in the end; every other entry keeps its bytes.\<close>

definition vectors_ok :: "(int \<times> u64) list \<Rightarrow> bool" where
  "vectors_ok es \<longleftrightarrow> distinct (map fst es) \<and> list_all (\<lambda>(n, h). 0 \<le> n \<and> n < 256) es"

lemma install_entry_frame:
  assumes "vectors_ok es" "k \<notin> fst ` set es" "0 \<le> k" "k < 256" "b \<in> span (entry_at (idt_offset s) k) 16"
  shows "mem (install es s) b = mem s b"
proof (rule install_frame)
  fix n h assume "(n, h) \<in> set es"
  then have "n \<noteq> k" "0 \<le> n" "n < 256"
    using assms(1,2) by (force simp: vectors_ok_def list_all_iff)+
  then show "b \<notin> span (entry_at (idt_offset s) n) 16"
    using entry_disjoint [of n k "idt_offset s"] assms(3-5) by auto
qed

lemma install_gates:
  assumes "vectors_ok es"
  shows "list_all (\<lambda>(n, h). gate_at (mem (install es s)) (entry_at (idt_offset s) n) h) es"
  using assms
proof (induction es arbitrary: s)
  case (Cons e es)
  obtain n h where e: "e = (n, h)" by (cases e)
  let ?s = "CreateEntry n h s"
  have ok: "vectors_ok es" "n \<notin> fst ` set es" "0 \<le> n" "n < 256" using Cons.prems e by (auto simp: vectors_ok_def)
  have "gate_at (mem (install es ?s)) (entry_at (idt_offset s) n) h =
      gate_at (mem ?s) (entry_at (idt_offset s) n) h"
    using install_entry_frame [OF ok, of _ ?s] by (intro gate_at_cong) simp
  then show ?case using Cons.IH [OF ok(1), of ?s] CreateEntry_gate [of n h s] e by (simp add: entry_at_def)
qed simp

lemma idt_vectors_ok: "vectors_ok (idt_vectors L)"
  by (simp add: vectors_ok_def idt_vectors_def)

lemma create_idt_state:
  "create_idt L dev s =
     (outb slave_pic_data_port 0xEF (outb mastr_pic_data_port 0xF9 (remap_interrupts_for_io dev
        ((install (idt_vectors L) (s\<lparr>idt_limit := 0x0FFF, idt_offset := idt_page_at L\<rparr>))
           \<lparr>idtr := (0x0FFF, idt_page_at L)\<rparr>))))\<lparr>interrupt_flag := True\<rparr>"
proof -
  have "idt_limit (install (idt_vectors L) (s\<lparr>idt_limit := 0x0FFF, idt_offset := idt_page_at L\<rparr>)) = 0x0FFF"
    "idt_offset (install (idt_vectors L) (s\<lparr>idt_limit := 0x0FFF, idt_offset := idt_page_at L\<rparr>)) = idt_page_at L"
    by simp_all
  then show ?thesis unfolding create_idt_def Let_def by (simp add: idt_vectors_def)
qed

section \<open>The controller\<close>

text \<open>
  The initialisation protocol of an 8259A: a command with bit 4 starts it, then the data port takes
  the vector base, the cascade word and, if bit 0 of the command was set, the mode; otherwise the data
  port is the interrupt mask.
\<close>

record pic =
  pic_base :: u8
  pic_cascade :: u8
  pic_8086 :: bool
  pic_mask :: u8
  pic_step :: nat
  pic_icw4 :: bool

definition pic_command :: "u8 \<Rightarrow> pic \<Rightarrow> pic" where
  "pic_command v p = (if bit v 4 then p\<lparr>pic_mask := 0, pic_step := 1, pic_icw4 := bit v 0\<rparr> else p)"

definition pic_data :: "u8 \<Rightarrow> pic \<Rightarrow> pic" where
  "pic_data v p =
     (if pic_step p = 1 then p\<lparr>pic_base := v, pic_step := 2\<rparr>
      else if pic_step p = 2 then p\<lparr>pic_cascade := v, pic_step := (if pic_icw4 p then 3 else 0)\<rparr>
      else if pic_step p = 3 then p\<lparr>pic_8086 := bit v 0, pic_step := 0\<rparr>
      else p\<lparr>pic_mask := v\<rparr>)"

fun pic_run :: "u16 \<Rightarrow> io_event list \<Rightarrow> pic \<Rightarrow> pic" where
  "pic_run c [] p = p"
| "pic_run c (Out8 q v # es) p =
     pic_run c es (if q = c then pic_command v p else if q = c + 1 then pic_data v p else p)"
| "pic_run c (e # es) p = pic_run c es p"

definition pic_history :: "u8 \<Rightarrow> u8 \<Rightarrow> io_event list" where
  "pic_history a b =
     [In8 0x21 a, Out8 0x80 0, In8 0xA1 b, Out8 0x80 0, Out8 0x20 0x11, Out8 0x80 0, Out8 0xA0 0x11, Out8 0x80 0,
      Out8 0x21 0x20, Out8 0x80 0, Out8 0xA1 0x28, Out8 0x80 0, Out8 0x21 4, Out8 0x80 0, Out8 0xA1 2, Out8 0x80 0,
      Out8 0x21 1, Out8 0x80 0, Out8 0xA1 1, Out8 0x80 0, Out8 0x21 a, Out8 0x80 0, Out8 0xA1 b, Out8 0x80 0]"

lemma remap_history:
  "\<exists>a b. remap_interrupts_for_io dev s = s\<lparr>trace := trace s @ pic_history a b\<rparr>"
  by (intro exI [of _ "ucast (dev (trace s) 0x21)"]
      exI [of _ "ucast (dev (trace s @ [In8 0x21 (ucast (dev (trace s) 0x21)), Out8 0x80 0]) 0xA1)"])
    (simp add: remap_interrupts_for_io_def port_defs emit_def pic_defs pic_history_def Let_def)

lemma pic_history_run:
  "pic_run 0x20 (pic_history a b @ [Out8 0x21 m, Out8 0xA1 n]) p =
     \<lparr>pic_base = 0x20, pic_cascade = 4, pic_8086 = True, pic_mask = m, pic_step = 0, pic_icw4 = True\<rparr>"
  "pic_run 0xA0 (pic_history a b @ [Out8 0x21 m, Out8 0xA1 n]) p =
     \<lparr>pic_base = 0x28, pic_cascade = 2, pic_8086 = True, pic_mask = n, pic_step = 0, pic_icw4 = True\<rparr>"
  by (cases p, simp add: pic_history_def pic_command_def pic_data_def)+

text \<open>Everything \<open>create_idt\<close> leaves behind.\<close>

lemma create_idt_effect:
  assumes "s' = create_idt L dev s"
  shows "idtr s' = (0x0FFF, idt_page_at L) \<and> interrupt_flag s' \<and>
    list_all (\<lambda>(n, h). gate_at (mem s') (entry_at (idt_page_at L) n) h) (idt_vectors L) \<and>
    (\<forall>k b. 0 \<le> k \<and> k < 256 \<and> k \<notin> fst ` set (idt_vectors L) \<and> b \<in> span (entry_at (idt_page_at L) k) 16 \<longrightarrow>
       mem s' b = mem s b) \<and>
    (\<forall>b. b \<notin> span (idt_page_at L) 4096 \<longrightarrow> mem s' b = mem s b) \<and>
    (\<exists>es. trace s' = trace s @ es \<and>
      (\<forall>p. pic_run 0x20 es p = \<lparr>pic_base = 0x20, pic_cascade = 4, pic_8086 = True, pic_mask = 0xF9, pic_step = 0, pic_icw4 = True\<rparr> \<and>
        pic_run 0xA0 es p = \<lparr>pic_base = 0x28, pic_cascade = 2, pic_8086 = True, pic_mask = 0xEF, pic_step = 0, pic_icw4 = True\<rparr>))"
proof -
  let ?s0 = "s\<lparr>idt_limit := 0x0FFF, idt_offset := idt_page_at L\<rparr>"
  let ?s1 = "install (idt_vectors L) ?s0"
  obtain a b where rm: "remap_interrupts_for_io dev (?s1\<lparr>idtr := (0x0FFF, idt_page_at L)\<rparr>) =
      (?s1\<lparr>idtr := (0x0FFF, idt_page_at L)\<rparr>)\<lparr>trace := trace s @ pic_history a b\<rparr>"
    using remap_history [of dev "?s1\<lparr>idtr := (0x0FFF, idt_page_at L)\<rparr>"] by auto
  have st: "mem s' = mem ?s1" "idtr s' = (0x0FFF, idt_page_at L)" "interrupt_flag s'"
    "trace s' = trace s @ (pic_history a b @ [Out8 0x21 0xF9, Out8 0xA1 0xEF])"
    unfolding assms create_idt_state rm by (simp_all add: outb_def emit_def pic_defs)
  have gates: "list_all (\<lambda>(n, h). gate_at (mem s') (entry_at (idt_page_at L) n) h) (idt_vectors L)"
    using install_gates [OF idt_vectors_ok, of L ?s0] st(1) by simp
  have others: "mem s' b = mem s b"
    if "0 \<le> k" "k < 256" "k \<notin> fst ` set (idt_vectors L)" "b \<in> span (entry_at (idt_page_at L) k) 16" for k b
    using install_entry_frame [OF idt_vectors_ok that(3,1,2), of b ?s0] that(4) st(1) by simp
  have outside: "mem s' b = mem s b" if "b \<notin> span (idt_page_at L) 4096" for b
  proof -
    have "span (entry_at (idt_page_at L) n) 16 \<subseteq> span (idt_page_at L) 4096" if "0 \<le> n" "n < 256" for n
      using span_sub [of "16 * nat n" 16 4096 "idt_page_at L"] that by (simp add: entry_at_def mult.commute)
    then have "b \<notin> span (entry_at (idt_page_at L) n) 16" if "(n, h) \<in> set (idt_vectors L)" for n h
      using that \<open>b \<notin> span (idt_page_at L) 4096\<close> idt_vectors_ok [of L]
      by (auto simp: vectors_ok_def list_all_iff)
    then show ?thesis using install_frame [of "idt_vectors L" b ?s0] st(1) by simp
  qed
  show ?thesis
    using st(2,3) gates others outside st(4) pic_history_run [of a b "0xF9" "0xEF"] by blast
qed

section \<open>Properties\<close>

definition interrupts0 :: interrupts where
  "interrupts0 = keyboard.extend keyboard0 (interrupts.fields 0 0 (0, 0) (0, 0) 0 0 False)"

text \<open>
  The 64-bit address of a handler survives its split into the three offset fields of an entry.
\<close>

theorem interrupt_offset_roundtrip:
  "get_interrupt_offset (set_interrupt_offset int_ptr offset m) int_ptr = offset"
  by (rule get_set_offset)

text \<open>
  C6: After \<open>create_idt\<close> the processor's table register points at \<open>idt_page\<close> (limit 4095), the six
  vectors hold interrupt gates to their handlers in the kernel's code segment, every other entry and
  all memory outside the table keep their bytes, and interrupts are on; whatever the controllers
  answered, both have completed their initialisation, in 8086 mode, with the vectors 0x20 and 0x28 and
  the masks 0xF9 and 0xEF. So the keyboard's line 1 raises vector 0x21, whose gate leads to
  \<open>Keyboard_Handler\<close>. (The mouse's line 12 is unmasked too, but vector 0x2C keeps an empty entry.)
\<close>

theorem create_idt_installs:
  assumes "s' = create_idt L dev s"
  shows "idtr s' = (0x0FFF, idt_page_at L) \<and> interrupt_flag s' \<and>
    list_all (\<lambda>(n, h). gate_at (mem s') (entry_at (idt_page_at L) n) h) (idt_vectors L) \<and>
    (\<forall>k b. 0 \<le> k \<and> k < 256 \<and> k \<notin> fst ` set (idt_vectors L) \<and> b \<in> span (entry_at (idt_page_at L) k) 16 \<longrightarrow>
       mem s' b = mem s b) \<and>
    (\<forall>b. b \<notin> span (idt_page_at L) 4096 \<longrightarrow> mem s' b = mem s b) \<and>
    (\<exists>es. trace s' = trace s @ es \<and>
      (\<forall>p. pic_run 0x20 es p = \<lparr>pic_base = 0x20, pic_cascade = 4, pic_8086 = True, pic_mask = 0xF9, pic_step = 0, pic_icw4 = True\<rparr> \<and>
        pic_run 0xA0 es p = \<lparr>pic_base = 0x28, pic_cascade = 2, pic_8086 = True, pic_mask = 0xEF, pic_step = 0, pic_icw4 = True\<rparr>))"
  using assms by (rule create_idt_effect)

theorem create_idt_installs_witness:
  "gate_at (mem (create_idt image0 (\<lambda>_ _. 0) interrupts0)) (0x104000 + 0x21 * 16) 0xFFFFFFFF80001400 \<and>
   mem (create_idt image0 (\<lambda>_ _. 0) interrupts0) (0x104000 + 0x2C * 16 + 5) = 0"
proof -
  obtain dev :: device where dev: "dev = (\<lambda>_ _. 0)" by blast
  let ?s = "create_idt image0 dev interrupts0"
  have i0: "idt_page_at image0 = 0x104000" "Keyboard_Handler_at image0 = 0xFFFFFFFF80001400"
    "mem interrupts0 = (\<lambda>_. 0)"
    by (simp_all add: image0_def interrupts0_def keyboard.defs interrupts.defs keyboard0_def console.defs console0_def)
  have "(0x104000 + 0x2C * 16 + 5 :: addr) \<in> span (entry_at 0x104000 0x2C) 16"
    using span_nth [of 5 16 "entry_at 0x104000 0x2C"] by (simp add: entry_at_def)
  then have "mem ?s (0x104000 + 0x2C * 16 + 5) = mem interrupts0 (0x104000 + 0x2C * 16 + 5)"
    using conjunct1 [OF conjunct2 [OF conjunct2 [OF conjunct2 [OF create_idt_installs [of ?s image0 dev interrupts0]]]],
        THEN spec [of _ "0x2C"], THEN spec] i0(1)
    by (simp add: idt_vectors_def)
  moreover have "gate_at (mem ?s) (entry_at 0x104000 0x21) 0xFFFFFFFF80001400"
    using create_idt_installs [of ?s image0 dev interrupts0] i0 by (simp add: idt_vectors_def)
  ultimately show ?thesis using i0(3) by (simp add: entry_at_def dev)
qed

text \<open>
  A keyboard interrupt reads one scan code from port 0x60, edits the line and shows the key as the
  driver does, and sends the end-of-interrupt command twice: once from the driver and once from the
  handler.
\<close>

theorem keyboard_interrupt:
  assumes "k = ucast (dev (trace s) 0x60)"
    and "key_layout L s" "line_rel L s e" "term_rel L s t" "keys_fit s [k] e t"
  shows "\<exists>s'. Keyboard_Handler L dev s = Some s' \<and> line_rel L s' (fst (key_run (unat (TTY_Width s)) [k] (e, t))) \<and>
    term_rel L s' (snd (key_run (unat (TTY_Width s)) [k] (e, t))) \<and> key_frame L s s' \<and>
    trace s' = trace s @ [In8 0x60 k, Out8 0x20 0x20, Out8 0x20 0x20]"
proof -
  let ?s = "s\<lparr>trace := trace s @ [In8 0x60 k]\<rparr>" and ?w = "unat (TTY_Width s)"
  have inb: "inb dev 0x60 s = (k, ?s)" using assms(1) by (simp add: inb_def emit_def Let_def)
  have "key_layout L ?s" "line_rel L ?s e" "term_rel L ?s t" "keys_fit ?s [k] e t"
    using assms(2-5) term_fits_size [of ?s s]
    by (simp_all add: key_layout_def console_layout_def line_rel_def term_rel_trace term_ok_def)
  from HandleKeys_run [OF this] obtain s1 where s1: "HandleKeyboard L k ?s = Some s1"
      "line_rel L s1 (fst (key_run ?w [k] (e, t)))" "term_rel L s1 (snd (key_run ?w [k] (e, t)))"
      "key_frame L ?s s1" "trace s1 = trace s @ [In8 0x60 k, Out8 0x20 0x20]"
    by (auto simp: bind_eq_Some_conv)
  have "Keyboard_Handler L dev s = Some (s1\<lparr>trace := trace s1 @ [Out8 0x20 0x20]\<rparr>)"
    using s1(1) inb by (simp add: Keyboard_Handler_def PIC_EndMaster_def outb_def emit_def pic_defs)
  then show ?thesis
    using s1(2-5) by (auto simp: line_rel_def term_rel_trace key_frame_def)
qed

theorem keyboard_interrupt_witness:
  "\<exists>s'. Keyboard_Handler image0 (\<lambda>_ _. 0x1E) keyboard0 = Some s' \<and> input_holds image0 (mem s') [0x61] \<and>
     trace s' = [In8 0x60 0x1E, Out8 0x20 0x20, Out8 0x20 0x20]"
proof -
  let ?t = "\<lparr>t_x = 0, t_y = 0, t_fg = COLOR_LGRAY, t_bg = COLOR_BLACK, t_bold = False, t_esc = None\<rparr>"
  let ?e = "\<lparr>le_left = False, le_right = False, le_text = []\<rparr>"
  note k0 = keyboard0_def console.defs keyboard.defs console0_def
  have rel: "term_rel image0 keyboard0 ?t" by (simp add: term_rel_def k0 esc_text_def pending_def)
  have "load_bytes (\<lambda>_. 0) a n = replicate n 0" for a n by (induction n arbitrary: a) simp_all
  then have line: "line_rel image0 keyboard0 ?e" by (simp add: line_rel_def input_holds_def k0)
  have typed: "typed 0x1E ?e = 0x61" by (simp add: typed_def key_char_def key_rows_def)
  have w: "unat (TTY_Width keyboard0) = 2" "unat (TTY_Height keyboard0) = 2" "trace keyboard0 = []"
    by (simp_all add: k0)
  have fit: "keys_fit keyboard0 [0x1E] ?e ?t"
    by (simp add: key_ok_def typed key_step_def term_ok_def w pending_def)
  have run: "fst (key_run 2 [0x1E] (?e, ?t)) = ?e\<lparr>le_text := [0x61]\<rparr>" by (simp add: key_step_def typed)
  show ?thesis
    using keyboard_interrupt [of "0x1E" "\<lambda>_ _. 0x1E", OF _ keyboard0_layout line rel fit] unfolding w run
    by (auto simp: line_rel_def)
qed

text \<open>
  The selectors that \<open>LoadGDT\<close> and the interrupt gates use name present, flat 64-bit segments of
  ring 0: code at 0x08, data at 0x10. The two entries meant for user code and data are of ring 0 too.
\<close>

definition seg_present :: "GDTEntry \<Rightarrow> bool" where "seg_present e = bit (AccessByte e) 7"
definition seg_ring :: "GDTEntry \<Rightarrow> u8" where "seg_ring e = drop_bit 5 (AccessByte e) AND 3"
definition seg_code :: "GDTEntry \<Rightarrow> bool" where "seg_code e = (bit (AccessByte e) 4 \<and> bit (AccessByte e) 3)"
definition seg_long :: "GDTEntry \<Rightarrow> bool" where "seg_long e = bit (Limit1_Flags e) 5"

theorem DefaultGDT_segments:
  "map (\<lambda>e. (seg_present e, seg_code e, seg_long e, seg_ring e)) DefaultGDT =
     [(False, False, False, 0), (True, True, True, 0), (True, False, True, 0),
      (False, False, False, 0), (True, True, True, 0), (True, False, True, 0)] \<and>
   unat (cs (LoadGDT sz off s)) = 8 * 1 \<and> unat (data_selector (LoadGDT sz off s)) = 8 * 2"
  by (simp add: DefaultGDT_def GDT_entry_def seg_present_def seg_code_def seg_long_def seg_ring_def LoadGDT_def)

end
