(* ===== verification/Limine.thy ===== *)
theory Limine
  imports Machine
begin

text \<open>
  The boot protocol (\<open>limine.h\<close>) as far as the kernel uses it: its requests, which the boot loader finds by their
  identifiers, and the structures of the answers, read from the memory.
\<close>

section \<open>Requests\<close>

definition LIMINE_COMMON_MAGIC :: "u64 list" where
  "LIMINE_COMMON_MAGIC = [0xc7b1dd30df4c8b88, 0x0a82e883a194f07b]"

definition LIMINE_BOOTLOADER_INFO_REQUEST :: "u64 list" where
  "LIMINE_BOOTLOADER_INFO_REQUEST = LIMINE_COMMON_MAGIC @ [0xf55038d8e2a1202f, 0x279426fcf5f59740]"

definition LIMINE_HHDM_REQUEST :: "u64 list" where
  "LIMINE_HHDM_REQUEST = LIMINE_COMMON_MAGIC @ [0x48dcf1cb8ad2b852, 0x63984e959a98244b]"

definition LIMINE_FRAMEBUFFER_REQUEST :: "u64 list" where
  "LIMINE_FRAMEBUFFER_REQUEST = LIMINE_COMMON_MAGIC @ [0x9d5827dcd881dd75, 0xa3148604f6fab11b]"

definition LIMINE_SMP_REQUEST :: "u64 list" where
  "LIMINE_SMP_REQUEST = LIMINE_COMMON_MAGIC @ [0x95a67b819a1b857e, 0xa0b61b723b6a73e0]"

definition LIMINE_MEMMAP_REQUEST :: "u64 list" where
  "LIMINE_MEMMAP_REQUEST = LIMINE_COMMON_MAGIC @ [0x67cf3d9d378a806f, 0xe304acdfc50c3c62]"

definition LIMINE_MODULE_REQUEST :: "u64 list" where
  "LIMINE_MODULE_REQUEST = LIMINE_COMMON_MAGIC @ [0x3e7e279702be32af, 0xca1c4f3bd1280cee]"

definition LIMINE_RSDP_REQUEST :: "u64 list" where
  "LIMINE_RSDP_REQUEST = LIMINE_COMMON_MAGIC @ [0xc5e77b6b397e7b43, 0x27637845accdcf3c]"

definition LIMINE_KERNEL_ADDRESS_REQUEST :: "u64 list" where
  "LIMINE_KERNEL_ADDRESS_REQUEST = LIMINE_COMMON_MAGIC @ [0x71ba76863cc55f63, 0xb2644a48c516a487]"

text \<open>A request as the kernel's image has it; its third field, the answer, is for the boot loader to fill in.\<close>

record limine_request =
  request_id :: "u64 list"
  request_revision :: u64

definition bootloaderInfo :: limine_request where "bootloaderInfo = \<lparr>request_id = LIMINE_BOOTLOADER_INFO_REQUEST, request_revision = 0\<rparr>"
definition fbRequest :: limine_request where "fbRequest = \<lparr>request_id = LIMINE_FRAMEBUFFER_REQUEST, request_revision = 0\<rparr>"
definition mmap_request :: limine_request where "mmap_request = \<lparr>request_id = LIMINE_MEMMAP_REQUEST, request_revision = 0\<rparr>"
definition module_request :: limine_request where "module_request = \<lparr>request_id = LIMINE_MODULE_REQUEST, request_revision = 0\<rparr>"
definition kernel_address_request :: limine_request where
  "kernel_address_request = \<lparr>request_id = LIMINE_KERNEL_ADDRESS_REQUEST, request_revision = 0\<rparr>"
definition hhdm_request :: limine_request where "hhdm_request = \<lparr>request_id = LIMINE_HHDM_REQUEST, request_revision = 0\<rparr>"
definition rsdpReq :: limine_request where "rsdpReq = \<lparr>request_id = LIMINE_RSDP_REQUEST, request_revision = 0\<rparr>"
definition smp_request :: limine_request where "smp_request = \<lparr>request_id = LIMINE_SMP_REQUEST, request_revision = 0\<rparr>"

text \<open>
  The boot loader is a function from identifiers to answers, 0 for a request it does not know.  What the kernel
  finds then; the answer to \<open>smp\<close> is read by nobody.
\<close>

definition answers :: "(u64 list \<Rightarrow> addr) \<Rightarrow> limine" where
  "answers loader =
     \<lparr>bootloaderInfo_response = loader (request_id bootloaderInfo), fbRequest_response = loader (request_id fbRequest),
      mmap_response = loader (request_id mmap_request), module_response = loader (request_id module_request),
      kernel_address_response = loader (request_id kernel_address_request),
      hhdm_response = loader (request_id hhdm_request), rsdpReq_response = loader (request_id rsdpReq)\<rparr>"

definition kernel_requests :: "limine_request list" where
  "kernel_requests = [bootloaderInfo, fbRequest, mmap_request, module_request, kernel_address_request, hhdm_request, rsdpReq,
     smp_request]"

lemmas request_defs = bootloaderInfo_def fbRequest_def mmap_request_def module_request_def kernel_address_request_def
  hhdm_request_def rsdpReq_def smp_request_def LIMINE_BOOTLOADER_INFO_REQUEST_def LIMINE_HHDM_REQUEST_def
  LIMINE_FRAMEBUFFER_REQUEST_def LIMINE_SMP_REQUEST_def LIMINE_MEMMAP_REQUEST_def LIMINE_MODULE_REQUEST_def
  LIMINE_RSDP_REQUEST_def LIMINE_KERNEL_ADDRESS_REQUEST_def LIMINE_COMMON_MAGIC_def

lemma requests_distinct: "distinct (map request_id kernel_requests)"
  by (simp add: kernel_requests_def request_defs)

text \<open>So every combination of answers is the one of some boot loader.\<close>

lemma answers_any: "\<exists>loader. answers loader = lm"
proof -
  let ?as = "[bootloaderInfo_response lm, fbRequest_response lm, mmap_response lm, module_response lm,
      kernel_address_response lm, hhdm_response lm, rsdpReq_response lm, 0]"
  let ?loader = "\<lambda>i. case map_of (zip (map request_id kernel_requests) ?as) i of None \<Rightarrow> 0 | Some a \<Rightarrow> a"
  have "answers ?loader = lm" by (simp add: answers_def kernel_requests_def request_defs)
  then show ?thesis by blast
qed

section \<open>Answers\<close>

record limine_bootloader_info_response =
  bi_revision :: u64
  bi_name :: addr
  bi_version :: addr

definition bootloader_info_at :: "memory \<Rightarrow> addr \<Rightarrow> limine_bootloader_info_response" where
  "bootloader_info_at m r = \<lparr>bi_revision = load64 m r, bi_name = load64 m (r + 8), bi_version = load64 m (r + 16)\<rparr>"

record limine_hhdm_response =
  hhdm_revision :: u64
  hhdm_response_offset :: u64

definition hhdm_at :: "memory \<Rightarrow> addr \<Rightarrow> limine_hhdm_response" where
  "hhdm_at m r = \<lparr>hhdm_revision = load64 m r, hhdm_response_offset = load64 m (r + 8)\<rparr>"

record limine_framebuffer =
  lfb_address :: addr
  lfb_width :: u64
  lfb_height :: u64
  lfb_pitch :: u64
  lfb_bpp :: u16
  lfb_memory_model :: u8
  lfb_red_mask_size :: u8
  lfb_red_mask_shift :: u8
  lfb_green_mask_size :: u8
  lfb_green_mask_shift :: u8
  lfb_blue_mask_size :: u8
  lfb_blue_mask_shift :: u8
  lfb_edid_size :: u64
  lfb_edid :: addr

definition framebuffer_at :: "memory \<Rightarrow> addr \<Rightarrow> limine_framebuffer" where
  "framebuffer_at m r =
     \<lparr>lfb_address = load64 m r, lfb_width = load64 m (r + 8), lfb_height = load64 m (r + 16), lfb_pitch = load64 m (r + 24),
      lfb_bpp = load16 m (r + 32), lfb_memory_model = m (r + 34), lfb_red_mask_size = m (r + 35),
      lfb_red_mask_shift = m (r + 36), lfb_green_mask_size = m (r + 37), lfb_green_mask_shift = m (r + 38),
      lfb_blue_mask_size = m (r + 39), lfb_blue_mask_shift = m (r + 40), lfb_edid_size = load64 m (r + 48),
      lfb_edid = load64 m (r + 56)\<rparr>"

record limine_framebuffer_response =
  fbr_revision :: u64
  fbr_count :: u64
  fbr_framebuffers :: addr

definition framebuffer_response_at :: "memory \<Rightarrow> addr \<Rightarrow> limine_framebuffer_response" where
  "framebuffer_response_at m r =
     \<lparr>fbr_revision = load64 m r, fbr_count = load64 m (r + 8), fbr_framebuffers = load64 m (r + 16)\<rparr>"

record limine_memmap_response =
  mmr_revision :: u64
  mmr_entry_count :: u64
  mmr_entries :: addr

definition memmap_response_at :: "memory \<Rightarrow> addr \<Rightarrow> limine_memmap_response" where
  "memmap_response_at m r =
     \<lparr>mmr_revision = load64 m r, mmr_entry_count = load64 m (r + 8), mmr_entries = load64 m (r + 16)\<rparr>"

record limine_module_response =
  mod_revision :: u64
  mod_count :: u64
  mod_modules :: addr

definition module_response_at :: "memory \<Rightarrow> addr \<Rightarrow> limine_module_response" where
  "module_response_at m r =
     \<lparr>mod_revision = load64 m r, mod_count = load64 m (r + 8), mod_modules = load64 m (r + 16)\<rparr>"

record limine_uuid =
  uuid_a :: u32
  uuid_b :: u16
  uuid_c :: u16
  uuid_d :: "u8 list"

definition uuid_at :: "memory \<Rightarrow> addr \<Rightarrow> limine_uuid" where
  "uuid_at m r = \<lparr>uuid_a = load32 m r, uuid_b = load16 m (r + 4), uuid_c = load16 m (r + 6), uuid_d = load_bytes m (r + 8) 8\<rparr>"

record limine_file =
  file_revision :: u64
  file_address :: addr
  file_size :: u64
  file_path :: addr
  file_cmdline :: addr
  file_media_type :: u32
  file_tftp_ip :: u32
  file_tftp_port :: u32
  file_partition_index :: u32
  file_mbr_disk_id :: u32
  file_gpt_disk_uuid :: limine_uuid
  file_gpt_part_uuid :: limine_uuid
  file_part_uuid :: limine_uuid

definition file_at :: "memory \<Rightarrow> addr \<Rightarrow> limine_file" where
  "file_at m r =
     \<lparr>file_revision = load64 m r, file_address = load64 m (r + 8), file_size = load64 m (r + 16), file_path = load64 m (r + 24),
      file_cmdline = load64 m (r + 32), file_media_type = load32 m (r + 40), file_tftp_ip = load32 m (r + 48),
      file_tftp_port = load32 m (r + 52), file_partition_index = load32 m (r + 56), file_mbr_disk_id = load32 m (r + 60),
      file_gpt_disk_uuid = uuid_at m (r + 64), file_gpt_part_uuid = uuid_at m (r + 80), file_part_uuid = uuid_at m (r + 96)\<rparr>"

record limine_rsdp_response =
  rsdp_revision :: u64
  rsdp_address :: addr

definition rsdp_at :: "memory \<Rightarrow> addr \<Rightarrow> limine_rsdp_response" where
  "rsdp_at m r = \<lparr>rsdp_revision = load64 m r, rsdp_address = load64 m (r + 8)\<rparr>"

record limine_kernel_address_response =
  ka_revision :: u64
  ka_physical_base :: u64
  ka_virtual_base :: u64

definition kernel_address_at :: "memory \<Rightarrow> addr \<Rightarrow> limine_kernel_address_response" where
  "kernel_address_at m r = \<lparr>ka_revision = load64 m r, ka_physical_base = load64 m (r + 8), ka_virtual_base = load64 m (r + 16)\<rparr>"

text \<open>The fields the kernel reads, and that an answer is read as it is as long as its bytes stay.\<close>

lemma limine_fields [simp]:
  "bi_name (bootloader_info_at m r) = load64 m (r + 8)" "bi_version (bootloader_info_at m r) = load64 m (r + 16)"
  "hhdm_response_offset (hhdm_at m r) = load64 m (r + 8)" "lfb_address (framebuffer_at m r) = load64 m r"
  "lfb_width (framebuffer_at m r) = load64 m (r + 8)" "lfb_height (framebuffer_at m r) = load64 m (r + 16)"
  "fbr_framebuffers (framebuffer_response_at m r) = load64 m (r + 16)"
  "mmr_entry_count (memmap_response_at m r) = load64 m (r + 8)" "mmr_entries (memmap_response_at m r) = load64 m (r + 16)"
  "mod_modules (module_response_at m r) = load64 m (r + 16)" "file_address (file_at m r) = load64 m (r + 8)"
  "rsdp_address (rsdp_at m r) = load64 m (r + 8)" "ka_physical_base (kernel_address_at m r) = load64 m (r + 8)"
  "ka_virtual_base (kernel_address_at m r) = load64 m (r + 16)"
  by (simp_all add: bootloader_info_at_def hhdm_at_def framebuffer_at_def framebuffer_response_at_def memmap_response_at_def
      module_response_at_def file_at_def rsdp_at_def kernel_address_at_def)

end
