(* ===== verification/Ramfs.thy ===== *)
theory Ramfs
  imports Interrupts Limine
begin

text \<open>
  The file system in the boot module, \<open>kernel/fs/ramfs.c\<close>: a tar archive whose headers \<open>parse\<close>
  collects in the global array \<open>headers\<close>.
\<close>

record ramfs = interrupts +
  initramfs :: addr

section \<open>The operations\<close>

text \<open>
  \<open>headers[i]\<close> is a pointer of eight bytes; nothing bounds the index by the array's length of 32.  A
  header has its file name at 0 and its size, in octal, at 124; \<open>limine_file\<close> has the address at 8, of
  which the code reads the low 32 bits.
\<close>

definition header_slot :: "image \<Rightarrow> u32 \<Rightarrow> addr" where
  "header_slot L i = headers_at L + 8 * ucast i"

definition filename :: "addr \<Rightarrow> addr" where "filename header = header"
definition size_field :: "addr \<Rightarrow> addr" where "size_field header = header + 124"

text \<open>The field \<open>address\<close> of the \<open>limine_file\<close>, read as an int.\<close>

definition module_address :: "'a ramfs_scheme \<Rightarrow> u32" where
  "module_address s = load32 (mem s) (initramfs s + 8)"

fun getsize_loop :: "memory \<Rightarrow> cptr \<Rightarrow> nat \<Rightarrow> u32 \<Rightarrow> u32 \<Rightarrow> u32" where
  "getsize_loop m inp 0 sz count = sz"
| "getsize_loop m inp (Suc j) sz count =
     getsize_loop m inp j (sz + (scast (rd m inp (int j)) - 0x30) * count) (count * 8)"

definition getsize :: "memory \<Rightarrow> cptr \<Rightarrow> u32" where
  "getsize m inp = getsize_loop m inp 11 0 1"

definition next_header :: "u32 \<Rightarrow> u32 \<Rightarrow> u32" where
  "next_header address sz =
     (let address = address + (sz div 512 + 1) * 512
      in if sz mod 512 \<noteq> 0 then address + 512 else address)"

partial_function (option) parse_loop ::
    "image \<Rightarrow> u32 \<Rightarrow> u32 \<Rightarrow> memory \<Rightarrow> (u32 \<times> memory) option" where
  "parse_loop L i address m =
     (let header = ucast address; m = store64 m (header_slot L i) header in
      if m (filename header) = 0 then Some (i, m)
      else parse_loop L (i + 1) (next_header address (getsize m (Addr (size_field header)))) m)"

definition parse :: "image \<Rightarrow> 'a ramfs_scheme \<Rightarrow> (u32 \<times> 'a ramfs_scheme) option" where
  "parse L s = map_option (\<lambda>(i, m). (i, s\<lparr>mem := m\<rparr>)) (parse_loop L 0 (module_address s) (mem s))"

text \<open>
  \<open>readFile\<close> compares the address of a name with the address of the literal \<open>"\0"\<close>, two different
  objects, so the loop condition always holds; it stops at the first header whose name differs from
  the wanted one.
\<close>

partial_function (option) find_header :: "image \<Rightarrow> memory \<Rightarrow> cptr \<Rightarrow> u32 \<Rightarrow> addr option" where
  "find_header L m fileToReadName i =
     Option.bind (strcmp m fileToReadName (Addr (filename (load64 m (headers_at L + 8 * scast i))))) (\<lambda>d.
       if d \<noteq> 0 then Some (load64 m (headers_at L + 8 * scast i))
       else find_header L m fileToReadName (i + 1))"

definition readFile :: "image \<Rightarrow> cptr \<Rightarrow> 'a ramfs_scheme \<Rightarrow> addr option" where
  "readFile L fileToReadName s = map_option (\<lambda>header. header + 512) (find_header L (mem s) fileToReadName 0)"

text \<open>
  \<open>ls\<close>: the eight clearing loops, then the splits into global structures of two arrays of 128 bytes.
\<close>

definition clear_names :: "image \<Rightarrow> memory \<Rightarrow> memory" where
  "clear_names L m =
     fold (\<lambda>a m. store_bytes m a (replicate 100 0))
       [fullName_at L, fullName_at L + 128, nameInPath_at L, nameInPath_at L + 128,
        oldFullName_at L, oldFullName_at L + 128, oldNameInPath_at L, oldNameInPath_at L + 128] m"

definition split_into :: "image \<Rightarrow> addr \<Rightarrow> addr \<Rightarrow> memory \<Rightarrow> memory option" where
  "split_into L dest str m =
     map_option (\<lambda>(ts, m). store_bytes m dest (ts_a ts @ ts_b ts))
       (strsplit (strsplit_p1_at L) (strsplit_p2_at L) (Addr str) 0x2F m)"

definition ls_header :: "'a ramfs_scheme \<Rightarrow> image \<Rightarrow> u32 \<Rightarrow> addr" where
  "ls_header s L i = load64 (mem s) (headers_at L + 8 * scast i)"

definition print_name :: "image \<Rightarrow> 'a ramfs_scheme \<Rightarrow> 'a ramfs_scheme option" where
  "print_name L s = map_option snd (printf L (Lit (bytes ''%s'' @ nl)) [VPtr (Addr (nameInPath_at L))] s)"

definition ls_entry :: "image \<Rightarrow> u32 \<Rightarrow> 'a ramfs_scheme \<Rightarrow> 'a ramfs_scheme option" where
  "ls_entry L i s =
     (let s = s\<lparr>mem := clear_names L (mem s)\<rparr> in
      do { m \<leftarrow> split_into L (fullName_at L) (filename (ls_header s L i)) (mem s);
           m \<leftarrow> split_into L (nameInPath_at L) (fullName_at L + 128) m;
           let s = s\<lparr>mem := m\<rparr>;
           if sint i > 1
           then do { m \<leftarrow> split_into L (oldFullName_at L) (filename (ls_header s L (i - 1))) (mem s);
                     m \<leftarrow> split_into L (oldNameInPath_at L) (oldFullName_at L + 128) m;
                     let s = s\<lparr>mem := m\<rparr>;
                     d \<leftarrow> strcmp (mem s) (Addr (oldNameInPath_at L)) (Addr (nameInPath_at L));
                     if d = 0 then print_name L s else Some s }
           else print_name L s })"

partial_function (option) ls_loop :: "image \<Rightarrow> u32 \<Rightarrow> 'a ramfs_scheme \<Rightarrow> 'a ramfs_scheme option" where
  "ls_loop L i s =
     (if mem s (filename (ls_header s L i)) \<noteq> 0
      then Option.bind (ls_entry L i s) (ls_loop L (i + 1)) else Some s)"

definition ls :: "image \<Rightarrow> 'a ramfs_scheme \<Rightarrow> 'a ramfs_scheme option" where
  "ls L s = ls_loop L 1 s"

section \<open>Octal numbers\<close>

definition octal :: "nat list \<Rightarrow> nat" where
  "octal ds = foldl (\<lambda>a d. 8 * a + d) 0 ds"

definition octal_text :: "memory \<Rightarrow> cptr \<Rightarrow> nat list \<Rightarrow> bool" where
  "octal_text m p ds \<longleftrightarrow> length ds = 11 \<and> (\<forall>d\<in>set ds. d < 8) \<and>
     (\<forall>i<11. rd m p (int i) = 0x30 + of_nat (ds ! i))"

lemma octal_digit: "d < 8 \<Longrightarrow> scast (0x30 + of_nat d :: u8) - 0x30 = (of_nat d :: u32)"
proof -
  assume "d < 8"
  then have "d \<in> {0, 1, 2, 3, 4, 5, 6, 7}" by auto
  then show ?thesis by auto
qed

lemma octal_take: "j < length ds \<Longrightarrow> octal (take (Suc j) ds) = 8 * octal (take j ds) + ds ! j"
  by (simp add: octal_def take_Suc_conv_app_nth)

lemma getsize_loop_octal:
  assumes "octal_text m p ds" and "j \<le> 11"
  shows "getsize_loop m p j sz count = sz + count * of_nat (octal (take j ds))"
  using assms(2)
proof (induction j arbitrary: sz count)
  case 0 then show ?case by (simp add: octal_def)
next
  case (Suc j)
  have d: "rd m p (int j) = 0x30 + of_nat (ds ! j)" "ds ! j < 8" "j < length ds"
    using assms(1) Suc.prems by (auto simp: octal_text_def)
  have "scast (rd m p (int j)) - 0x30 = (of_nat (ds ! j) :: u32)" unfolding d(1) using d(2) by (rule octal_digit)
  then show ?case using Suc.IH Suc.prems octal_take [OF d(3)] by (simp add: algebra_simps)
qed

lemma getsize_octal: "octal_text m p ds \<Longrightarrow> getsize m p = of_nat (octal ds)"
  using getsize_loop_octal [of m p ds 11 0 1] by (simp add: getsize_def octal_text_def)

lemma octal_bound: "(\<forall>d\<in>set ds. d < 8) \<Longrightarrow> octal ds < 8 ^ length ds"
proof (induction ds rule: rev_induct)
  case (snoc d ds)
  then have "octal ds < 8 ^ length ds" "d < 8" by simp_all
  then have "8 * octal ds + d < 8 * 8 ^ length ds" by linarith
  then show ?case by (simp add: octal_def)
qed (simp add: octal_def)

section \<open>Archives\<close>

text \<open>
  An archive in memory: headers with a name and a size, each followed by its contents in blocks of
  512 bytes, and an empty name at the end.
\<close>

definition entry_bytes :: "nat \<Rightarrow> nat" where
  "entry_bytes sz = 512 + 512 * ((sz + 511) div 512)"

fun archive :: "memory \<Rightarrow> nat \<Rightarrow> nat list \<Rightarrow> bool" where
  "archive m a [] \<longleftrightarrow> m (of_nat a) = 0"
| "archive m a (sz # szs) \<longleftrightarrow> m (of_nat a) \<noteq> 0 \<and>
     (\<exists>ds. octal_text m (Addr (of_nat a + 124)) ds \<and> octal ds = sz) \<and> archive m (a + entry_bytes sz) szs"

fun header_addresses :: "nat \<Rightarrow> nat list \<Rightarrow> nat list" where
  "header_addresses a [] = [a]"
| "header_addresses a (sz # szs) = a # header_addresses (a + entry_bytes sz) szs"

definition archive_bytes :: "nat list \<Rightarrow> nat" where
  "archive_bytes szs = sum_list (map entry_bytes szs) + 1"

definition archive_area :: "nat \<Rightarrow> nat list \<Rightarrow> addr set" where
  "archive_area a szs = span (of_nat a) (archive_bytes szs)"

lemma archive_area_tail: "archive_area (a + entry_bytes sz) szs \<subseteq> archive_area a (sz # szs)"
  using span_sub [of "entry_bytes sz" "archive_bytes szs" "archive_bytes (sz # szs)" "of_nat a"]
  by (simp add: archive_area_def archive_bytes_def)

lemma archive_area_head: "of_nat a \<in> archive_area a szs"
  using span_nth [of 0 "archive_bytes szs" "of_nat a"] by (simp add: archive_area_def archive_bytes_def)

lemma octal_text_cong:
  assumes "\<And>b. b \<in> ptr_span p 11 \<Longrightarrow> m' b = m b"
  shows "octal_text m' p ds = octal_text m p ds"
  unfolding octal_text_def using rd_cong [OF assms] by auto

lemma archive_cong:
  "(\<And>b. b \<in> archive_area a szs \<Longrightarrow> m' b = m b) \<Longrightarrow> archive m' a szs = archive m a szs"
proof (induction szs arbitrary: a)
  case Nil then show ?case using archive_area_head [of a "[]"] by simp
next
  case (Cons sz szs)
  have "span (of_nat a + of_nat 124) 11 \<subseteq> archive_area a (sz # szs)"
    unfolding archive_area_def by (rule span_sub) (simp add: archive_bytes_def entry_bytes_def)
  then have "octal_text m' (Addr (of_nat a + 124)) ds = octal_text m (Addr (of_nat a + 124)) ds" for ds
    using Cons.prems by (intro octal_text_cong) auto
  moreover have "m' (of_nat a) = m (of_nat a)" using Cons.prems archive_area_head by blast
  moreover have "archive m' (a + entry_bytes sz) szs = archive m (a + entry_bytes sz) szs"
    using Cons.prems archive_area_tail by (intro Cons.IH) blast
  ultimately show ?case by simp
qed

text \<open>The step of \<open>parse\<close> is the one of the format, in 32 bits.\<close>

lemma round_up_512: "((sz :: nat) + 511) div 512 = sz div 512 + (if sz mod 512 = 0 then 0 else 1)"
proof -
  have *: "(512 * q + r + 511) div 512 = q + (if r = 0 then 0 else 1)" if "r < 512" for q r :: nat
  proof (cases r)
    case (Suc k)
    then have "512 * q + r + 511 = k + (q + 1) * 512" by simp
    then show ?thesis using Suc that by (simp only: div_mult_self1) simp
  qed simp
  show ?thesis using * [of "sz mod 512" "sz div 512"] by simp
qed

lemma next_header_entry:
  assumes "sz < 2 ^ 32" and "a + entry_bytes sz < 2 ^ 32"
  shows "next_header (of_nat a) (of_nat sz) = of_nat (a + entry_bytes sz)"
proof -
  have u: "unat (of_nat sz :: u32) = sz" using assms(1) by (simp add: unat_of_nat_lt)
  have "sz div 512 \<le> sz" "sz mod 512 < 512" by simp_all
  then have small: "sz div 512 < 2 ^ 32" "sz mod 512 < 2 ^ 32" using assms(1) by linarith+
  have k: "unat (512 :: u32) = 512" by simp
  have dm: "unat (of_nat (sz div 512) :: u32) = sz div 512" "unat (of_nat (sz mod 512) :: u32) = sz mod 512"
    using small by (intro unat_of_nat_lt; simp)+
  have d: "(of_nat sz :: u32) div 512 = of_nat (sz div 512)" "(of_nat sz :: u32) mod 512 = of_nat (sz mod 512)"
    unfolding word_unat_eq_iff unat_div unat_mod u k dm by (rule refl)+
  have z: "(of_nat (sz mod 512) :: u32) = 0 \<longleftrightarrow> sz mod 512 = 0"
    unfolding word_unat_eq_iff dm by (simp only: unat_0)
  note round_up_512 [of sz]
  then have "a + entry_bytes sz = a + (sz div 512 + 1) * 512 + (if sz mod 512 = 0 then 0 else 512)"
    by (simp add: entry_bytes_def)
  then show ?thesis unfolding next_header_def Let_def d z by simp
qed

section \<open>Parsing\<close>

fun store_headers :: "image \<Rightarrow> nat \<Rightarrow> nat list \<Rightarrow> memory \<Rightarrow> memory" where
  "store_headers L i [] m = m"
| "store_headers L i (a # as) m = store_headers L (Suc i) as (store64 m (headers_at L + 8 * of_nat i) (of_nat a))"

lemma header_slot_nth: "i < 2 ^ 32 \<Longrightarrow> header_slot L (of_nat i) = headers_at L + 8 * of_nat i"
  by (simp add: header_slot_def ucast_of_nat_32_64)

lemma slot_in_table: "span (headers_at L + 8 * of_nat i) 8 \<subseteq> span (headers_at L + 8 * of_nat i) (8 * Suc n)"
  by (rule span_mono) simp

text \<open>The table from slot \<open>i\<close> on lies apart from the archive.\<close>

definition table_area :: "image \<Rightarrow> nat \<Rightarrow> nat \<Rightarrow> addr set" where
  "table_area L i n = span (headers_at L + 8 * of_nat i) (8 * Suc n)"

lemma table_area_Suc: "table_area L (Suc i) n \<subseteq> table_area L i (Suc n)"
  using span_sub [of 8 "8 * Suc n" "8 * Suc (Suc n)" "headers_at L + 8 * of_nat i"]
  by (simp add: table_area_def algebra_simps)

lemma header_addresses_length [simp]: "length (header_addresses a szs) = Suc (length szs)"
  by (induction szs arbitrary: a) simp_all

lemma store_slot_other: "b \<notin> table_area L i n \<Longrightarrow> store64 m (headers_at L + 8 * of_nat i) v b = m b"
  using slot_in_table [of L i n] by (intro c64.st_frame) (auto simp: table_area_def)

lemma parse_loop_archive:
  assumes "archive m a szs" and "\<forall>sz\<in>set szs. sz < 2 ^ 32" and "a + archive_bytes szs \<le> 2 ^ 32"
    and "i + length szs < 2 ^ 32" and "table_area L i (length szs) \<inter> archive_area a szs = {}"
  shows "parse_loop L (of_nat i) (of_nat a) m =
    Some (of_nat (i + length szs), store_headers L i (header_addresses a szs) m)"
  using assms
proof (induction szs arbitrary: a i m)
  case Nil
  let ?m = "store64 m (headers_at L + 8 * of_nat i) (of_nat a)"
  have "?m (of_nat a) = m (of_nat a)"
    using Nil.prems(5) archive_area_head [of a "[]"] by (intro store_slot_other [of _ _ _ 0]) auto
  moreover have "(ucast (of_nat a :: u32) :: u64) = of_nat a"
    using Nil.prems(3) by (intro ucast_of_nat_32_64) (simp add: archive_bytes_def)
  ultimately show ?case
    using Nil.prems(1,4) by (subst parse_loop.simps) (simp add: header_slot_nth filename_def)
next
  case (Cons sz szs)
  let ?m = "store64 m (headers_at L + 8 * of_nat i) (of_nat a)" and ?a = "a + entry_bytes sz"
  have bytes: "archive_bytes (sz # szs) = entry_bytes sz + archive_bytes szs" "0 < archive_bytes szs"
    by (simp_all add: archive_bytes_def)
  have same: "?m b = m b" if "b \<in> archive_area a (sz # szs)" for b
    using Cons.prems(5) that by (intro store_slot_other [of _ _ _ "Suc (length szs)"]) auto
  have arch: "archive ?m a (sz # szs)" using Cons.prems(1) archive_cong [of a "sz # szs" ?m m] same by blast
  have ua: "(ucast (of_nat a :: u32) :: u64) = of_nat a"
    using Cons.prems(3) bytes by (intro ucast_of_nat_32_64) simp
  obtain ds where ds: "octal_text ?m (Addr (of_nat a + 124)) ds" "octal ds = sz" using arch by auto
  have "next_header (of_nat a) (of_nat sz) = of_nat ?a"
    using Cons.prems(2,3) bytes by (intro next_header_entry) auto
  then have "parse_loop L (of_nat i) (of_nat a) m = parse_loop L (of_nat (Suc i)) (of_nat ?a) ?m"
    using arch ua Cons.prems(4) getsize_octal [OF ds(1)] ds(2)
    by (subst parse_loop.simps) (simp add: header_slot_nth filename_def size_field_def add.commute)
  also have "\<dots> = Some (of_nat (Suc i + length szs), store_headers L (Suc i) (header_addresses ?a szs) ?m)"
    using Cons.prems arch bytes archive_area_tail [of a sz szs] table_area_Suc [of L i "length szs"]
    by (intro Cons.IH) auto
  finally show ?case by simp
qed

text \<open>What the table holds afterwards.\<close>

lemma slots_disjoint:
  assumes "i < j" "j < 2 ^ 32"
  shows "span (b + 8 * of_nat j) 8 \<inter> span (b + 8 * of_nat i :: addr) 8 = {}"
proof -
  let ?d = "8 * (j - i)" and ?a = "b + 8 * of_nat i"
  have eq: "b + 8 * of_nat j = ?a + of_nat ?d" using assms(1) by (simp add: algebra_simps of_nat_diff)
  have "8 \<le> ?d" "?d + 8 \<le> 2 ^ 64" using assms by simp_all
  then show ?thesis
    unfolding eq using span_next_disj [of ?d 8 ?a] span_mono [of 8 ?d ?a] by blast
qed

lemma store_headers_before:
  assumes "k < i" "i + length as \<le> 2 ^ 32"
  shows "load64 (store_headers L i as m) (headers_at L + 8 * of_nat k) = load64 m (headers_at L + 8 * of_nat k)"
  using assms
proof (induction as arbitrary: i m)
  case (Cons a as)
  have "span (headers_at L + 8 * of_nat k) 8 \<inter> span (headers_at L + 8 * of_nat i) 8 = {}"
    using slots_disjoint [of k i "headers_at L"] Cons.prems by auto
  then show ?case using Cons.IH [of "Suc i"] Cons.prems by (simp add: c64.ld_st_disj)
qed simp

lemma store_headers_nth:
  assumes "k < length as" "i + length as \<le> 2 ^ 32"
  shows "load64 (store_headers L i as m) (headers_at L + 8 * of_nat (i + k)) = of_nat (as ! k)"
  using assms
proof (induction as arbitrary: i k m)
  case (Cons a as)
  let ?m = "store64 m (headers_at L + 8 * of_nat i) (of_nat a)"
  show ?case
  proof (cases k)
    case 0
    then show ?thesis using store_headers_before [of i "Suc i" as L ?m] Cons.prems by simp
  next
    case (Suc n)
    then show ?thesis using Cons.IH [of n "Suc i" ?m] Cons.prems by simp
  qed
qed simp

lemma store_headers_frame:
  assumes "b \<notin> span (headers_at L + 8 * of_nat i) (8 * length as)"
  shows "store_headers L i as m b = m b"
  using assms
proof (induction as arbitrary: i m)
  case (Cons a as)
  let ?h = "headers_at L + 8 * of_nat i"
  have "span (?h + of_nat 8) (8 * length as) \<subseteq> span ?h (8 * length (a # as))" "span ?h 8 \<subseteq> span ?h (8 * length (a # as))"
    by (intro span_sub span_mono; simp)+
  then have "b \<notin> span (headers_at L + 8 * of_nat (Suc i)) (8 * length as)" "b \<notin> span ?h 8"
    using Cons.prems by (auto simp: algebra_simps)
  then show ?case using Cons.IH [of "Suc i"] by (simp add: c64.st_frame)
qed simp

lemma parse_archive:
  assumes "module_address s = of_nat a" and "archive (mem s) a szs" and "\<forall>sz\<in>set szs. sz < 2 ^ 32"
    and "a + archive_bytes szs \<le> 2 ^ 32" and "length szs < 2 ^ 31"
    and "span (headers_at L) (8 * Suc (length szs)) \<inter> archive_area a szs = {}"
  shows "\<exists>s'. parse L s = Some (of_nat (length szs), s') \<and>
    (\<forall>k\<le>length szs. load64 (mem s') (headers_at L + 8 * of_nat k) = of_nat (header_addresses a szs ! k)) \<and>
    s' = s\<lparr>mem := mem s'\<rparr> \<and>
    (\<forall>b. b \<notin> span (headers_at L) (8 * Suc (length szs)) \<longrightarrow> mem s' b = mem s b)"
proof -
  let ?m = "store_headers L 0 (header_addresses a szs) (mem s)"
  have "parse_loop L 0 (of_nat a) (mem s) = Some (of_nat (length szs), ?m)"
    using parse_loop_archive [OF assms(2-4), of 0 L] assms(5,6) by (simp add: table_area_def)
  then have "parse L s = Some (of_nat (length szs), s\<lparr>mem := ?m\<rparr>)" by (simp add: parse_def assms(1))
  moreover have "load64 ?m (headers_at L + 8 * of_nat k) = of_nat (header_addresses a szs ! k)"
    if "k \<le> length szs" for k
    using store_headers_nth [of k "header_addresses a szs" 0 L "mem s"] that assms(5) by simp
  moreover have "?m b = mem s b" if "b \<notin> span (headers_at L) (8 * Suc (length szs))" for b
    using store_headers_frame [of b L 0 "header_addresses a szs" "mem s"] that by simp
  ultimately show ?thesis by (intro exI [of _ "s\<lparr>mem := ?m\<rparr>"]) simp
qed

section \<open>Looking up a file\<close>

lemma find_header_step:
  assumes "cstr m name n" and "cstr m (Addr (load64 m (headers_at L + 8 * scast i))) n'"
  shows "find_header L m name i =
    (if n \<noteq> n' then Some (load64 m (headers_at L + 8 * scast i)) else find_header L m name (i + 1))"
  using strcmp_cstr [OF assms] str_diff_0_iff [of n n'] cstr_nonzero [OF assms(1)] cstr_nonzero [OF assms(2)]
  by (subst find_header.simps) (simp add: filename_def)

section \<open>Properties\<close>

text \<open>
  \<open>getsize\<close> reads the eleven octal digits of a size field as a number modulo 2^32.
\<close>

theorem getsize_reads_octal:
  assumes "octal_text m p ds"
  shows "getsize m p = of_nat (octal ds) \<and> octal ds < 8 ^ 11"
  using getsize_octal [OF assms] octal_bound [of ds] assms by (simp add: octal_text_def)

lemma all_less_11:
  "(\<forall>i<11. P i) \<longleftrightarrow> P 0 \<and> P 1 \<and> P 2 \<and> P 3 \<and> P 4 \<and> P 5 \<and> P 6 \<and> P 7 \<and> P 8 \<and> P 9 \<and> P (10 :: nat)"
proof -
  have "(11 :: nat) = Suc (Suc (Suc (Suc (Suc (Suc (Suc (Suc (Suc (Suc (Suc 0))))))))))" by simp
  then show ?thesis by (simp only: All_less_Suc) (simp add: eval_nat_numeral conj_ac)
qed

theorem getsize_reads_octal_witness: "getsize (\<lambda>_. 0) (lit ''00000000017'') = 15"
  using getsize_reads_octal [of "\<lambda>_. 0" "lit ''00000000017''" "[0, 0, 0, 0, 0, 0, 0, 0, 0, 1, 7]"]
  by (simp add: octal_text_def octal_def lit_def all_less_11)

text \<open>
  C12: On a tar archive in the boot module \<open>parse\<close> returns the number of its entries and leaves in
  \<open>headers\<close> the address of every entry's header and, behind them, the address of the empty one;
  nothing else changes. The archive must lie below 4 GiB, since the code keeps its addresses in 32
  bits, and apart from the table, whose length of 32 the code does not look at.
\<close>

theorem parse_finds_headers:
  assumes "module_address s = of_nat a" and "archive (mem s) a szs" and "\<forall>sz\<in>set szs. sz < 2 ^ 32"
    and "a + archive_bytes szs \<le> 2 ^ 32" and "length szs < 2 ^ 31"
    and "span (headers_at L) (8 * Suc (length szs)) \<inter> archive_area a szs = {}"
  shows "\<exists>s'. parse L s = Some (of_nat (length szs), s') \<and>
    (\<forall>k\<le>length szs. load64 (mem s') (headers_at L + 8 * of_nat k) = of_nat (header_addresses a szs ! k)) \<and>
    s' = s\<lparr>mem := mem s'\<rparr> \<and>
    (\<forall>b. b \<notin> span (headers_at L) (8 * Suc (length szs)) \<longrightarrow> mem s' b = mem s b)"
  using assms by (rule parse_archive)

definition archive0 :: memory where
  "archive0 = store_bytes ((\<lambda>_. 0)(0x200000 := 0x61, 0x30000A := 0x20)) 0x20007C
     [0x30, 0x30, 0x30, 0x30, 0x30, 0x30, 0x30, 0x30, 0x30, 0x30, 0x35]"

definition ramfs0 :: ramfs where
  "ramfs0 = interrupts.extend (interrupts0\<lparr>mem := archive0\<rparr>) (ramfs.fields 0x300000)"

theorem parse_finds_headers_witness:
  "\<exists>s'. parse image0 ramfs0 = Some (1, s') \<and> load64 (mem s') 0x103000 = 0x200000 \<and>
     load64 (mem s') 0x103008 = 0x200400"
proof -
  have m: "mem ramfs0 = archive0" "initramfs ramfs0 = 0x300000"
    by (simp_all add: ramfs0_def interrupts.defs ramfs.defs)
  have "module_address ramfs0 = of_nat 0x200000"
    unfolding module_address_def m by (simp add: archive0_def load32_bytes fun_upd_apply)
  moreover have "octal_text archive0 (Addr (of_nat 0x200000 + 124)) [0, 0, 0, 0, 0, 0, 0, 0, 0, 0, 5]"
    by (simp add: octal_text_def archive0_def all_less_11)
  then have "archive (mem ramfs0) 0x200000 [5]"
    unfolding m by (auto simp: archive0_def entry_bytes_def octal_def fun_upd_apply)
  moreover have "span (0x103000 :: addr) 16 \<inter> span 0x200000 1025 = {}" by (rule span_disjI) simp_all
  then have "span (headers_at image0) (8 * Suc (length [5 :: nat])) \<inter> archive_area 0x200000 [5] = {}"
    by (simp add: image0_def archive_area_def archive_bytes_def entry_bytes_def)
  ultimately obtain s' where s': "parse image0 ramfs0 = Some (of_nat (length [5 :: nat]), s')"
      "\<forall>k\<le>length [5 :: nat]. load64 (mem s') (headers_at image0 + 8 * of_nat k) =
         of_nat (header_addresses 0x200000 [5] ! k)"
    using parse_finds_headers [of ramfs0 "0x200000" "[5]" image0]
    by (auto simp: archive_bytes_def entry_bytes_def)
  then show ?thesis
    using spec [OF s'(2), of 0] spec [OF s'(2), of 1] by (simp add: image0_def entry_bytes_def)
qed

text \<open>
  C37: \<open>readFile\<close> never returns the contents of the file it was asked for: it takes the first entry
  whose name is different. Asked for anything but the first file it returns the first one's contents,
  asked for the first one the second one's.
\<close>

theorem readFile_returns_another:
  assumes "load64 (mem s) (headers_at L) = h0" and "load64 (mem s) (headers_at L + 8) = h1"
    and "cstr (mem s) (Addr h0) n0" and "cstr (mem s) (Addr h1) n1" and "n0 \<noteq> n1" and "cstr (mem s) name n"
  shows "readFile L name s = Some (if n = n0 then h1 + 512 else h0 + 512)"
proof -
  have "find_header L (mem s) name 0 = (if n \<noteq> n0 then Some h0 else find_header L (mem s) name 1)"
    using find_header_step [of "mem s" name n L 0 n0] assms by simp
  moreover have "find_header L (mem s) name 1 = Some h1" if "n = n0"
    using find_header_step [of "mem s" name n L 1 n1] assms that by simp
  ultimately show ?thesis by (simp add: readFile_def)
qed

theorem readFile_returns_another_witness:
  "readFile image0 (lit ''b'') (ramfs0\<lparr>mem := store64 (store64 ((\<lambda>_. 0)(0x200000 := 0x61, 0x200400 := 0x62))
      0x103000 0x200000) 0x103008 0x200400\<rparr>) = Some 0x200200"
proof -
  let ?m = "store64 (store64 ((\<lambda>_. 0)(0x200000 := 0x61, 0x200400 := 0x62)) 0x103000 0x200000) 0x103008 0x200400"
  have d: "span (0x103000 :: addr) 8 \<inter> span 0x103008 8 = {}" by (rule span_disjI) simp_all
  have l: "load64 ?m 0x103000 = 0x200000" "load64 ?m 0x103008 = 0x200400"
    using d by (simp_all add: c64.ld_st_disj)
  have "b \<notin> span (0x103000 :: addr) 8 \<and> b \<notin> span 0x103008 8" if "0x200000 \<le> unat b" for b
    using that unat_mem_span [of b "0x103000" 8] unat_mem_span [of b "0x103008" 8] by auto
  then have "?m b = ((\<lambda>_. 0)(0x200000 := 0x61, 0x200400 := 0x62)) b" if "0x200000 \<le> unat b" for b
    using that by (simp add: c64.st_frame)
  then have "cstr ?m (Addr 0x200000) [0x61]" "cstr ?m (Addr 0x200400) [0x62]"
    by (simp_all add: cstr_Cons fun_upd_apply)
  then show ?thesis
    using readFile_returns_another [of "ramfs0\<lparr>mem := ?m\<rparr>" image0 "0x200000" "0x200400" "[0x61]" "[0x62]" "lit ''b''" "[0x62]"] l
    by (simp add: image0_def lit_def)
qed

end
