(* ===== verification/Acpi.thy ===== *)
theory Acpi
  imports Ramfs Log
begin

text \<open>
  \<open>kernel/acpi/acpi.c\<close>: the search for the MCFG table.  The tables lie in memory, packed as in
  \<open>include/acpi/acpi.h\<close>; \<open>rsdpReq.response\<close> comes from the boot loader.
\<close>

record acpi = ramfs +
  mcfg :: addr

section \<open>The tables\<close>

text \<open>\<open>RSDPDescriptor\<close>: \<open>OEMId\<close> at 9, \<open>revision\<close> at 15, \<open>RSDTAddress\<close> at 16.\<close>

definition RSDP_OEMId :: "addr \<Rightarrow> addr" where "RSDP_OEMId p = p + 9"

definition RSDP_revision :: "memory \<Rightarrow> addr \<Rightarrow> u8" where "RSDP_revision m p = m (p + 15)"

definition RSDP_RSDTAddress :: "memory \<Rightarrow> addr \<Rightarrow> u32" where "RSDP_RSDTAddress m p = load32 m (p + 16)"

text \<open>\<open>ACPISDTHeader\<close>: 36 bytes, the signature first, \<open>length\<close> at 4, \<open>OEMId\<close> at 10, \<open>OEMRevision\<close> at 24.\<close>

definition sizeof_ACPISDTHeader :: u64 where "sizeof_ACPISDTHeader = 36"

definition SDT_length :: "memory \<Rightarrow> addr \<Rightarrow> u32" where "SDT_length m h = load32 m (h + 4)"

definition SDT_OEMId :: "addr \<Rightarrow> addr" where "SDT_OEMId h = h + 10"

definition SDT_OEMRevision :: "memory \<Rightarrow> addr \<Rightarrow> u32" where "SDT_OEMRevision m h = load32 m (h + 24)"

text \<open>\<open>RSDT\<close>: the header, then 32-bit pointers to other tables.\<close>

definition pointerToOtherSDT :: "memory \<Rightarrow> addr \<Rightarrow> nat \<Rightarrow> u32" where
  "pointerToOtherSDT m rsdt i = load32 m (rsdt + sizeof_ACPISDTHeader + 4 * of_nat i)"

section \<open>The checksum\<close>

text \<open>
  \<open>uint_fast32_t\<close> has 64 bits here; the bytes are signed chars, extended with their sign.
\<close>

function checksum_loop :: "memory \<Rightarrow> addr \<Rightarrow> u32 \<Rightarrow> u64 \<Rightarrow> u64" where
  "checksum_loop m tableHeader i sm =
     (if i < SDT_length m tableHeader
      then checksum_loop m tableHeader (i + 1) (sm + scast (m (tableHeader + ucast i)))
      else sm)"
  by pat_completeness auto
termination
  by (relation "measure (\<lambda>(m, h, i, sm). unat (SDT_length m h) - unat i)")
    (auto simp: unat_Suc_less word_less_nat_alt)

declare checksum_loop.simps [simp del]

definition doChecksum :: "image \<Rightarrow> addr \<Rightarrow> 'a console_scheme \<Rightarrow> (bool \<times> 'a console_scheme) option" where
  "doChecksum img tableHeader s =
     (let sm = checksum_loop (mem s) tableHeader 0 0
      in if sm \<noteq> 0
         then do { (_, s) \<leftarrow> sprintf (checksum_str_at img) (lit ''Checksum wrong by %lu'') [VInt sm] s;
                   s \<leftarrow> log img (lit ''X86ACPI'') (Addr (checksum_str_at img)) LOGLEVEL_WARN s;
                   Some (False, s) }
         else Some (True, s))"

section \<open>The search\<close>

abbreviation (input) acpi_log :: "image \<Rightarrow> cptr \<Rightarrow> u8 \<Rightarrow> 'a console_scheme \<Rightarrow> 'a console_scheme option" where
  "acpi_log img \<equiv> log img (lit ''X86ACPI'')"

text \<open>
  One entry of the table.  \<open>memcpy\<close> into the five bytes of \<open>sig\<close> leaves its terminating NUL alone.
\<close>

definition acpi_entry :: "image \<Rightarrow> addr \<Rightarrow> nat \<Rightarrow> 'a acpi_scheme \<Rightarrow> 'a acpi_scheme option" where
  "acpi_entry img rsdt i s =
     do { let h = ucast (pointerToOtherSDT (mem s) rsdt i);
          let s = s\<lparr>mem := memcpy (ACPI_sig_at img) (Addr h) 4 (mem s)\<rparr>;
          (_, s) \<leftarrow> sprintf (ACPI_entry_str_at img) (Lit (bytes ''Found ACPI Entry: '' @ [0x22] @ bytes ''%-4s'' @ [0x22]))
            [VPtr (Addr (ACPI_sig_at img))] s;
          s \<leftarrow> acpi_log img (Addr (ACPI_entry_str_at img)) LOGLEVEL_INFO s;
          s \<leftarrow> (if memcmp (mem s) (Addr h) (lit ''FACP'') 4 = 0
               then acpi_log img (lit ''Found FACP'') LOGLEVEL_INFO s else Some s);
          Some (if memcmp (mem s) (Addr h) (lit ''MCFG'') 4 = 0 then s\<lparr>mcfg := h\<rparr> else s) }"

fun acpi_entries :: "image \<Rightarrow> addr \<Rightarrow> nat list \<Rightarrow> 'a acpi_scheme \<Rightarrow> 'a acpi_scheme option" where
  "acpi_entries img rsdt [] s = Some s"
| "acpi_entries img rsdt (i # is) s = Option.bind (acpi_entry img rsdt i s) (acpi_entries img rsdt is)"

text \<open>
  \<open>(length - sizeof(h)) / 4\<close> is computed in 64 bits, without a sign, and cut to an int.
\<close>

definition RSDT_entries :: "memory \<Rightarrow> addr \<Rightarrow> int" where
  "RSDT_entries m rsdt = sint (ucast ((ucast (SDT_length m rsdt) - sizeof_ACPISDTHeader) div 4) :: u32)"

text \<open>
  \<open>regs\<close> is the address of the \<open>registers_t\<close> on the stack and \<open>cpu\<close> what the processor's registers hold
  when \<open>DUMPREGS\<close> reads them.
\<close>

definition root_sig :: "image \<Rightarrow> addr \<Rightarrow> 'a acpi_scheme \<Rightarrow> 'a acpi_scheme" where
  "root_sig img rsdt s =
     (let s = s\<lparr>mem := store_bytes (mem s) (ACPI_sig_at img) (replicate 5 0)\<rparr>
      in s\<lparr>mem := memcpy (ACPI_sig_at img) (Addr rsdt) 4 (mem s)\<rparr>)"

definition bad_root :: "image \<Rightarrow> addr \<Rightarrow> registers_t \<Rightarrow> 'a acpi_scheme \<Rightarrow> 'a acpi_scheme option" where
  "bad_root img regs cpu s =
     do { let s = s\<lparr>mem := DUMPREGS cpu regs (mem s)\<rparr>;
          (_, s) \<leftarrow> sprintf (ACPI_str_at img)
            (Lit (bytes ''ACPI RSDT signature not correct!  Expected: '' @ [0x22] @ bytes ''RSDT'' @ [0x22] @
               bytes '', got: '' @ [0x22] @ bytes ''%-4s'' @ [0x22]))
            [VPtr (Addr (ACPI_sig_at img))] s;
          acpi_log img (Addr (ACPI_str_at img)) LOGLEVEL_FATAL s }"

definition acpi_rsdt ::
    "image \<Rightarrow> u64 \<Rightarrow> addr \<Rightarrow> registers_t \<Rightarrow> addr \<Rightarrow> 'a acpi_scheme \<Rightarrow> 'a acpi_scheme option" where
  "acpi_rsdt img cr2 regs cpu rsdt s =
     do { let s = root_sig img rsdt s;
          s \<leftarrow> (if memcmp (mem s) (Addr rsdt) (lit ''RSDT'') 4 \<noteq> 0
               then do { s \<leftarrow> bad_root img regs cpu s;
                         panic img cr2 (lit ''ACPI RSDT Signature invalid'') regs s }
               else Some s);
          (_, s) \<leftarrow> sprintf (ACPI_str_at img)
            (Lit (bytes ''Found ACPI RSDT.  Signature: '' @ [0x22] @ bytes ''%-4s'' @ [0x22])) [VPtr (Addr (ACPI_sig_at img))] s;
          s \<leftarrow> acpi_log img (Addr (ACPI_str_at img)) LOGLEVEL_INFO s;
          (ok, s) \<leftarrow> doChecksum img rsdt s;
          s \<leftarrow> (if ok then acpi_log img (lit ''ACPI RSDT Checksum passed.'') LOGLEVEL_INFO s else Some s);
          let s = s\<lparr>mem := memcpy (ACPI_OEMID_at img) (Addr (SDT_OEMId rsdt)) 6 (mem s)\<rparr>;
          (_, s) \<leftarrow> sprintf (ACPI_str_at img) (lit ''RSDT OEM ID: %s'') [VPtr (Addr (ACPI_OEMID_at img))] s;
          s \<leftarrow> acpi_log img (Addr (ACPI_str_at img)) LOGLEVEL_INFO s;
          (_, s) \<leftarrow> sprintf (ACPI_str_at img) (lit ''RSDT OEM Revision: %u'')
            [VInt (ucast (SDT_OEMRevision (mem s) rsdt))] s;
          s \<leftarrow> acpi_log img (Addr (ACPI_str_at img)) LOGLEVEL_INFO s;
          acpi_entries img rsdt [0..<nat (RSDT_entries (mem s) rsdt)] s }"

definition acpi_rsdp :: "image \<Rightarrow> addr \<Rightarrow> 'a acpi_scheme \<Rightarrow> 'a acpi_scheme option" where
  "acpi_rsdp img p s =
     do { (_, s) \<leftarrow> sprintf (ACPI_str_at img) (lit ''Found ACPI Tables at address %p!'') [VPtr (Addr p)] s;
          s \<leftarrow> acpi_log img (Addr (ACPI_str_at img)) LOGLEVEL_INFO s;
          s \<leftarrow> acpi_log img (if RSDP_revision (mem s) p = 0 then lit ''ACPI Revision 1.0''
              else lit ''ACPI Revision >= 2.0'') LOGLEVEL_INFO s;
          let s = s\<lparr>mem := store_bytes (mem s) (ACPI_OEMID_at img) (replicate 7 0)\<rparr>;
          let s = s\<lparr>mem := memcpy (ACPI_OEMID_at img) (Addr (RSDP_OEMId p)) 6 (mem s)\<rparr>;
          (_, s) \<leftarrow> sprintf (ACPI_str_at img) (lit ''OEM ID: %s'') [VPtr (Addr (ACPI_OEMID_at img))] s;
          acpi_log img (Addr (ACPI_str_at img)) LOGLEVEL_INFO s }"

definition ACPI_Init ::
    "image \<Rightarrow> limine \<Rightarrow> u64 \<Rightarrow> addr \<Rightarrow> registers_t \<Rightarrow> 'a acpi_scheme \<Rightarrow> 'a acpi_scheme option" where
  "ACPI_Init img lm cr2 regs cpu s =
     (let p = rsdp_address (rsdp_at (mem s) (rsdpReq_response lm))
      in if memcmp (mem s) (Addr p) (lit ''RSD PTR '') 8 \<noteq> 0
         then acpi_log img (lit ''Bad ACPI'') LOGLEVEL_FATAL s
         else do { s \<leftarrow> acpi_rsdp img p s;
                   acpi_rsdt img cr2 regs cpu (ucast (RSDP_RSDTAddress (mem s) p)) s })"

section \<open>What the checksum accepts\<close>

text \<open>The bytes of a table, and their sum as signed numbers.\<close>

definition table_bytes :: "memory \<Rightarrow> addr \<Rightarrow> u8 list" where
  "table_bytes m h = load_bytes m h (unat (SDT_length m h))"

definition signed_sum :: "u8 list \<Rightarrow> int" where
  "signed_sum bs = sum_list (map sint bs)"

text \<open>The rule of the ACPI specification: all bytes add up to 0 modulo 256.\<close>

definition valid_checksum :: "u8 list \<Rightarrow> bool" where
  "valid_checksum bs \<longleftrightarrow> sum_list bs = 0"

lemma signed_sum_bounds: "- 128 * int (length bs) \<le> signed_sum bs \<and> signed_sum bs \<le> 127 * int (length bs)"
proof (induction bs)
  case Nil then show ?case by (simp add: signed_sum_def)
next
  case (Cons b bs)
  have "- 128 \<le> sint b" "sint b \<le> 127" using sint_ge [of b] sint_lt [of b] by simp_all
  with Cons show ?case by (simp add: signed_sum_def algebra_simps)
qed

lemma checksum_loop_sum:
  "i \<le> SDT_length m h \<Longrightarrow>
   checksum_loop m h i a = a + of_int (signed_sum (drop (unat i) (table_bytes m h)))"
proof (induction m h i a rule: checksum_loop.induct)
  case (1 m h i a)
  show ?case
  proof (cases "i < SDT_length m h")
    case False
    then have "drop (unat i) (table_bytes m h) = []" by (simp add: table_bytes_def word_less_nat_alt)
    with False show ?thesis by (subst checksum_loop.simps) (simp add: signed_sum_def)
  next
    case True
    have lt: "unat i < unat (SDT_length m h)" using True by (simp add: word_less_nat_alt)
    have u: "unat (i + 1) = Suc (unat i)" using True by (rule unat_Suc_less)
    have "(of_nat (unat i) :: addr) = ucast i" by (simp add: unsigned_def)
    then have "drop (unat i) (table_bytes m h) = m (h + ucast i) # drop (Suc (unat i)) (table_bytes m h)"
      using lt Cons_nth_drop_Suc [of "unat i" "table_bytes m h"]
      by (simp add: table_bytes_def nth_load_bytes del: load_bytes.simps)
    moreover have "i + 1 \<le> SDT_length m h" using lt u by (simp add: word_le_nat_alt)
    moreover have "(scast (m (h + ucast i)) :: u64) = of_int (sint (m (h + ucast i)))"
      by (simp add: signed_def)
    ultimately show ?thesis using 1(1) [OF True] True u
      by (subst checksum_loop.simps) (simp add: signed_sum_def)
  qed
qed

lemma of_int_64_eq_0: "\<bar>x\<bar> < 2 ^ 63 \<Longrightarrow> (of_int x :: u64) = 0 \<longleftrightarrow> x = 0"
  by (simp add: word_of_int_eq_0_iff zdvd_not_zless zdvd_imp_le dvd_imp_le_int) (use dvd_imp_le_int in force)

lemma checksum_zero: "checksum_loop m h 0 0 = 0 \<longleftrightarrow> signed_sum (table_bytes m h) = 0"
proof -
  have "uint (SDT_length m h) < 2 ^ 32" by (rule order_less_le_trans [OF uint_lt2p]) simp
  then have "int (length (table_bytes m h)) < 2 ^ 32" by (simp add: table_bytes_def)
  then have "\<bar>signed_sum (table_bytes m h)\<bar> < 2 ^ 63"
    using signed_sum_bounds [of "table_bytes m h"] by (auto simp: abs_less_iff)
  then show ?thesis using checksum_loop_sum [of 0 m h 0] by (simp add: of_int_64_eq_0)
qed

lemma doChecksum_result: "doChecksum img h s = Some (b, s') \<Longrightarrow>
    b = (signed_sum (table_bytes (mem s) h) = 0)"
  by (auto simp: doChecksum_def checksum_zero [symmetric] split_def Let_def bind_eq_Some_conv split: if_splits)

section \<open>Properties\<close>

lemma of_int_signed_sum: "(of_int (signed_sum bs) :: u8) = sum_list bs"
  by (induction bs) (simp_all add: signed_sum_def)

text \<open>
  C38: \<open>doChecksum\<close> accepts a table, without a message, exactly when its bytes as signed numbers add up
  to 0; on every other table its result, when the message can be printed, is false.  The rule of the
  ACPI specification is weaker: the sum is 0 modulo 256.  So a sound table is rejected unless the signed
  sum happens to be 0 itself.
\<close>

theorem doChecksum_signed_sum:
  "(doChecksum img h s = Some (True, s)) = (signed_sum (table_bytes (mem s) h) = 0) \<and>
   map_option fst (doChecksum img h s) \<in> {None, Some (signed_sum (table_bytes (mem s) h) = 0)} \<and>
   (signed_sum (table_bytes (mem s) h) = 0 \<longrightarrow> valid_checksum (table_bytes (mem s) h))"
proof -
  let ?bs = "table_bytes (mem s) h"
  have "signed_sum ?bs = 0 \<Longrightarrow> doChecksum img h s = Some (True, s)"
    by (simp add: doChecksum_def checksum_zero Let_def)
  moreover have "signed_sum ?bs = 0 \<Longrightarrow> valid_checksum ?bs"
    using of_int_signed_sum [of ?bs] by (simp add: valid_checksum_def)
  moreover have "map_option fst (doChecksum img h s) \<in> {None, Some (signed_sum ?bs = 0)}"
  proof (cases "doChecksum img h s")
    case (Some r)
    then show ?thesis using doChecksum_result [of img h s "fst r" "snd r"] by simp
  qed simp
  moreover have "doChecksum img h s = Some (True, s) \<Longrightarrow> signed_sum ?bs = 0"
    using doChecksum_result [of img h s True s] by simp
  ultimately show ?thesis by blast
qed

definition sound_table :: "u8 list" where
  "sound_table = [0x4D, 0x43, 0x46, 0x47, 9, 0, 0, 0, 0xDA]"

theorem doChecksum_signed_sum_witness:
  "valid_checksum (table_bytes (mem_of 0x200000 sound_table) 0x200000) \<and>
   doChecksum image0 0x200000 (console25\<lparr>mem := mem_of 0x200000 sound_table\<rparr>) \<noteq>
     Some (True, console25\<lparr>mem := mem_of 0x200000 sound_table\<rparr>) \<and>
   doChecksum image0 0x200000 (console25\<lparr>mem := \<lambda>_. 0\<rparr>) = Some (True, console25\<lparr>mem := \<lambda>_. 0\<rparr>)"
proof -
  have "SDT_length (mem_of 0x200000 sound_table) 0x200000 = 9"
    by (simp add: SDT_length_def load32_def mem_eval sound_table_def)
  then have bs: "table_bytes (mem_of 0x200000 sound_table) 0x200000 = sound_table"
    by (simp add: table_bytes_def mem_eval sound_table_def)
  have "SDT_length (\<lambda>_. 0) 0x200000 = 0" by (simp add: SDT_length_def load32_def mem_eval)
  then have zero: "signed_sum (table_bytes (\<lambda>_. 0) 0x200000) = 0" by (simp add: table_bytes_def signed_sum_def)
  have "signed_sum sound_table = 256" "valid_checksum sound_table"
    by (simp_all add: signed_sum_def sound_table_def valid_checksum_def)
  then show ?thesis
    using doChecksum_signed_sum [of image0 "0x200000" "console25\<lparr>mem := mem_of 0x200000 sound_table\<rparr>"]
      doChecksum_signed_sum [of image0 "0x200000" "console25\<lparr>mem := \<lambda>_. 0\<rparr>"] bs zero
    by simp
qed

end
