(* ===== verification/Sata.thy ===== *)
theory Sata
  imports Acpi
begin

text \<open>
  The AHCI disk driver, \<open>kernel/disks/sata.c\<close> with the layouts of \<open>include/disks/sata.h\<close>.  The host
  bus adapter shares the memory: its registers are mapped there and it writes the buffers it is given.
  What it does is outside the program, a function \<open>hw\<close> that takes the number of register reads so far
  and the memory and yields the memory at the next read; every read of a register goes through it.
\<close>

record ahci = acpi +
  reg_reads :: nat

type_synonym hba = "nat \<Rightarrow> memory \<Rightarrow> memory"

definition reg_read :: "hba \<Rightarrow> addr \<Rightarrow> 'a ahci_scheme \<Rightarrow> u32 \<times> 'a ahci_scheme" where
  "reg_read hw a s = (let m = hw (reg_reads s) (mem s)
     in (load32 m a, s\<lparr>mem := m, reg_reads := Suc (reg_reads s)\<rparr>))"

definition set32 :: "addr \<Rightarrow> u32 \<Rightarrow> 'a machine_scheme \<Rightarrow> 'a machine_scheme" where
  "set32 a v s = s\<lparr>mem := store32 (mem s) a v\<rparr>"

definition set64 :: "addr \<Rightarrow> u64 \<Rightarrow> 'a machine_scheme \<Rightarrow> 'a machine_scheme" where
  "set64 a v s = s\<lparr>mem := store64 (mem s) a v\<rparr>"

definition set8 :: "addr \<Rightarrow> u8 \<Rightarrow> 'a machine_scheme \<Rightarrow> 'a machine_scheme" where
  "set8 a v s = s\<lparr>mem := (mem s)(a := v)\<rparr>"

section \<open>Layouts\<close>

datatype PortType = NoPort | SATA | SEMB | PM | SATAPI

fun PortType_code :: "PortType \<Rightarrow> u32" where
  "PortType_code NoPort = 0"
| "PortType_code SATA = 1"
| "PortType_code SEMB = 2"
| "PortType_code PM = 3"
| "PortType_code SATAPI = 4"

definition HBA_PORT_DEV_PRESENT :: u8 where "HBA_PORT_DEV_PRESENT = 0x3"
definition HBA_PORT_IPM_ACTIVE :: u8 where "HBA_PORT_IPM_ACTIVE = 0x1"
definition SATA_SIG_ATAPI :: u32 where "SATA_SIG_ATAPI = 0xEB140101"
definition SATA_SIG_ATA :: u32 where "SATA_SIG_ATA = 0x00000101"
definition SATA_SIG_SEMB :: u32 where "SATA_SIG_SEMB = 0xC33C0101"
definition SATA_SIG_PM :: u32 where "SATA_SIG_PM = 0x96690101"
definition HBA_PxCMD_CR :: u32 where "HBA_PxCMD_CR = 0x8000"
definition HBA_PxCMD_FRE :: u32 where "HBA_PxCMD_FRE = 0x0010"
definition HBA_PxCMD_ST :: u32 where "HBA_PxCMD_ST = 0x0001"
definition HBA_PxCMD_FR :: u32 where "HBA_PxCMD_FR = 0x4000"
definition ATA_DEV_BUSY :: u32 where "ATA_DEV_BUSY = 0x80"
definition ATA_DEV_DRQ :: u32 where "ATA_DEV_DRQ = 0x08"
definition ATA_CMD_READ_DMA_EX :: u8 where "ATA_CMD_READ_DMA_EX = 0x25"
definition HBA_PxIS_TFES :: u32 where "HBA_PxIS_TFES = push_bit 30 1"
definition FIS_TYPE_REG_H2D :: u8 where "FIS_TYPE_REG_H2D = 0x27"

lemmas sata_consts = HBA_PORT_DEV_PRESENT_def HBA_PORT_IPM_ACTIVE_def SATA_SIG_ATAPI_def SATA_SIG_ATA_def
  SATA_SIG_SEMB_def SATA_SIG_PM_def HBA_PxCMD_CR_def HBA_PxCMD_FRE_def HBA_PxCMD_ST_def HBA_PxCMD_FR_def
  ATA_DEV_BUSY_def ATA_DEV_DRQ_def ATA_CMD_READ_DMA_EX_def HBA_PxIS_TFES_def FIS_TYPE_REG_H2D_def

text \<open>The registers of a port, the offsets of \<open>HBAPort\<close>.\<close>

abbreviation (input) "commandListBase \<equiv> 0 :: addr"
abbreviation (input) "commandListBaseUpper \<equiv> 4 :: addr"
abbreviation (input) "fisBaseAddress \<equiv> 8 :: addr"
abbreviation (input) "fisBaseAddressUpper \<equiv> 12 :: addr"
abbreviation (input) "interruptStatus \<equiv> 16 :: addr"
abbreviation (input) "cmdSts \<equiv> 24 :: addr"
abbreviation (input) "taskFileData \<equiv> 32 :: addr"
abbreviation (input) "signature \<equiv> 36 :: addr"
abbreviation (input) "sataStatus \<equiv> 40 :: addr"
abbreviation (input) "commandIssue \<equiv> 56 :: addr"

text \<open>\<open>HBAMemory\<close>: the ports, of 128 bytes each, follow the 256 bytes of the generic registers.\<close>

abbreviation (input) "portsImplemented \<equiv> 12 :: addr"

definition hba_port :: "addr \<Rightarrow> nat \<Rightarrow> addr" where
  "hba_port abar i = abar + 0x100 + 0x80 * of_nat i"

text \<open>The fields of \<open>Port\<close> (32 bytes) and \<open>AHCIDriver\<close> (280 bytes).\<close>

definition port_hbaPort :: "memory \<Rightarrow> addr \<Rightarrow> addr" where "port_hbaPort m port = load64 m port"

definition port_buffer :: "memory \<Rightarrow> addr \<Rightarrow> addr" where "port_buffer m port = load64 m (port + 16)"

definition sizeof_Port :: u64 where "sizeof_Port = 32"

definition driver_ABAR :: "memory \<Rightarrow> addr \<Rightarrow> addr" where "driver_ABAR m driver = load64 m (driver + 8)"

definition driver_slot :: "addr \<Rightarrow> u8 \<Rightarrow> addr" where "driver_slot driver n = driver + 16 + 8 * ucast n"

definition driver_portCount :: "memory \<Rightarrow> addr \<Rightarrow> u8" where "driver_portCount m driver = m (driver + 272)"

definition sizeof_AHCIDriver :: u64 where "sizeof_AHCIDriver = 280"

section \<open>Ports\<close>

definition CheckPortType :: "hba \<Rightarrow> addr \<Rightarrow> 'a ahci_scheme \<Rightarrow> PortType \<times> 'a ahci_scheme" where
  "CheckPortType hw port s =
     (let (status, s) = reg_read hw (port + sataStatus) s;
          interfacePowerManagement = ucast (drop_bit 8 status AND 0b111) :: u8;
          deviceDetection = ucast (status AND 0b111) :: u8
      in if deviceDetection \<noteq> HBA_PORT_DEV_PRESENT then (NoPort, s)
         else if interfacePowerManagement \<noteq> HBA_PORT_IPM_ACTIVE then (NoPort, s)
         else let (sig, s) = reg_read hw (port + signature) s
              in (if sig = SATA_SIG_ATAPI then SATAPI
                  else if sig = SATA_SIG_ATA then SATA
                  else if sig = SATA_SIG_PM then PM
                  else if sig = SATA_SIG_SEMB then SEMB
                  else NoPort, s))"

definition new_port :: "addr \<Rightarrow> nat \<Rightarrow> PortType \<Rightarrow> 'a ahci_scheme \<Rightarrow> 'a ahci_scheme option" where
  "new_port driver i portType s =
     do { (p, s) \<leftarrow> malloc sizeof_Port s;
          let count = (\<lambda>s :: 'a ahci_scheme. driver_portCount (mem s) driver);
          let slot = (\<lambda>s :: 'a ahci_scheme. load64 (mem s) (driver_slot driver (count s)));
          let s = set64 (driver_slot driver (count s)) p s;
          let s = set32 (slot s + 8) (PortType_code portType) s;
          let s = set64 (slot s) (hba_port (driver_ABAR (mem s) driver) i) s;
          let s = set8 (slot s + 24) (count s) s;
          Some (set8 (driver + 272) (count s + 1) s) }"

definition probe_port :: "hba \<Rightarrow> addr \<Rightarrow> u32 \<Rightarrow> nat \<Rightarrow> 'a ahci_scheme \<Rightarrow> 'a ahci_scheme option" where
  "probe_port hw driver implemented i s =
     (if implemented AND push_bit i 1 \<noteq> 0
      then let (portType, s) = CheckPortType hw (hba_port (driver_ABAR (mem s) driver) i) s
           in if portType = SATA \<or> portType = SATAPI then new_port driver i portType s else Some s
      else Some s)"

fun probe_ports :: "hba \<Rightarrow> addr \<Rightarrow> u32 \<Rightarrow> nat list \<Rightarrow> 'a ahci_scheme \<Rightarrow> 'a ahci_scheme option" where
  "probe_ports hw driver implemented [] s = Some s"
| "probe_ports hw driver implemented (i # is) s =
     Option.bind (probe_port hw driver implemented i s) (probe_ports hw driver implemented is)"

definition ProbePorts :: "hba \<Rightarrow> addr \<Rightarrow> 'a ahci_scheme \<Rightarrow> 'a ahci_scheme option" where
  "ProbePorts hw driver s =
     (let (implemented, s) = reg_read hw (driver_ABAR (mem s) driver + portsImplemented) s
      in probe_ports hw driver implemented [0..<32] s)"

section \<open>Starting and stopping\<close>

definition reg_update :: "hba \<Rightarrow> addr \<Rightarrow> (u32 \<Rightarrow> u32) \<Rightarrow> 'a ahci_scheme \<Rightarrow> 'a ahci_scheme" where
  "reg_update hw a f s = (let (v, s) = reg_read hw a s in set32 a (f v) s)"

text \<open>The waiting loops end when the adapter lets them; not returning is None.\<close>

partial_function (option) stop_wait :: "hba \<Rightarrow> addr \<Rightarrow> 'a ahci_scheme \<Rightarrow> 'a ahci_scheme option" where
  "stop_wait hw port s =
     (let (v, s) = reg_read hw (port_hbaPort (mem s) port + cmdSts) s
      in if v AND HBA_PxCMD_FR \<noteq> 0 then stop_wait hw port s
         else let (v, s) = reg_read hw (port_hbaPort (mem s) port + cmdSts) s
              in if v AND HBA_PxCMD_CR \<noteq> 0 then stop_wait hw port s else Some s)"

definition StopCMD :: "hba \<Rightarrow> addr \<Rightarrow> 'a ahci_scheme \<Rightarrow> 'a ahci_scheme option" where
  "StopCMD hw port s =
     (let s = reg_update hw (port_hbaPort (mem s) port + cmdSts) (\<lambda>v. v AND NOT HBA_PxCMD_ST) s;
          s = reg_update hw (port_hbaPort (mem s) port + cmdSts) (\<lambda>v. v AND NOT HBA_PxCMD_FRE) s
      in stop_wait hw port s)"

partial_function (option) start_wait :: "hba \<Rightarrow> addr \<Rightarrow> 'a ahci_scheme \<Rightarrow> 'a ahci_scheme option" where
  "start_wait hw port s =
     (let (v, s) = reg_read hw (port_hbaPort (mem s) port + cmdSts) s
      in if v AND HBA_PxCMD_CR \<noteq> 0 then start_wait hw port s else Some s)"

definition StartCMD :: "hba \<Rightarrow> addr \<Rightarrow> 'a ahci_scheme \<Rightarrow> 'a ahci_scheme option" where
  "StartCMD hw port s =
     do { s \<leftarrow> start_wait hw port s;
          let s = reg_update hw (port_hbaPort (mem s) port + cmdSts) (\<lambda>v. v OR HBA_PxCMD_FRE) s;
          Some (reg_update hw (port_hbaPort (mem s) port + cmdSts) (\<lambda>v. v OR HBA_PxCMD_ST) s) }"

section \<open>Configuration\<close>

text \<open>Command headers have 32 bytes: \<open>prdtLength\<close> at 2, \<open>commandTableBaseAddress\<close> at 8 and 12.\<close>

definition command_header :: "addr \<Rightarrow> nat \<Rightarrow> addr" where
  "command_header cmdHeader i = cmdHeader + 32 * of_nat i"

definition set_table :: "addr \<Rightarrow> u64 \<Rightarrow> 'a machine_scheme \<Rightarrow> 'a machine_scheme" where
  "set_table header address s =
     set32 (header + 12) (ucast (drop_bit 32 address)) (set32 (header + 8) (ucast address) s)"

definition configure_slot :: "addr \<Rightarrow> nat \<Rightarrow> 'a ahci_scheme \<Rightarrow> 'a ahci_scheme option" where
  "configure_slot cmdHeader i s =
     do { let s = s\<lparr>mem := store16 (mem s) (command_header cmdHeader i + 2) 8\<rparr>;
          (cmdTableAddress, s) \<leftarrow> malloc 4096 s;
          let s = set_table (command_header cmdHeader i) (cmdTableAddress + push_bit 8 (of_nat i)) s;
          Some (s\<lparr>mem := memset cmdTableAddress 0 256 (mem s)\<rparr>) }"

fun configure_slots :: "addr \<Rightarrow> nat list \<Rightarrow> 'a ahci_scheme \<Rightarrow> 'a ahci_scheme option" where
  "configure_slots cmdHeader [] s = Some s"
| "configure_slots cmdHeader (i # is) s =
     Option.bind (configure_slot cmdHeader i s) (configure_slots cmdHeader is)"

text \<open>
  The command list is cleared through the low half of its address only.
\<close>

definition Configure :: "hba \<Rightarrow> addr \<Rightarrow> 'a ahci_scheme \<Rightarrow> 'a ahci_scheme option" where
  "Configure hw port s =
     do { s \<leftarrow> StopCMD hw port s;
          (newBase, s) \<leftarrow> malloc 4096 s;
          let s = set32 (port_hbaPort (mem s) port + commandListBase) (ucast newBase) s;
          let s = set32 (port_hbaPort (mem s) port + commandListBaseUpper) (ucast (drop_bit 32 newBase)) s;
          let (clb, s) = reg_read hw (port_hbaPort (mem s) port + commandListBase) s;
          let s = s\<lparr>mem := memset (ucast clb) 0 1024 (mem s)\<rparr>;
          (fisBase, s) \<leftarrow> malloc 4096 s;
          let s = set32 (port_hbaPort (mem s) port + fisBaseAddress) (ucast fisBase) s;
          let s = set32 (port_hbaPort (mem s) port + fisBaseAddressUpper) (ucast (drop_bit 32 fisBase)) s;
          let s = s\<lparr>mem := memset fisBase 0 256 (mem s)\<rparr>;
          let (lo, s) = reg_read hw (port_hbaPort (mem s) port + commandListBase) s;
          let (hi, s) = reg_read hw (port_hbaPort (mem s) port + commandListBaseUpper) s;
          s \<leftarrow> configure_slots (ucast lo + push_bit 32 (ucast hi)) [0..<32] s;
          StartCMD hw port s }"

section \<open>Reading sectors\<close>

text \<open>
  The command: slot 0 of the list, whose address and whose table's address are taken from the low
  halves; a table of one entry, and the frame (\<open>FIS_REG_H2D\<close>, 20 bytes) at its start.  Bit fields are
  written into their bits of the containing byte or word.
\<close>

definition sizeof_FIS_REG_H2D :: nat where "sizeof_FIS_REG_H2D = 20"

definition sizeof_HBACommandTable :: int where "sizeof_HBACommandTable = 128"

definition sizeof_HBAPRDTEntry :: int where "sizeof_HBAPRDTEntry = 16"

definition read_header :: "addr \<Rightarrow> 'a machine_scheme \<Rightarrow> 'a machine_scheme" where
  "read_header cmdHeader s =
     (let s = set8 cmdHeader ((mem s cmdHeader AND 0xE0) OR of_nat (sizeof_FIS_REG_H2D div 4)) s;
          s = set8 cmdHeader (mem s cmdHeader AND NOT 0x40) s
      in s\<lparr>mem := store16 (mem s) (cmdHeader + 2) 1\<rparr>)"

text \<open>\<open>prdtEntry[0]\<close>: the buffer, a 22-bit byte count and the interrupt bit 31.\<close>

definition read_prdt :: "addr \<Rightarrow> u32 \<Rightarrow> addr \<Rightarrow> 'a machine_scheme \<Rightarrow> 'a machine_scheme" where
  "read_prdt prdt sectorCount buffer s =
     (let s = set32 prdt (ucast buffer) s;
          s = set32 (prdt + 4) (ucast (drop_bit 32 buffer)) s;
          s = set32 (prdt + 12)
                ((load32 (mem s) (prdt + 12) AND NOT 0x3FFFFF) OR ((push_bit 9 sectorCount - 1) AND 0x3FFFFF)) s
      in set32 (prdt + 12) ((load32 (mem s) (prdt + 12) AND NOT 0x80000000) OR 0x80000000) s)"

definition read_fis :: "addr \<Rightarrow> u64 \<Rightarrow> u32 \<Rightarrow> 'a machine_scheme \<Rightarrow> 'a machine_scheme" where
  "read_fis cmdFIS sector sectorCount s =
     (let sectorL = ucast sector :: u32;
          sectorH = ucast (drop_bit 32 sector) :: u32;
          s = set8 cmdFIS FIS_TYPE_REG_H2D s;
          s = set8 (cmdFIS + 1) ((mem s (cmdFIS + 1) AND 0x7F) OR 0x80) s;
          s = set8 (cmdFIS + 2) ATA_CMD_READ_DMA_EX s;
          s = set8 (cmdFIS + 4) (ucast sectorL) s;
          s = set8 (cmdFIS + 5) (ucast (drop_bit 8 sectorL)) s;
          s = set8 (cmdFIS + 6) (ucast (drop_bit 16 sectorL)) s;
          s = set8 (cmdFIS + 8) (ucast sectorH) s;
          s = set8 (cmdFIS + 9) (ucast (drop_bit 8 sectorH)) s;
          s = set8 (cmdFIS + 9) (ucast (drop_bit 16 sectorH)) s;
          s = set8 (cmdFIS + 7) (push_bit 6 1) s;
          s = set8 (cmdFIS + 12) (ucast (sectorCount AND 0xFF)) s
      in set8 (cmdFIS + 13) (ucast (drop_bit 8 sectorCount AND 0xFF)) s)"

definition read_command :: "hba \<Rightarrow> addr \<Rightarrow> u64 \<Rightarrow> u32 \<Rightarrow> addr \<Rightarrow> 'a ahci_scheme \<Rightarrow> 'a ahci_scheme" where
  "read_command hw port sector sectorCount buffer s =
     (let s = set32 (port_hbaPort (mem s) port + interruptStatus) (-1) s;
          (clb, s) = reg_read hw (port_hbaPort (mem s) port + commandListBase) s;
          cmdHeader = ucast clb :: addr;
          s = read_header cmdHeader s;
          commandTable = ucast (load32 (mem s) (cmdHeader + 8)) :: addr;
          s = s\<lparr>mem := memset commandTable 0
                (sizeof_HBACommandTable + (uint (load16 (mem s) (cmdHeader + 2)) - 1) * sizeof_HBAPRDTEntry) (mem s)\<rparr>;
          s = read_prdt (commandTable + 128) sectorCount buffer s
      in read_fis commandTable sector sectorCount s)"

function read_spin :: "hba \<Rightarrow> addr \<Rightarrow> u64 \<Rightarrow> 'a ahci_scheme \<Rightarrow> u64 \<times> 'a ahci_scheme" where
  "read_spin hw port spin s =
     (case reg_read hw (port_hbaPort (mem s) port + taskFileData) s of (tfd, s') \<Rightarrow>
        if tfd AND (ATA_DEV_BUSY OR ATA_DEV_DRQ) \<noteq> 0 \<and> spin < 1000000 then read_spin hw port (spin + 1) s'
        else (spin, s'))"
  by pat_completeness auto
termination
proof (relation "measure (\<lambda>(hw, port, spin, s). 1000000 - unat spin)", goal_cases)
  case (2 hw port spin s x y)
  then have lt: "spin < 1000000" by blast
  then have "unat (spin + 1) = Suc (unat spin)" by (rule unat_Suc_less)
  then show ?case using lt by (simp add: word_less_nat_alt)
qed simp

declare read_spin.simps [simp del]

partial_function (option) read_wait :: "hba \<Rightarrow> addr \<Rightarrow> 'a ahci_scheme \<Rightarrow> (int \<times> 'a ahci_scheme) option" where
  "read_wait hw port s =
     (let (ci, s) = reg_read hw (port_hbaPort (mem s) port + commandIssue) s
      in if ci = 0 then Some (1, s)
         else let (is, s) = reg_read hw (port_hbaPort (mem s) port + interruptStatus) s
              in if is AND HBA_PxIS_TFES \<noteq> 0 then Some (0, s) else read_wait hw port s)"

definition Read :: "hba \<Rightarrow> addr \<Rightarrow> u64 \<Rightarrow> u32 \<Rightarrow> addr \<Rightarrow> 'a ahci_scheme \<Rightarrow> (int \<times> 'a ahci_scheme) option" where
  "Read hw port sector sectorCount buffer s =
     (let s = read_command hw port sector sectorCount buffer s;
          (spin, s) = read_spin hw port 0 s
      in if spin = 1000000 then Some (0, s)
         else read_wait hw port (set32 (port_hbaPort (mem s) port + commandIssue) 1 s))"

section \<open>The driver\<close>

definition start_port :: "image \<Rightarrow> hba \<Rightarrow> addr \<Rightarrow> 'a ahci_scheme \<Rightarrow> 'a ahci_scheme option" where
  "start_port img hw port s =
     do { s \<leftarrow> Configure hw port s;
          (b, s) \<leftarrow> malloc 4096 s;
          let s = set64 (port + 16) b s;
          let s = s\<lparr>mem := memset (port_buffer (mem s) port) 0 0x1000 (mem s)\<rparr>;
          (_, s) \<leftarrow> Read hw port 0 1 (port_buffer (mem s) port) s;
          map_option snd (printf img (lit ''hi: %s'') [VPtr (Addr (port_buffer (mem s) port))] s) }"

text \<open>\<open>portCount\<close> is a byte, read again in every round.\<close>

function start_ports :: "image \<Rightarrow> hba \<Rightarrow> addr \<Rightarrow> nat \<Rightarrow> 'a ahci_scheme \<Rightarrow> 'a ahci_scheme option" where
  "start_ports img hw driver i s =
     (if i < unat (driver_portCount (mem s) driver)
      then Option.bind (start_port img hw (load64 (mem s) (driver_slot driver (of_nat i))) s)
             (start_ports img hw driver (Suc i))
      else Some s)"
  by pat_completeness auto
termination
proof (relation "measure (\<lambda>(img, hw, driver, i, s). 256 - i)", goal_cases)
  case (2 img hw driver i s z)
  moreover have "unat (driver_portCount (mem s) driver) < 256"
    by (rule order_less_le_trans [OF unsigned_less]) simp
  ultimately show ?case by simp
qed simp

declare start_ports.simps [simp del]

text \<open>
  \<open>BAR5\<close> is at offset 0x24 of the configuration space, which is mapped into memory.  The counter
  \<open>portCount\<close> keeps what the block held before.
\<close>

definition AHCIDriver_Init :: "image \<Rightarrow> hba \<Rightarrow> addr \<Rightarrow> 'a ahci_scheme \<Rightarrow> (addr \<times> 'a ahci_scheme) option" where
  "AHCIDriver_Init img hw pciBaseAddress s =
     do { (driver, s) \<leftarrow> malloc sizeof_AHCIDriver s;
          let s = set64 driver pciBaseAddress s;
          let s = set64 (driver + 8) (ucast (load32 (mem s) (pciBaseAddress + 0x24))) s;
          s \<leftarrow> ProbePorts hw driver s;
          s \<leftarrow> start_ports img hw driver 0 s;
          Some (driver, s) }"

definition AHCIDriver_Destroy :: "addr \<Rightarrow> 'a ahci_scheme \<Rightarrow> 'a ahci_scheme" where
  "AHCIDriver_Destroy driver s = free driver s"

section \<open>The command that \<open>Read\<close> builds\<close>

lemma mem_set [simp]:
  "mem (set8 a v8 s) = (mem s)(a := v8)" "mem (set32 a v32 s) = store32 (mem s) a v32"
  "mem (set64 a v64 s) = store64 (mem s) a v64"
  by (simp_all add: set8_def set32_def set64_def)

text \<open>The frame a slot's table holds: sector number and count as the device reads them.\<close>

definition fis_lba :: "u8 list \<Rightarrow> nat" where
  "fis_lba f = unat (f ! 4) + 2 ^ 8 * unat (f ! 5) + 2 ^ 16 * unat (f ! 6) +
     2 ^ 24 * unat (f ! 8) + 2 ^ 32 * unat (f ! 9) + 2 ^ 40 * unat (f ! 10)"

definition fis_count :: "u8 list \<Rightarrow> nat" where
  "fis_count f = unat (f ! 12) + 2 ^ 8 * unat (f ! 13)"

definition read_frame :: "u64 \<Rightarrow> u32 \<Rightarrow> u8 list" where
  "read_frame sector n =
     [0x27, 0x80, 0x25, 0, ucast sector, ucast (drop_bit 8 sector), ucast (drop_bit 16 sector), 0x40,
      ucast (drop_bit 32 sector), ucast (drop_bit 48 sector), 0, 0,
      ucast n, ucast (drop_bit 8 n), 0, 0, 0, 0, 0, 0]"

lemma load_bytes_20: "load_bytes m a 20 =
    [m a, m (a + 1), m (a + 2), m (a + 3), m (a + 4), m (a + 5), m (a + 6), m (a + 7), m (a + 8), m (a + 9),
     m (a + 10), m (a + 11), m (a + 12), m (a + 13), m (a + 14), m (a + 15), m (a + 16), m (a + 17), m (a + 18),
     m (a + 19)]"
  by (simp add: load_bytes_numeral add.assoc)

lemma sector_bytes:
  "(ucast (ucast (w :: u64) :: u32) :: u8) = ucast w"
  "(ucast (drop_bit 8 (ucast w :: u32)) :: u8) = ucast (drop_bit 8 w)"
  "(ucast (drop_bit 16 (ucast w :: u32)) :: u8) = ucast (drop_bit 16 w)"
  "(ucast (drop_bit 16 (ucast (drop_bit 32 w) :: u32)) :: u8) = ucast (drop_bit 48 w)"
  by (rule bit_word_eqI, auto simp: bit_simps)+

lemma low_byte: "(ucast ((n :: u32) AND 0xFF) :: u8) = ucast n"
proof -
  have m: "n AND 0xFF = take_bit 8 n" by (simp add: take_bit_eq_mask mask_eq_exp_minus_1)
  show ?thesis unfolding m by (rule bit_word_eqI) (auto simp: bit_simps)
qed

lemma read_fis_bytes:
  assumes "load_bytes (mem s) fis 20 = replicate 20 0"
  shows "load_bytes (mem (read_fis fis sector n s)) fis 20 = read_frame sector n"
proof -
  have z: "mem s (fis + 1) = 0" "mem s (fis + 3) = 0" "mem s (fis + 10) = 0" "mem s (fis + 11) = 0"
    "mem s (fis + 14) = 0" "mem s (fis + 15) = 0" "mem s (fis + 16) = 0" "mem s (fis + 17) = 0"
    "mem s (fis + 18) = 0" "mem s (fis + 19) = 0"
    using assms unfolding load_bytes_20 by (simp_all add: numeral_eq_Suc)
  show ?thesis unfolding load_bytes_20 read_frame_def read_fis_def Let_def
    by (simp add: z sector_bytes low_byte FIS_TYPE_REG_H2D_def ATA_CMD_READ_DMA_EX_def)
qed

text \<open>What the frame says.  Bytes 24 to 31 of the sector number are lost, and so are bits 40 to 47.\<close>

lemma unat_ucast_drop: "unat (ucast (drop_bit k (w :: 'a::len word)) :: u8) = unat w div 2 ^ k mod 2 ^ 8"
  by (simp add: unsigned_ucast_eq unat_drop_bit_div take_bit_eq_mod)

lemma mod_2_bytes: "(x :: nat) mod 2 ^ 16 = x mod 2 ^ 8 + 2 ^ 8 * (x div 2 ^ 8 mod 2 ^ 8)"
  using mod_mult2_eq [of x "2 ^ 8" "2 ^ 8"] by simp

lemma mod_3_bytes:
  "(x :: nat) mod 2 ^ 24 = x mod 2 ^ 8 + 2 ^ 8 * (x div 2 ^ 8 mod 2 ^ 8) + 2 ^ 16 * (x div 2 ^ 16 mod 2 ^ 8)"
proof -
  have "x mod 2 ^ 24 = x mod 2 ^ 16 + 2 ^ 16 * (x div 2 ^ 16 mod 2 ^ 8)"
    using mod_mult2_eq [of x "2 ^ 16" "2 ^ 8"] by simp
  then show ?thesis by (simp only: mod_2_bytes)
qed

lemma read_frame_lba: "fis_lba (read_frame sector n) =
    unat sector mod 2 ^ 24 + 2 ^ 24 * (unat sector div 2 ^ 32 mod 2 ^ 8) + 2 ^ 32 * (unat sector div 2 ^ 48 mod 2 ^ 8)"
  using unat_ucast_drop [of 0 sector]
  by (simp only: fis_lba_def read_frame_def mod_3_bytes) (simp add: unat_ucast_drop)

lemma read_frame_count: "fis_count (read_frame sector n) = unat n mod 2 ^ 16"
  using unat_ucast_drop [of 0 n]
  by (simp only: fis_count_def read_frame_def mod_2_bytes) (simp add: unat_ucast_drop)

lemma frame_lba_exact:
  fixes x :: nat
  shows "x mod 2 ^ 24 + 2 ^ 24 * (x div 2 ^ 32 mod 2 ^ 8) + 2 ^ 32 * (x div 2 ^ 48 mod 2 ^ 8) = x \<longleftrightarrow> x < 2 ^ 24"
    (is "_ + _ * ?a + _ * ?b = x \<longleftrightarrow> _")
proof
  assume eq: "x mod 2 ^ 24 + 2 ^ 24 * ?a + 2 ^ 32 * ?b = x"
  have small: "?a < 2 ^ 8" "?b < 2 ^ 8" by simp_all
  have "x mod 2 ^ 24 + 2 ^ 24 * (x div 2 ^ 24) = x" by simp
  with eq have "2 ^ 24 * (x div 2 ^ 24) = 2 ^ 24 * ?a + 2 ^ 32 * ?b" by linarith
  moreover have "2 ^ 24 * q = 2 ^ 24 * a + 2 ^ 32 * b \<Longrightarrow> q = a + 2 ^ 8 * b" for q a b :: nat by simp
  ultimately have q: "x div 2 ^ 24 = ?a + 2 ^ 8 * ?b" by blast
  with small have "x div 2 ^ 24 < 2 ^ 16" by simp
  then have "x < 2 ^ 48" by (simp add: div_less_iff_less_mult)
  then have b: "?b = 0" by simp
  with q small have "x div 2 ^ 24 < 2 ^ 8" by simp
  then have "x < 2 ^ 32" by (simp add: div_less_iff_less_mult)
  then have "?a = 0" by simp
  with q b have "x div 2 ^ 24 = 0" by simp
  then show "x < 2 ^ 24" by simp
qed simp

text \<open>Where \<open>Read\<close> puts the frame: the table of the first command header.\<close>

definition command_table :: "hba \<Rightarrow> addr \<Rightarrow> 'a ahci_scheme \<Rightarrow> addr" where
  "command_table hw port s =
     (let s = set32 (port_hbaPort (mem s) port + interruptStatus) (-1) s;
          (clb, s) = reg_read hw (port_hbaPort (mem s) port + commandListBase) s
      in ucast (load32 (mem s) (ucast clb + 8)))"

lemma read_header_frame: "b \<notin> span h 4 \<Longrightarrow> mem (read_header h s) b = mem s b"
proof -
  assume b: "b \<notin> span h 4"
  moreover have "span (h + 2) 2 \<subseteq> span h 4" "h \<in> span h 4"
    using span_sub [of 2 2 4 h] span_nth [of 0 4 h] by simp_all
  ultimately have "b \<notin> span (h + 2) 2" "b \<noteq> h" by blast+
  then show ?thesis by (simp add: read_header_def Let_def store16_def store_bytes_frame)
qed

lemma read_header_length: "load16 (mem (read_header h s)) (h + 2) = 1"
  by (simp add: read_header_def Let_def)

lemma read_prdt_frame: "b \<notin> span p 16 \<Longrightarrow> mem (read_prdt p n buf s) b = mem s b"
proof -
  assume "b \<notin> span p 16"
  moreover have "span p 4 \<subseteq> span p 16" "span (p + 4) 4 \<subseteq> span p 16" "span (p + 12) 4 \<subseteq> span p 16"
    using span_sub [of 0 4 16 p] span_sub [of 4 4 16 p] span_sub [of 12 4 16 p] by simp_all
  ultimately have "b \<notin> span p 4" "b \<notin> span (p + 4) 4" "b \<notin> span (p + 12) 4" by blast+
  then show ?thesis by (simp add: read_prdt_def Let_def store32_def store_bytes_frame)
qed

lemma read_command_frame:
  "load_bytes (mem (read_command hw port sector n buf s)) (command_table hw port s) 20 = read_frame sector n"
proof -
  let ?s1 = "set32 (port_hbaPort (mem s) port + interruptStatus) (-1) s"
  obtain clb s2 where r: "reg_read hw (port_hbaPort (mem ?s1) port + commandListBase) ?s1 = (clb, s2)"
    by (cases "reg_read hw (port_hbaPort (mem ?s1) port + commandListBase) ?s1")
  let ?h = "ucast clb :: addr" and ?ct = "command_table hw port s"
  let ?s3 = "read_header ?h s2"
  have "span ?h 4 \<inter> span (?h + 8) 4 = {}" using span_shift_disj [of 0 4 8 4 ?h] by simp
  then have "load32 (mem ?s3) (?h + 8) = load32 (mem s2) (?h + 8)"
    unfolding load32_def by (intro arg_cong [of _ _ le_word] load_bytes_cong read_header_frame) blast
  then have ct: "?ct = ucast (load32 (mem ?s3) (?h + 8))"
    using r by (simp add: command_table_def Let_def)
  let ?s4 = "?s3\<lparr>mem := memset ?ct 0 128 (mem ?s3)\<rparr>"
  let ?s5 = "read_prdt (?ct + 128) n buf ?s4"
  have run: "read_command hw port sector n buf s = read_fis ?ct sector n ?s5"
    using r by (simp add: read_command_def Let_def ct read_header_length sizeof_HBACommandTable_def)
  have "load_bytes (mem ?s4) ?ct 128 = replicate 128 0"
    using memset_store [of ?ct 0 128 "mem ?s3"] load_store_bytes [of "replicate 128 0" "mem ?s3" ?ct] by simp
  moreover have "load_bytes (mem ?s5) ?ct 20 = load_bytes (mem ?s4) ?ct 20"
  proof (rule load_bytes_cong)
    have "span ?ct 20 \<inter> span (?ct + 128) 16 = {}" using span_shift_disj [of 0 20 128 16 ?ct] by simp
    then show "\<And>b. b \<in> span ?ct 20 \<Longrightarrow> mem ?s5 b = mem ?s4 b" by (intro read_prdt_frame) blast
  qed
  moreover have "load_bytes (mem ?s4) ?ct 20 = take 20 (load_bytes (mem ?s4) ?ct 128)"
    using load_bytes_append [of "mem ?s4" ?ct 20 108] by simp
  ultimately have "load_bytes (mem ?s5) ?ct 20 = replicate 20 0" by simp
  then show ?thesis unfolding run by (rule read_fis_bytes)
qed

section \<open>The adapter's answers\<close>

text \<open>The state after \<open>n\<close> reads of registers between which the program writes nothing.\<close>

fun polled :: "hba \<Rightarrow> nat \<Rightarrow> 'a ahci_scheme \<Rightarrow> 'a ahci_scheme" where
  "polled hw 0 s = s"
| "polled hw (Suc n) s = polled hw n (snd (reg_read hw 0 s))"

definition answer :: "hba \<Rightarrow> addr \<Rightarrow> nat \<Rightarrow> addr \<Rightarrow> 'a ahci_scheme \<Rightarrow> u32" where
  "answer hw port n reg s = fst (reg_read hw (port_hbaPort (mem (polled hw n s)) port + reg) (polled hw n s))"

lemma reg_read_snd: "snd (reg_read hw a s) = snd (reg_read hw 0 s)"
  by (simp add: reg_read_def Let_def)

lemma reg_read_answer: "reg_read hw (port_hbaPort (mem s) port + reg) s = (answer hw port 0 reg s, polled hw 1 s)"
  by (simp add: answer_def prod_eq_iff reg_read_snd [of hw "port_hbaPort (mem s) port + reg"])

lemma polled_add: "polled hw n (polled hw k s) = polled hw (k + n) s"
  by (induction k arbitrary: s) simp_all

lemma answer_polled: "answer hw port n reg (polled hw k s) = answer hw port (k + n) reg s"
  by (simp add: answer_def polled_add)

lemma reg_reads_polled [simp]: "reg_reads (polled hw n s) = reg_reads s + n"
  by (induction n arbitrary: s) (simp_all add: polled.simps reg_read_def Let_def)

declare polled.simps(2) [simp del]

lemma read_wait_step: "read_wait hw port s =
    (if answer hw port 0 commandIssue s = 0 then Some (1, polled hw 1 s)
     else if answer hw port 1 interruptStatus s AND HBA_PxIS_TFES \<noteq> 0 then Some (0, polled hw 2 s)
     else read_wait hw port (polled hw 2 s))"
  by (subst read_wait.simps) (simp add: reg_read_answer answer_polled polled_add numeral_2_eq_2)

text \<open>The waiting loop of \<open>Read\<close> stops in round \<open>n\<close>.\<close>

definition read_stops :: "hba \<Rightarrow> addr \<Rightarrow> nat \<Rightarrow> 'a ahci_scheme \<Rightarrow> bool" where
  "read_stops hw port n s \<longleftrightarrow> answer hw port (2 * n) commandIssue s = 0 \<or>
     answer hw port (2 * n + 1) interruptStatus s AND HBA_PxIS_TFES \<noteq> 0"

lemma read_stops_Suc: "read_stops hw port (Suc n) s = read_stops hw port n (polled hw 2 s)"
  by (simp add: read_stops_def answer_polled)

lemma read_wait_returns:
  assumes "read_stops hw port n s"
  shows "\<exists>k\<le>n. read_stops hw port k s \<and> (\<forall>j<k. \<not> read_stops hw port j s) \<and>
    (let ok = answer hw port (2 * k) commandIssue s = 0 in
     read_wait hw port s = Some (if ok then 1 else 0, polled hw (2 * k + (if ok then 1 else 2)) s))"
  using assms
proof (induction n arbitrary: s)
  case 0
  then show ?case by (intro exI [of _ 0], subst read_wait_step) (auto simp: read_stops_def Let_def)
next
  case (Suc n)
  show ?case
  proof (cases "read_stops hw port 0 s")
    case True
    then show ?thesis by (intro exI [of _ 0], subst read_wait_step) (auto simp: read_stops_def Let_def)
  next
    case False
    let ?s = "polled hw 2 s"
    obtain k where k: "k \<le> n" "read_stops hw port k ?s" "\<forall>j<k. \<not> read_stops hw port j ?s"
      "let ok = answer hw port (2 * k) commandIssue ?s = 0 in
       read_wait hw port ?s = Some (if ok then 1 else 0, polled hw (2 * k + (if ok then 1 else 2)) ?s)"
      using Suc.IH [of ?s] Suc.prems by (auto simp: read_stops_Suc)
    have "read_wait hw port s = read_wait hw port ?s"
      using False by (subst read_wait_step) (simp add: read_stops_def)
    moreover have "\<forall>j<Suc k. \<not> read_stops hw port j s"
      using False k(3) by (auto simp: read_stops_Suc less_Suc_eq_0_disj)
    ultimately show ?thesis using k
      by (intro exI [of _ "Suc k"]) (simp add: read_stops_Suc answer_polled polled_add Let_def)
  qed
qed

lemma read_wait_stops: "read_wait hw port s = Some r \<Longrightarrow> \<exists>n. read_stops hw port n s"
proof (erule read_wait.raw_induct [rotated])
  fix f :: "hba \<Rightarrow> addr \<Rightarrow> 'a ahci_scheme \<Rightarrow> (int \<times> 'a ahci_scheme) option" and hw port s r
  assume IH: "\<And>hw port s r. f hw port s = Some r \<Longrightarrow> \<exists>n. read_stops hw port n s"
    and step: "(let (ci, s) = reg_read hw (port_hbaPort (mem s) port + commandIssue) s
      in if ci = 0 then Some (1, s)
         else let (is, s) = reg_read hw (port_hbaPort (mem s) port + interruptStatus) s
              in if is AND HBA_PxIS_TFES \<noteq> 0 then Some (0, s) else f hw port s) = Some r"
  show "\<exists>n. read_stops hw port n s"
  proof (cases "read_stops hw port 0 s")
    case False
    then have "f hw port (polled hw 2 s) = Some r"
      using step by (simp add: reg_read_answer answer_polled polled_add read_stops_def numeral_2_eq_2)
    from IH [OF this] show ?thesis using read_stops_Suc by blast
  qed blast
qed

text \<open>The busy loop in front of the command.\<close>

definition idle :: "hba \<Rightarrow> addr \<Rightarrow> nat \<Rightarrow> 'a ahci_scheme \<Rightarrow> bool" where
  "idle hw port k s \<longleftrightarrow> answer hw port k taskFileData s AND (ATA_DEV_BUSY OR ATA_DEV_DRQ) = 0"

lemma idle_polled: "idle hw port k (polled hw j s) = idle hw port (j + k) s"
  by (simp add: idle_def answer_polled)

lemma read_spin_step: "read_spin hw port spin s =
    (if \<not> idle hw port 0 s \<and> spin < 1000000 then read_spin hw port (spin + 1) (polled hw 1 s) else (spin, polled hw 1 s))"
  by (subst read_spin.simps) (simp add: reg_read_answer idle_def)

lemma read_spin_busy:
  "(\<And>j. j < k \<Longrightarrow> \<not> idle hw port j s) \<Longrightarrow> k \<le> 1000000 \<Longrightarrow>
   read_spin hw port 0 s = read_spin hw port (of_nat k) (polled hw k s)"
proof (induction k)
  case (Suc k)
  have "unat (of_nat k :: u64) = k" using Suc.prems(2) by (intro unat_of_nat_lt) simp
  then have "(of_nat k :: u64) < 1000000" using Suc.prems(2) by (simp add: word_less_nat_alt)
  moreover have "\<not> idle hw port 0 (polled hw k s)" using Suc.prems(1) [of k] by (simp add: idle_polled)
  ultimately have "read_spin hw port (of_nat k) (polled hw k s) = read_spin hw port (of_nat (Suc k)) (polled hw (Suc k) s)"
    by (subst read_spin_step) (simp add: polled_add add.commute)
  with Suc show ?case by simp
qed simp

definition spin_end :: "hba \<Rightarrow> addr \<Rightarrow> 'a ahci_scheme \<Rightarrow> nat" where
  "spin_end hw port s = (LEAST k. k = 1000000 \<or> idle hw port k s)"

lemma read_spin_result: "read_spin hw port 0 s = (of_nat (spin_end hw port s), polled hw (Suc (spin_end hw port s)) s)"
proof -
  let ?P = "\<lambda>k. k = (1000000 :: nat) \<or> idle hw port k s" and ?k = "spin_end hw port s"
  have P: "?P ?k" unfolding spin_end_def by (rule LeastI [of ?P 1000000]) simp
  have le: "?k \<le> 1000000" unfolding spin_end_def by (rule Least_le) simp
  have "\<not> ?P j" if "j < ?k" for j using not_less_Least [of j ?P] that by (simp add: spin_end_def)
  then have "read_spin hw port 0 s = read_spin hw port (of_nat ?k) (polled hw ?k s)"
    using le by (intro read_spin_busy) auto
  moreover have "read_spin hw port (of_nat ?k) (polled hw ?k s) = (of_nat ?k, polled hw (Suc ?k) s)"
    using P by (subst read_spin_step) (auto simp: idle_polled polled_add)
  ultimately show ?thesis by simp
qed

lemma spin_end_timeout: "(of_nat (spin_end hw port s) :: u64) = 1000000 \<longleftrightarrow> spin_end hw port s = 1000000"
proof -
  have "spin_end hw port s \<le> 1000000" unfolding spin_end_def by (rule Least_le) simp
  then have "unat (of_nat (spin_end hw port s) :: u64) = spin_end hw port s" by (intro unat_of_nat_lt) simp
  then show ?thesis by (auto simp: word_unat_eq_iff)
qed

section \<open>The command tables\<close>

definition table_address :: "memory \<Rightarrow> addr \<Rightarrow> u64" where
  "table_address m header = ucast (load32 m (header + 8)) + push_bit 32 (ucast (load32 m (header + 12)))"

lemma address_halves: "(ucast (ucast (w :: u64) :: u32) :: u64) + push_bit 32 (ucast (ucast (drop_bit 32 w) :: u32)) = w"
proof -
  have "(ucast (ucast w :: u32) :: u64) = take_bit 32 w" by (rule bit_word_eqI) (auto simp: bit_simps)
  moreover have "push_bit 32 (ucast (ucast (drop_bit 32 w) :: u32)) = push_bit 32 (drop_bit 32 w)"
    by (rule bit_word_eqI) (auto simp: bit_simps dest: bit_imp_le_length)
  ultimately show ?thesis using bits_ident [of 32 w] by (simp add: add.commute)
qed

lemma set_table_address: "table_address (mem (set_table h w s)) h = w"
proof -
  have "span (h + 8) 4 \<inter> span (h + 12) 4 = {}" using span_shift_disj [of 8 4 12 4 h] by simp
  then have "load32 (mem (set_table h w s)) (h + 8) = ucast w"
    by (simp add: set_table_def c32.ld_st_disj)
  moreover have "load32 (mem (set_table h w s)) (h + 12) = ucast (drop_bit 32 w)" by (simp add: set_table_def)
  ultimately show ?thesis by (simp add: table_address_def address_halves)
qed

lemma set_table_frame: "x \<notin> span h 16 \<Longrightarrow> mem (set_table h w s) x = mem s x"
proof -
  assume "x \<notin> span h 16"
  moreover have "span (h + 8) 4 \<subseteq> span h 16" "span (h + 12) 4 \<subseteq> span h 16"
    using span_sub [of 8 4 16 h] span_sub [of 12 4 16 h] by simp_all
  ultimately have "x \<notin> span (h + 8) 4" "x \<notin> span (h + 12) 4" by blast+
  then show ?thesis by (simp add: set_table_def c32.st_frame)
qed

lemma set_table_mem: "set_table h w s = s\<lparr>mem := mem (set_table h w s)\<rparr>"
  by (simp add: set_table_def set32_def)

lemma table_address_cong:
  assumes "\<And>x. x \<in> span h 16 \<Longrightarrow> m' x = m x" shows "table_address m' h = table_address m h"
proof -
  have "span (h + 8) 4 \<subseteq> span h 16" "span (h + 12) 4 \<subseteq> span h 16"
    using span_sub [of 8 4 16 h] span_sub [of 12 4 16 h] by simp_all
  then have "load32 m' (h + 8) = load32 m (h + 8)" "load32 m' (h + 12) = load32 m (h + 12)"
    using assms by (auto intro!: c32.ld_cong)
  then show ?thesis by (simp add: table_address_def)
qed

lemma header_in_list: "i < 32 \<Longrightarrow> span (command_header cb i) 16 \<subseteq> payload (cb, 4096)"
  using span_sub [of "32 * i" 16 4096 cb] by (simp add: payload_def command_header_def)

lemma headers_disjoint:
  assumes "i < j" "j < 32"
  shows "span (command_header cb i) 16 \<inter> span (command_header cb j) 16 = {}"
  using span_shift_disj [of "32 * i" 16 "32 * j" 16 cb] assms by (simp add: command_header_def)

text \<open>One slot: its table gets a block of its own and lies \<open>256 i\<close> bytes into it.\<close>

lemma configure_slot_table:
  assumes wf: "heap_wf s bs" and cb: "(cb, 4096) \<in> set bs" and room: "heap_room s (4112 + k)" and i: "i < 32"
  obtains p s' where "configure_slot cb i s = Some s'" "heap_wf s' (bs @ [(p, 4096)])" "heap_room s' k"
    "table_address (mem s') (command_header cb i) = p + push_bit 8 (of_nat i)"
    "\<And>x. x \<in> payload (cb, 4096) \<Longrightarrow> x \<notin> span (command_header cb i) 16 \<Longrightarrow> mem s' x = mem s x"
proof -
  let ?h = "command_header cb i"
  let ?s1 = "s\<lparr>mem := store16 (mem s) (?h + 2) 8\<rparr>"
  note in_list = header_in_list [OF i, of cb]
  have f1: "x \<notin> span ?h 16 \<Longrightarrow> mem ?s1 x = mem s x" for x
    using span_sub [of 2 2 16 ?h] by (auto intro: c16.st_frame)
  then have "x \<notin> payload (cb, 4096) \<Longrightarrow> mem ?s1 x = mem s x" for x using in_list by blast
  then have wf1: "heap_wf ?s1 bs" "heap_room ?s1 (4112 + k)"
    using heap_wf_write [OF wf cb, of "mem ?s1"] room by simp_all
  obtain p s2 where p: "malloc 4096 ?s1 = Some (p, s2)" "heap_wf s2 (bs @ [(p, 4096)])" "heap_room s2 k"
    and old: "\<forall>b\<in>set bs. \<forall>x\<in>payload b. mem s2 x = mem ?s1 x"
    using heap_wf_malloc [OF wf1(1), of 4096 k] wf1(2) by auto
  let ?w = "p + push_bit 8 (of_nat i)"
  let ?s3 = "set_table ?h ?w s2"
  have cb2: "(cb, 4096) \<in> set (bs @ [(p, 4096)])" "(p, 4096) \<in> set (bs @ [(p, 4096)])" using cb by simp_all
  have "x \<notin> payload (cb, 4096) \<Longrightarrow> mem ?s3 x = mem s2 x" for x using in_list set_table_frame by blast
  then have wf3: "heap_wf ?s3 (bs @ [(p, 4096)])" "heap_room ?s3 k"
    using heap_wf_write [OF p(2) cb2(1), of "mem ?s3"] p(3) set_table_mem [of ?h ?w s2] by simp_all
  let ?s4 = "?s3\<lparr>mem := memset p 0 256 (mem ?s3)\<rparr>"
  have sp: "span p 256 \<subseteq> payload (p, 4096)" using span_mono [of 256 4096 p] by (simp add: payload_def)
  have f4: "x \<notin> payload (p, 4096) \<Longrightarrow> mem ?s4 x = mem ?s3 x" for x
    using sp memset_store [of p 0 256 "mem ?s3"] by (auto intro!: store_bytes_frame)
  have wf4: "heap_wf ?s4 (bs @ [(p, 4096)])" "heap_room ?s4 k"
    using heap_wf_write [OF wf3(1) cb2(2), of "mem ?s4"] f4 wf3(2) by simp_all
  have disj: "payload (cb, 4096) \<inter> payload (p, 4096) = {}"
    using heap_wf_disjoint [OF p(2)] cb by (auto simp: disjoint_payloads_append)
  have "table_address (mem ?s4) ?h = table_address (mem ?s3) ?h"
    using disj in_list f4 by (intro table_address_cong) blast
  then have "table_address (mem ?s4) ?h = ?w" by (simp add: set_table_address)
  moreover have "mem ?s4 x = mem s x" if "x \<in> payload (cb, 4096)" "x \<notin> span ?h 16" for x
  proof -
    have "mem ?s4 x = mem ?s3 x" using that disj f4 by blast
    also have "\<dots> = mem s2 x" using that by (intro set_table_frame)
    also have "\<dots> = mem ?s1 x" using that old cb by blast
    also have "\<dots> = mem s x" using that by (intro f1)
    finally show ?thesis .
  qed
  moreover have "configure_slot cb i s = Some ?s4" by (simp add: configure_slot_def p(1) Let_def)
  ultimately show thesis using that wf4 by blast
qed

lemma configure_slots_tables:
  assumes cb: "(cb, 4096) \<in> set bs"
  shows "heap_wf s bs \<Longrightarrow> heap_room s (4112 * n) \<Longrightarrow> k + n \<le> 32 \<Longrightarrow> (cb, 4096) \<in> set bs \<Longrightarrow>
    \<exists>s' ps. configure_slots cb [k..<k + n] s = Some s' \<and> length ps = n \<and>
      heap_wf s' (bs @ map (\<lambda>p. (p, 4096)) ps) \<and>
      (\<forall>i<n. table_address (mem s') (command_header cb (k + i)) = ps ! i + push_bit 8 (of_nat (k + i))) \<and>
      (\<forall>i<k. table_address (mem s') (command_header cb i) = table_address (mem s) (command_header cb i))"
proof (induction n arbitrary: k s bs)
  case (Suc n)
  have room: "heap_room s (4112 + 4112 * n)" and k: "k < 32" "Suc k + n \<le> 32" using Suc.prems by simp_all
  obtain p s1 where p: "configure_slot cb k s = Some s1" "heap_wf s1 (bs @ [(p, 4096)])" "heap_room s1 (4112 * n)"
      "table_address (mem s1) (command_header cb k) = p + push_bit 8 (of_nat k)"
    and f: "\<And>x. x \<in> payload (cb, 4096) \<Longrightarrow> x \<notin> span (command_header cb k) 16 \<Longrightarrow> mem s1 x = mem s x"
    using configure_slot_table [OF Suc.prems(1,4) room k(1)] by metis
  have old: "table_address (mem s1) (command_header cb i) = table_address (mem s) (command_header cb i)" if "i < k" for i
    using headers_disjoint [OF that k(1), of cb] header_in_list [of i cb] that k(1)
    by (intro table_address_cong f) auto
  have "(cb, 4096) \<in> set (bs @ [(p, 4096)])" using Suc.prems(4) by simp
  from Suc.IH [OF p(2,3) k(2) this] obtain s' ps where ih: "configure_slots cb [Suc k..<Suc k + n] s1 = Some s'"
    "length ps = n" "heap_wf s' ((bs @ [(p, 4096)]) @ map (\<lambda>p. (p, 4096)) ps)"
    "\<forall>i<n. table_address (mem s') (command_header cb (Suc k + i)) = ps ! i + push_bit 8 (of_nat (Suc k + i))"
    "\<forall>i<Suc k. table_address (mem s') (command_header cb i) = table_address (mem s1) (command_header cb i)"
    by blast
  have upt: "[k..<Suc k + n] = k # [Suc k..<Suc k + n]" by (rule upt_conv_Cons) simp
  have "configure_slots cb [k..<Suc k + n] s = Some s'"
    unfolding upt using p(1) ih(1) by (simp del: upt.simps)
  then have "configure_slots cb [k..<k + Suc n] s = Some s'" by (simp only: add_Suc add_Suc_right)
  moreover have "table_address (mem s') (command_header cb (k + i)) = (p # ps) ! i + push_bit 8 (of_nat (k + i))"
    if "i < Suc n" for i
  proof (cases i)
    case 0
    then show ?thesis using ih(5) p(4) by simp
  next
    case (Suc j)
    then show ?thesis using ih(4) that by simp
  qed
  ultimately show ?case using ih(2,3,5) old
    by (intro exI [of _ s'] exI [of _ "p # ps"]) simp
qed simp

lemma table_in_block:
  assumes "i < 32" and "p = q + push_bit 8 (of_nat i)"
  shows "span p 256 \<subseteq> span q 4096 \<longleftrightarrow> i < 16"
proof -
  have eq: "p = q + of_nat (256 * i)" using assms(2) by (simp add: push_bit_eq_mult mult.commute)
  have "p \<in> span p 256" using span_nth [of 0 256 p] by simp
  moreover have "p \<notin> span q 4096" if "16 \<le> i"
    using span_shift_disj [of 0 4096 "256 * i" 256 q] that assms(1) \<open>p \<in> span p 256\<close> eq by auto
  moreover have "span p 256 \<subseteq> span q 4096" if "i < 16"
    using span_sub [of "256 * i" 256 4096 q] that eq by simp
  ultimately show ?thesis by (meson not_less subsetD)
qed

section \<open>Properties\<close>

text \<open>
  C20: The command that \<open>Read\<close> hands to the disk is a READ DMA EXT in LBA mode for the requested number of
  sectors (16 bits of it), but its sector number is wrong as soon as the requested one needs more than 24
  bits: bits 24 to 31 are never written, bits 32 to 39 take their place, bits 40 to 47 are overwritten and
  the sixth byte is left 0.
\<close>

theorem Read_frame:
  "let f = load_bytes (mem (read_command hw port sector n buf s)) (command_table hw port s) 20 in
   f ! 0 = FIS_TYPE_REG_H2D \<and> f ! 1 = 0x80 \<and> f ! 2 = ATA_CMD_READ_DMA_EX \<and> f ! 7 = 0x40 \<and>
   fis_count f = unat n mod 2 ^ 16 \<and>
   fis_lba f = unat sector mod 2 ^ 24 + 2 ^ 24 * (unat sector div 2 ^ 32 mod 2 ^ 8) +
     2 ^ 32 * (unat sector div 2 ^ 48 mod 2 ^ 8) \<and>
   (fis_lba f = unat sector) = (unat sector < 2 ^ 24)"
  unfolding read_command_frame read_frame_lba read_frame_count Let_def frame_lba_exact
  by (simp add: read_frame_def FIS_TYPE_REG_H2D_def ATA_CMD_READ_DMA_EX_def)

text \<open>
  C10: What \<open>Read\<close> returns, for every behaviour of the adapter.  It waits for an idle task file, at most
  a million reads of the register and one more (whose answer does not matter), and returns 0 when none was
  idle; otherwise it issues the command and then alternately reads \<open>commandIssue\<close> and
  \<open>interruptStatus\<close>: 1 when the command is done before an error is reported, 0 when the error comes
  first, and no return at all when neither ever happens.
\<close>

theorem Read_result:
  "Read hw port sector n buf s =
     (let s1 = read_command hw port sector n buf s;
          k = spin_end hw port s1;
          s2 = polled hw (Suc k) s1;
          s3 = set32 (port_hbaPort (mem s2) port + commandIssue) 1 s2;
          j = (LEAST j. read_stops hw port j s3)
      in if k = 1000000 then Some (0, s2)
         else if \<exists>j. read_stops hw port j s3
         then if answer hw port (2 * j) commandIssue s3 = 0 then Some (1, polled hw (2 * j + 1) s3)
              else Some (0, polled hw (2 * j + 2) s3)
         else None)"
proof -
  let ?s1 = "read_command hw port sector n buf s"
  let ?s2 = "polled hw (Suc (spin_end hw port ?s1)) ?s1"
  let ?s3 = "set32 (port_hbaPort (mem ?s2) port + commandIssue) 1 ?s2"
  have run: "Read hw port sector n buf s =
      (if spin_end hw port ?s1 = 1000000 then Some (0, ?s2) else read_wait hw port ?s3)"
    by (simp add: Read_def Let_def read_spin_result spin_end_timeout)
  show ?thesis
  proof (cases "\<exists>j. read_stops hw port j ?s3")
    case True
    then obtain i where "read_stops hw port i ?s3" ..
    then obtain j where j: "read_stops hw port j ?s3" "\<forall>i<j. \<not> read_stops hw port i ?s3"
      "let ok = answer hw port (2 * j) commandIssue ?s3 = 0 in
       read_wait hw port ?s3 = Some (if ok then 1 else 0, polled hw (2 * j + (if ok then 1 else 2)) ?s3)"
      using read_wait_returns by blast
    then have "(LEAST j. read_stops hw port j ?s3) = j"
      by (intro Least_equality) (auto simp: not_less [symmetric])
    with True j(3) show ?thesis unfolding run by (simp add: Let_def)
  next
    case False
    then have "read_wait hw port ?s3 = None" using read_wait_stops [of hw port ?s3] by (cases "read_wait hw port ?s3") auto
    with False show ?thesis unfolding run by (simp add: Let_def)
  qed
qed


definition ahci0 :: ahci where
  "ahci0 = acpi.extend (ramfs.extend ramfs0 (acpi.fields 0)) (ahci.fields 0)
     \<lparr>kernieHeap_space := 0x300000, kernieHeap_is_set_up := False, have_allocated := False\<rparr>"

lemma ahci0_heap: "heap_wf ahci0 []" "heap_room ahci0 (unat (4096 :: u64) + 16 + 4112 * 32)"
proof -
  have g: "kernieHeap_space ahci0 = 0x300000" "\<not> kernieHeap_is_set_up ahci0" "\<not> have_allocated ahci0"
    by (simp_all add: ahci0_def acpi.defs ahci.defs)
  then show "heap_room ahci0 (unat (4096 :: u64) + 16 + 4112 * 32)" by (simp add: heap_room_def heap_top_def)
  from g have "heap_blocks ahci0 []" by (simp add: heap_blocks_def heap_top_def)
  then show "heap_wf ahci0 []" by (auto simp: heap_wf_def intro!: exI [of _ "[]"])
qed


end
