(* ===== verification/PciDesc.thy ===== *)
theory PciDesc
  imports Interrupts
begin

text \<open>
  \<open>kernel/pci/pciDesc.c\<close>: the names of PCI vendors, devices, classes and interfaces.  A code without
  a name is written by \<open>to_hstring\<close> into the one global buffer \<open>hexTo_StringOutput\<close>, so two unknown
  codes share their text.
\<close>

section \<open>The tables\<close>

text \<open>\<open>DeviceClasses[c]\<close>; past its end the code reads whatever pointers follow the array.\<close>

definition DeviceClasses :: "cptr list" where
  "DeviceClasses =
    [lit ''Unclassified'',
     lit ''Mass Storage Controller'',
     lit ''Network Controller'',
     lit ''Display Controller'',
     lit ''Multimedia Controller'',
     lit ''Memory Controller'',
     lit ''Bridge Device'',
     lit ''Simple Communication Controller'',
     lit ''Base System Peripheral'',
     lit ''Input Device Controller'',
     lit ''Docking Station'',
     lit ''Processor'',
     lit ''Serial Bus Controller'',
     lit ''Wireless Controller'',
     lit ''Intelligent Controller'',
     lit ''Satellite Communication Controller'',
     lit ''Encryption Controller'',
     lit ''Signal Processing Controller'',
     lit ''Processing Accelerator'',
     lit ''Non Essential Instrumentation'']"

definition DeviceClass :: "image \<Rightarrow> u8 \<Rightarrow> cptr" where
  "DeviceClass img c =
     (if unat c < length DeviceClasses then DeviceClasses ! unat c
      else Addr (after_DeviceClasses img (unat c - length DeviceClasses)))"

abbreviation (input) hstring :: "image \<Rightarrow> u64 \<Rightarrow> memory \<Rightarrow> cptr \<times> memory" where
  "hstring img \<equiv> to_hstring (hexTo_StringOutput_at img) (to_hstring_value_at img)"

definition GetVendorName :: "image \<Rightarrow> u16 \<Rightarrow> memory \<Rightarrow> cptr \<times> memory" where
  "GetVendorName img vendorID m =
   (if vendorID = 0x8086 then (lit ''Intel Corp'', m)
   else if vendorID = 0x1022 then (lit ''AMD'', m)
   else if vendorID = 0x10DE then (lit ''NVIDIA Corporation'', m)
   else hstring img (ucast vendorID) m)"

definition GetDeviceName :: "image \<Rightarrow> u16 \<Rightarrow> u16 \<Rightarrow> memory \<Rightarrow> cptr \<times> memory" where
  "GetDeviceName img vendorID deviceID m =
   (if vendorID = 0x8086 then
     if deviceID = 0x29C0 then (lit ''Express DRAM Controller'', m)
     else if deviceID = 0x2918 then (lit ''LPC Interface Controller'', m)
     else if deviceID = 0x2922 then (lit ''6 port SATA Controller [AHCI mode]'', m)
     else if deviceID = 0x2930 then (lit ''SMBus Controller'', m)
     else hstring img (ucast deviceID) m
   else hstring img (ucast deviceID) m)"

definition MassStorageControllerSubclassName :: "image \<Rightarrow> u8 \<Rightarrow> memory \<Rightarrow> cptr \<times> memory" where
  "MassStorageControllerSubclassName img subclassCode m =
   (if subclassCode = 0x00 then (lit ''SCSI Bus Controller'', m)
   else if subclassCode = 0x01 then (lit ''IDE Controller'', m)
   else if subclassCode = 0x02 then (lit ''Floppy Disk Controller'', m)
   else if subclassCode = 0x03 then (lit ''IPI Bus Controller'', m)
   else if subclassCode = 0x04 then (lit ''RAID Controller'', m)
   else if subclassCode = 0x05 then (lit ''ATA Controller'', m)
   else if subclassCode = 0x06 then (lit ''Serial ATA'', m)
   else if subclassCode = 0x07 then (lit ''Serial Attached SCSI'', m)
   else if subclassCode = 0x08 then (lit ''Non-Volatile Memory Controller'', m)
   else if subclassCode = 0x80 then (lit ''Other'', m)
   else hstring img (ucast subclassCode) m)"

definition SerialBusControllerSubclassName :: "image \<Rightarrow> u8 \<Rightarrow> memory \<Rightarrow> cptr \<times> memory" where
  "SerialBusControllerSubclassName img subclassCode m =
   (if subclassCode = 0x00 then (lit ''FireWire (IEEE 1394) Controller'', m)
   else if subclassCode = 0x01 then (lit ''ACCESS Bus'', m)
   else if subclassCode = 0x02 then (lit ''SSA'', m)
   else if subclassCode = 0x03 then (lit ''USB Controller'', m)
   else if subclassCode = 0x04 then (lit ''Fibre Channel'', m)
   else if subclassCode = 0x05 then (lit ''SMBus'', m)
   else if subclassCode = 0x06 then (lit ''Infiniband'', m)
   else if subclassCode = 0x07 then (lit ''IPMI Interface'', m)
   else if subclassCode = 0x08 then (lit ''SERCOS Interface (IEC 61491)'', m)
   else if subclassCode = 0x09 then (lit ''CANbus'', m)
   else if subclassCode = 0x80 then (lit ''SerialBusController - Other'', m)
   else hstring img (ucast subclassCode) m)"

definition BridgeDeviceSubclassName :: "image \<Rightarrow> u8 \<Rightarrow> memory \<Rightarrow> cptr \<times> memory" where
  "BridgeDeviceSubclassName img subclassCode m =
   (if subclassCode = 0x00 then (lit ''Host Bridge'', m)
   else if subclassCode = 0x01 then (lit ''ISA Bridge'', m)
   else if subclassCode = 0x02 then (lit ''EISA Bridge'', m)
   else if subclassCode = 0x03 then (lit ''MCA Bridge'', m)
   else if subclassCode = 0x04 then (lit ''PCI-to-PCI Bridge'', m)
   else if subclassCode = 0x05 then (lit ''PCMCIA Bridge'', m)
   else if subclassCode = 0x06 then (lit ''NuBus Bridge'', m)
   else if subclassCode = 0x07 then (lit ''CardBus Bridge'', m)
   else if subclassCode = 0x08 then (lit ''RACEway Bridge'', m)
   else if subclassCode = 0x09 then (lit ''PCI-to-PCI Bridge'', m)
   else if subclassCode = 0x0A then (lit ''InfiniBand-to-PCI Host Bridge'', m)
   else if subclassCode = 0x80 then (lit ''Other'', m)
   else hstring img (ucast subclassCode) m)"

definition GetSubclassName :: "image \<Rightarrow> u8 \<Rightarrow> u8 \<Rightarrow> memory \<Rightarrow> cptr \<times> memory" where
  "GetSubclassName img classCode subclassCode m =
   (if classCode = 0x01 then MassStorageControllerSubclassName img subclassCode m
   else if classCode = 0x03 then
     if subclassCode = 0x00 then (lit ''VGA Compatible Controller'', m)
     else (lit ''Unknown'', m)
   else if classCode = 0x06 then BridgeDeviceSubclassName img subclassCode m
   else if classCode = 0x0C then SerialBusControllerSubclassName img subclassCode m
   else hstring img (ucast subclassCode) m)"

definition GetProgIFName :: "image \<Rightarrow> u8 \<Rightarrow> u8 \<Rightarrow> u8 \<Rightarrow> memory \<Rightarrow> cptr \<times> memory" where
  "GetProgIFName img classCode subclassCode progIF m =
   (if classCode = 0x01 then
     if subclassCode = 0x06 then
       if progIF = 0x00 then (lit ''Vendor Specific Interface'', m)
       else if progIF = 0x01 then (lit ''AHCI 1.0'', m)
       else if progIF = 0x02 then (lit ''Serial Storage Bus'', m)
       else (lit ''Unknown'', m)
     else (lit ''Unknown'', m)
   else if classCode = 0x03 then
     if subclassCode = 0x00 then
       if progIF = 0x00 then (lit ''VGA Controller'', m)
       else if progIF = 0x01 then (lit ''8514-Compatible Controller'', m)
       else (lit ''Unknown'', m)
     else (lit ''Unknown'', m)
   else if classCode = 0x0C \<and> subclassCode = 0x03 then
     if progIF = 0x00 then (lit ''UHCI Controller'', m)
     else if progIF = 0x10 then (lit ''OHCI Controller'', m)
     else if progIF = 0x20 then (lit ''EHCI (USB2) Controller'', m)
     else if progIF = 0x30 then (lit ''XHCI (USB3) Controller'', m)
     else if progIF = 0x80 then (lit ''Unspecified'', m)
     else if progIF = 0xFE then (lit ''USB Device (Not a Host Controller)'', m)
     else (lit ''Unknown'', m)
   else hstring img (ucast progIF) m)"

section \<open>What a lookup returns\<close>

text \<open>
  A known code is a literal and leaves the memory alone; an unknown one is \<open>to_hstring\<close> of the code.
\<close>

datatype pci_name = Known "u8 list" | Unknown u64

definition name_ok :: "u8 list \<Rightarrow> bool" where
  "name_ok t \<longleftrightarrow> t \<noteq> [] \<and> length t \<le> 40 \<and> 0 \<notin> set t"

fun names :: "image \<Rightarrow> (memory \<Rightarrow> cptr \<times> memory) \<Rightarrow> pci_name \<Rightarrow> bool" where
  "names img f (Known t) \<longleftrightarrow> name_ok t \<and> f = (\<lambda>m. (Lit t, m))"
| "names img f (Unknown code) \<longleftrightarrow> f = hstring img code"

definition lookup :: "image \<Rightarrow> u64 \<Rightarrow> (memory \<Rightarrow> cptr \<times> memory) \<Rightarrow> bool" where
  "lookup img code f \<longleftrightarrow> (\<exists>t. names img f (Known t)) \<or> names img f (Unknown code)"

lemma lookup_lit: "name_ok (map of_char t) \<Longrightarrow> lookup img code (\<lambda>m. (lit t, m))"
  by (auto simp: lookup_def lit_def)

lemma lookup_hstring: "lookup img code (\<lambda>m. hstring img code m)"
  by (simp add: lookup_def)

lemma lookup_if:
  "(b \<Longrightarrow> lookup img code f) \<Longrightarrow> (\<not> b \<Longrightarrow> lookup img code g) \<Longrightarrow> lookup img code (\<lambda>m. if b then f m else g m)"
  by (cases b) simp_all

lemmas lookup_intros = lookup_if lookup_lit lookup_hstring

lemma GetVendorName_lookup: "lookup img (ucast v) (GetVendorName img v)"
  unfolding GetVendorName_def [abs_def] by (intro lookup_intros) (simp_all add: name_ok_def)

lemma GetDeviceName_lookup: "lookup img (ucast d) (GetDeviceName img v d)"
  unfolding GetDeviceName_def [abs_def] by (intro lookup_intros) (simp_all add: name_ok_def)

lemma GetSubclassName_lookup: "lookup img (ucast c) (GetSubclassName img k c)"
  unfolding GetSubclassName_def [abs_def] MassStorageControllerSubclassName_def [abs_def]
    SerialBusControllerSubclassName_def [abs_def] BridgeDeviceSubclassName_def [abs_def]
  by (intro lookup_intros) (simp_all add: name_ok_def)

lemma GetProgIFName_lookup: "lookup img (ucast i) (GetProgIFName img k c i)"
  unfolding GetProgIFName_def [abs_def] by (intro lookup_intros) (simp_all add: name_ok_def)

lemma DeviceClass_known:
  assumes "unat c < 20" shows "\<exists>t. names img (\<lambda>m. (DeviceClass img c, m)) (Known t)"
proof -
  have "list_all (\<lambda>p. \<exists>t. name_ok (map of_char t) \<and> p = lit t) DeviceClasses"
    unfolding DeviceClasses_def list.pred_inject
    by (intro conjI exI refl TrueI) (simp_all add: name_ok_def)
  moreover have "length DeviceClasses = 20" by (simp add: DeviceClasses_def)
  ultimately show ?thesis using assms by (auto simp: DeviceClass_def list_all_length lit_def)
qed

end
