(* ===== verification/Pci.thy ===== *)
theory Pci
  imports Sata PciDesc
begin

text \<open>
  The enumeration of the PCI devices, \<open>kernel/pci/pci.c\<close>: the configuration spaces are mapped into
  memory, the MCFG table says where.
\<close>

section \<open>The operations\<close>

text \<open>\<open>PCIDeviceHeader\<close>.\<close>

definition pci_VendorID :: "memory \<Rightarrow> addr \<Rightarrow> u16" where "pci_VendorID m h = load16 m h"
definition pci_DeviceID :: "memory \<Rightarrow> addr \<Rightarrow> u16" where "pci_DeviceID m h = load16 m (h + 2)"
definition pci_ProgIF :: "memory \<Rightarrow> addr \<Rightarrow> u8" where "pci_ProgIF m h = m (h + 9)"
definition pci_Subclass :: "memory \<Rightarrow> addr \<Rightarrow> u8" where "pci_Subclass m h = m (h + 10)"
definition pci_Class :: "memory \<Rightarrow> addr \<Rightarrow> u8" where "pci_Class m h = m (h + 11)"

text \<open>
  The five names that \<open>EnumerateFunction\<close> prints are arguments of one call; C leaves the order in which
  they are computed to the compiler, so the order is a parameter.
\<close>

definition name_arg :: "image \<Rightarrow> addr \<Rightarrow> nat \<Rightarrow> memory \<Rightarrow> cptr \<times> memory" where
  "name_arg img h k m =
     (if k = 0 then GetVendorName img (pci_VendorID m h) m
      else if k = 1 then GetDeviceName img (pci_VendorID m h) (pci_DeviceID m h) m
      else if k = 2 then (DeviceClass img (pci_Class m h), m)
      else if k = 3 then GetSubclassName img (pci_Class m h) (pci_Subclass m h) m
      else GetProgIFName img (pci_Class m h) (pci_Subclass m h) (pci_ProgIF m h) m)"

fun eval_args :: "(nat \<Rightarrow> memory \<Rightarrow> cptr \<times> memory) \<Rightarrow> nat list \<Rightarrow> (nat \<Rightarrow> cptr) \<Rightarrow> memory \<Rightarrow> (nat \<Rightarrow> cptr) \<times> memory" where
  "eval_args f [] args m = (args, m)"
| "eval_args f (k # ks) args m = (let (p, m) = f k m in eval_args f ks (args(k := p)) m)"

definition pci_fmt :: "u8 list" where
  "pci_fmt = bytes ''%s / %s / %s / %s / %s'' @ nl"

text \<open>A missing device reads as 0 or as all ones.\<close>

definition absent :: "memory \<Rightarrow> addr \<Rightarrow> bool" where
  "absent m h \<longleftrightarrow> pci_DeviceID m h = 0 \<or> pci_DeviceID m h = 0xFFFF"

definition EnumerateFunction ::
    "image \<Rightarrow> hba \<Rightarrow> nat list \<Rightarrow> addr \<Rightarrow> u64 \<Rightarrow> 'a ahci_scheme \<Rightarrow> 'a ahci_scheme option" where
  "EnumerateFunction img hw order deviceAddress function_no s =
     (let h = deviceAddress + push_bit 12 function_no
      in if absent (mem s) h then Some s
         else do { let (args, m) = eval_args (name_arg img h) order (\<lambda>_. NULL) (mem s);
                   (_, s) \<leftarrow> printf img (Lit pci_fmt) (map (\<lambda>k. VPtr (args k)) [0..<5]) (s\<lparr>mem := m\<rparr>);
                   if pci_Class (mem s) h = 0x01 \<and> pci_Subclass (mem s) h = 0x06 \<and> pci_ProgIF (mem s) h = 0x01
                   then map_option snd (AHCIDriver_Init img hw h s)
                   else Some s })"

fun each :: "(nat \<Rightarrow> 's \<Rightarrow> 's option) \<Rightarrow> nat list \<Rightarrow> 's \<Rightarrow> 's option" where
  "each f [] s = Some s"
| "each f (i # is) s = Option.bind (f i s) (each f is)"

definition EnumerateDevice ::
    "image \<Rightarrow> hba \<Rightarrow> nat list \<Rightarrow> addr \<Rightarrow> u64 \<Rightarrow> 'a ahci_scheme \<Rightarrow> 'a ahci_scheme option" where
  "EnumerateDevice img hw order busAddress device s =
     (let h = busAddress + push_bit 15 device
      in if absent (mem s) h then Some s
         else each (\<lambda>i. EnumerateFunction img hw order h (of_nat i)) [0..<8] s)"

definition EnumerateBus ::
    "image \<Rightarrow> hba \<Rightarrow> nat list \<Rightarrow> addr \<Rightarrow> u64 \<Rightarrow> 'a ahci_scheme \<Rightarrow> 'a ahci_scheme option" where
  "EnumerateBus img hw order baseAddress bus s =
     (let h = baseAddress + push_bit 20 bus
      in if absent (mem s) h then Some s
         else each (\<lambda>i. EnumerateDevice img hw order h (of_nat i)) [0..<32] s)"

text \<open>\<open>DeviceConfig\<close>: 16 bytes, the address first, \<open>StartBus\<close> at 10, \<open>EndBus\<close> at 11; the entries follow the
  44 bytes of \<open>MCFGHeader\<close>.\<close>

definition sizeof_MCFGHeader :: u64 where "sizeof_MCFGHeader = 44"

definition device_config :: "addr \<Rightarrow> nat \<Rightarrow> addr" where
  "device_config table t = table + sizeof_MCFGHeader + 16 * of_nat t"

definition config_BaseAddress :: "memory \<Rightarrow> addr \<Rightarrow> addr" where "config_BaseAddress m c = load64 m c"
definition config_StartBus :: "memory \<Rightarrow> addr \<Rightarrow> u8" where "config_StartBus m c = m (c + 10)"
definition config_EndBus :: "memory \<Rightarrow> addr \<Rightarrow> u8" where "config_EndBus m c = m (c + 11)"

text \<open>\<open>bus\<close> counts in 64 bits up to a byte that is read in every round.\<close>

function enumerate_buses ::
    "image \<Rightarrow> hba \<Rightarrow> nat list \<Rightarrow> addr \<Rightarrow> nat \<Rightarrow> 'a ahci_scheme \<Rightarrow> 'a ahci_scheme option" where
  "enumerate_buses img hw order config bus s =
     (if bus < unat (config_EndBus (mem s) config)
      then Option.bind (EnumerateBus img hw order (config_BaseAddress (mem s) config) (of_nat bus) s)
             (enumerate_buses img hw order config (Suc bus))
      else Some s)"
  by pat_completeness auto
termination
proof (relation "measure (\<lambda>(img, hw, order, config, bus, s). 256 - bus)", goal_cases)
  case (2 img hw order config bus s z)
  moreover have "unat (config_EndBus (mem s) config) < 256"
    by (rule order_less_le_trans [OF unsigned_less]) simp
  ultimately show ?case by simp
qed simp

declare enumerate_buses.simps [simp del]

definition enumerate_entry ::
    "image \<Rightarrow> hba \<Rightarrow> nat list \<Rightarrow> addr \<Rightarrow> nat \<Rightarrow> 'a ahci_scheme \<Rightarrow> 'a ahci_scheme option" where
  "enumerate_entry img hw order table t s =
     enumerate_buses img hw order (device_config table t) (unat (config_StartBus (mem s) (device_config table t))) s"

definition mcfg_entries :: "memory \<Rightarrow> addr \<Rightarrow> int" where
  "mcfg_entries m table = sint (ucast ((ucast (SDT_length m table) - sizeof_MCFGHeader) div 16) :: u32)"

definition EnumeratePCI ::
    "image \<Rightarrow> hba \<Rightarrow> u64 \<Rightarrow> nat list \<Rightarrow> addr \<Rightarrow> 'a ahci_scheme \<Rightarrow> 'a ahci_scheme option" where
  "EnumeratePCI img hw cr2 order table s =
     do { s \<leftarrow> (if table = 0 then panic img cr2 (lit ''MCFG was not found!'') 0 s else Some s);
          each (enumerate_entry img hw order table) [0..<nat (mcfg_entries (mem s) table)] s }"

section \<open>Which buses are looked at\<close>

lemma each_unchanged: "(\<And>i. i \<in> set is \<Longrightarrow> f i s = Some s) \<Longrightarrow> each f is s = Some s"
  by (induction "is") simp_all

lemma enumerate_buses_absent:
  assumes "\<And>b. \<lbrakk>bus \<le> b; b < unat (config_EndBus (mem s) c)\<rbrakk> \<Longrightarrow>
    absent (mem s) (config_BaseAddress (mem s) c + push_bit 20 (of_nat b))"
  shows "enumerate_buses img hw order c bus s = Some s"
  using assms
proof (induction img hw order c bus s rule: enumerate_buses.induct)
  case (1 img hw order c bus s)
  show ?case
  proof (cases "bus < unat (config_EndBus (mem s) c)")
    case True
    then have "EnumerateBus img hw order (config_BaseAddress (mem s) c) (of_nat bus) s = Some s"
      using "1.prems" [of bus] by (simp add: EnumerateBus_def Let_def)
    then show ?thesis using 1 True by (subst enumerate_buses.simps) simp
  qed (subst enumerate_buses.simps, simp)
qed

section \<open>The line of a function\<close>

text \<open>What is looked up for each argument, when the header is read from \<open>m0\<close>.\<close>

definition name_fun :: "image \<Rightarrow> addr \<Rightarrow> memory \<Rightarrow> nat \<Rightarrow> memory \<Rightarrow> cptr \<times> memory" where
  "name_fun img h m0 k =
     (if k = 0 then GetVendorName img (pci_VendorID m0 h)
      else if k = 1 then GetDeviceName img (pci_VendorID m0 h) (pci_DeviceID m0 h)
      else if k = 2 then (\<lambda>m. (DeviceClass img (pci_Class m0 h), m))
      else if k = 3 then GetSubclassName img (pci_Class m0 h) (pci_Subclass m0 h)
      else GetProgIFName img (pci_Class m0 h) (pci_Subclass m0 h) (pci_ProgIF m0 h))"

text \<open>The names a function has; a code without a name stands for the text \<open>to_hstring\<close> gives it.\<close>

definition arg_code :: "memory \<Rightarrow> addr \<Rightarrow> nat \<Rightarrow> u64" where
  "arg_code m h k =
     (if k = 0 then ucast (pci_VendorID m h) else if k = 1 then ucast (pci_DeviceID m h)
      else if k = 3 then ucast (pci_Subclass m h) else ucast (pci_ProgIF m h))"

definition arg_name :: "image \<Rightarrow> addr \<Rightarrow> memory \<Rightarrow> nat \<Rightarrow> pci_name" where
  "arg_name img h m k = (case fst (name_fun img h m k m) of Lit t \<Rightarrow> Known t | Addr a \<Rightarrow> Unknown (arg_code m h k))"

fun last_unknown :: "(nat \<Rightarrow> pci_name) \<Rightarrow> nat list \<Rightarrow> u64 \<Rightarrow> u64" where
  "last_unknown ns [] c = c"
| "last_unknown ns (k # ks) c = last_unknown ns ks (case ns k of Known t \<Rightarrow> c | Unknown c' \<Rightarrow> c')"

definition hex16 :: "u64 \<Rightarrow> u8 list" where
  "hex16 c = hex_of_bytes (le_bytes 8 c)"

text \<open>All unknown codes are shown as the one that was looked up last.\<close>

fun shown :: "u64 \<Rightarrow> pci_name \<Rightarrow> u8 list" where
  "shown c (Known t) = t"
| "shown c (Unknown c') = hex16 c"

definition pci_pieces :: "(nat \<Rightarrow> u8 list) \<Rightarrow> piece list" where
  "pci_pieces u = [PStr (u 0)] @ map PChar (bytes '' / '') @ [PStr (u 1)] @ map PChar (bytes '' / '') @
     [PStr (u 2)] @ map PChar (bytes '' / '') @ [PStr (u 3)] @ map PChar (bytes '' / '') @ [PStr (u 4)] @ map PChar nl"

definition pci_line :: "image \<Rightarrow> addr \<Rightarrow> nat list \<Rightarrow> memory \<Rightarrow> u8 list" where
  "pci_line img h order m =
     (let ns = arg_name img h m; u = (\<lambda>k. shown (last_unknown ns order 0) (ns k)) in out_of (pci_pieces u))"

text \<open>What the lookups may write.\<close>

definition names_area :: "image \<Rightarrow> addr set" where
  "names_area img = hstring_touched (hexTo_StringOutput_at img) \<union> span (to_hstring_value_at img) 8"

definition hstring_layout :: "image \<Rightarrow> bool" where
  "hstring_layout img \<longleftrightarrow>
     span (to_hstring_value_at img) 15 \<inter> hstring_touched (hexTo_StringOutput_at img) = {} \<and>
     hexTo_StringOutput_at img \<noteq> 0"

lemma hstring_result:
  assumes "hstring_layout img" and "hstring img c m = (p, m')"
  shows "p = Addr (hexTo_StringOutput_at img)" and "cstr m' p (hex16 c)"
    and "x \<notin> names_area img \<Longrightarrow> m' x = m x"
proof -
  note lay = assms(1) [unfolded hstring_layout_def, THEN conjunct1]
  show "p = Addr (hexTo_StringOutput_at img)" "cstr m' p (hex16 c)"
    using to_hstring_result [OF lay assms(2)] by (simp_all add: hex16_def)
  show "m' x = m x" if "x \<notin> names_area img"
  proof -
    have "x \<notin> span (hexTo_StringOutput_at img - 14) 31" "x \<notin> span (to_hstring_value_at img) 8"
      using that by (auto simp: names_area_def hstring_touched_def)
    then show ?thesis using assms(2) unfolding to_hstring_store [OF lay]
      by (auto simp: c64.st_frame intro!: store_bytes_frame [THEN trans])
  qed
qed

lemma name_arg_fun: "name_arg img h k m = name_fun img h m k m"
  by (simp add: name_arg_def name_fun_def)

lemma header_cong:
  assumes "\<And>x. x \<in> span h 12 \<Longrightarrow> m' x = m x"
  shows "pci_VendorID m' h = pci_VendorID m h" "pci_DeviceID m' h = pci_DeviceID m h"
    "pci_Class m' h = pci_Class m h" "pci_Subclass m' h = pci_Subclass m h" "pci_ProgIF m' h = pci_ProgIF m h"
proof -
  have "span (h + 0) 2 \<subseteq> span h 12" "span (h + 2) 2 \<subseteq> span h 12"
    using span_sub [of 0 2 12 h] span_sub [of 2 2 12 h] by simp_all
  then show "pci_VendorID m' h = pci_VendorID m h" "pci_DeviceID m' h = pci_DeviceID m h"
    unfolding pci_VendorID_def pci_DeviceID_def using assms by (auto intro!: c16.ld_cong)
  show "pci_Class m' h = pci_Class m h" "pci_Subclass m' h = pci_Subclass m h" "pci_ProgIF m' h = pci_ProgIF m h"
    unfolding pci_Class_def pci_Subclass_def pci_ProgIF_def
    using assms [of "h + 11"] assms [of "h + 10"] assms [of "h + 9"]
      span_nth [of 11 12 h] span_nth [of 10 12 h] span_nth [of 9 12 h] by simp_all
qed

lemma name_fun_cong:
  assumes "\<And>x. x \<in> span h 12 \<Longrightarrow> m' x = m x" shows "name_fun img h m' k = name_fun img h m k"
  by (simp only: name_fun_def header_cong [OF assms])

lemma fst_to_hstring: "fst (hstring img c m) = Addr (hexTo_StringOutput_at img)"
  by (simp add: to_hstring_def Let_def)

lemma names_lookup:
  "lookup img c f \<Longrightarrow> names img f (case fst (f m) of Lit t \<Rightarrow> Known t | Addr a \<Rightarrow> Unknown c)"
  by (auto simp: lookup_def fst_to_hstring)

lemma name_fun_names:
  assumes "unat (pci_Class m h) < 20"
  shows "names img (name_fun img h m k) (arg_name img h m k)"
proof (cases "k = 2")
  case True
  then show ?thesis using DeviceClass_known [OF assms, of img]
    by (auto simp: name_fun_def arg_name_def dest!: fun_cong [of "Pair _"])
next
  case False
  then have "lookup img (arg_code m h k) (name_fun img h m k)"
    by (simp add: name_fun_def arg_code_def GetVendorName_lookup GetDeviceName_lookup GetSubclassName_lookup
        GetProgIFName_lookup)
  from names_lookup [OF this, of m] show ?thesis by (simp add: arg_name_def)
qed

definition name_ptr :: "image \<Rightarrow> pci_name \<Rightarrow> cptr" where
  "name_ptr img n = (case n of Known t \<Rightarrow> Lit t | Unknown c \<Rightarrow> Addr (hexTo_StringOutput_at img))"

definition unknown_in :: "(nat \<Rightarrow> pci_name) \<Rightarrow> nat list \<Rightarrow> bool" where
  "unknown_in ns ks \<longleftrightarrow> (\<exists>k\<in>set ks. \<exists>c. ns k = Unknown c)"

lemma eval_args_names:
  assumes lay: "hstring_layout img" and cl: "unat (pci_Class m0 h) < 20" and sep: "span h 12 \<inter> names_area img = {}"
  shows "(\<And>x. x \<notin> names_area img \<Longrightarrow> m x = m0 x) \<Longrightarrow>
    \<exists>args' m'. eval_args (name_arg img h) ks args m = (args', m') \<and>
      (\<forall>x. x \<notin> names_area img \<longrightarrow> m' x = m0 x) \<and>
      (\<forall>k. args' k = (if k \<in> set ks then name_ptr img (arg_name img h m0 k) else args k)) \<and>
      ((unknown_in (arg_name img h m0) ks \<or> cstr m (Addr (hexTo_StringOutput_at img)) (hex16 c)) \<longrightarrow>
        cstr m' (Addr (hexTo_StringOutput_at img)) (hex16 (last_unknown (arg_name img h m0) ks c)))"
proof (induction ks arbitrary: args m c)
  case Nil
  then show ?case by (simp add: unknown_in_def)
next
  case (Cons k ks)
  let ?n = "arg_name img h m0"
  have "x \<in> span h 12 \<Longrightarrow> m x = m0 x" for x using Cons.prems sep by blast
  then have run: "name_arg img h k m = name_fun img h m0 k m"
    unfolding name_arg_fun by (simp add: name_fun_cong [of h m m0])
  note name = name_fun_names [OF cl, of img k]
  obtain p m1 where r: "name_arg img h k m = (p, m1)" by (cases "name_arg img h k m")
  have step: "p = name_ptr img (?n k) \<and> (\<forall>x. x \<notin> names_area img \<longrightarrow> m1 x = m0 x) \<and>
      (case ?n k of Known t \<Rightarrow> m1 = m | Unknown c' \<Rightarrow> cstr m1 (Addr (hexTo_StringOutput_at img)) (hex16 c'))"
  proof (cases "?n k")
    case (Known t)
    then show ?thesis using name r Cons.prems unfolding run by (simp add: name_ptr_def)
  next
    case (Unknown c')
    then have "hstring img c' m = (p, m1)" using name r unfolding run by simp
    note res = hstring_result [OF lay this]
    then show ?thesis using Unknown Cons.prems by (simp add: name_ptr_def)
  qed
  let ?c = "case ?n k of Known t \<Rightarrow> c | Unknown c' \<Rightarrow> c'"
  obtain args' m' where ih: "eval_args (name_arg img h) ks (args(k := p)) m1 = (args', m')"
    "\<forall>x. x \<notin> names_area img \<longrightarrow> m' x = m0 x"
    "\<forall>j. args' j = (if j \<in> set ks then name_ptr img (?n j) else (args(k := p)) j)"
    "unknown_in ?n ks \<or> cstr m1 (Addr (hexTo_StringOutput_at img)) (hex16 ?c) \<longrightarrow>
      cstr m' (Addr (hexTo_StringOutput_at img)) (hex16 (last_unknown ?n ks ?c))"
    using Cons.IH [of m1 "args(k := p)" ?c] step by blast
  have buf: "cstr m' (Addr (hexTo_StringOutput_at img)) (hex16 (last_unknown ?n (k # ks) c))"
    if "unknown_in ?n (k # ks) \<or> cstr m (Addr (hexTo_StringOutput_at img)) (hex16 c)"
    using that ih(4) step by (cases "?n k") (auto simp: unknown_in_def)
  have "args' j = (if j \<in> set (k # ks) then name_ptr img (?n j) else args j)" for j
    using ih(3) step by (cases "j = k") (simp_all add: fun_upd_def)
  with r ih(1,2) buf show ?case by simp
qed

lemma hex16_length: "length (hex16 c) = 16" "0 \<notin> set (hex16 c)"
  unfolding hex16_def by (simp_all only: length_hex_of_bytes length_le_bytes hex_of_bytes_nonzero) simp

definition hex_buffer :: "image \<Rightarrow> addr set" where
  "hex_buffer img = span (hexTo_StringOutput_at img) 17"

lemma hex_buffer_touched: "hex_buffer img \<subseteq> names_area img"
  using span_sub [of 14 17 31 "hexTo_StringOutput_at img - 14"]
  by (auto simp: hex_buffer_def names_area_def hstring_touched_def)

lemma name_ptr_arg:
  assumes "hstring_layout img" and "names img f n"
    and "\<exists>c. n = Unknown c \<Longrightarrow> cstr m (Addr (hexTo_StringOutput_at img)) (hex16 last_code)"
  shows "str_arg m (hex_buffer img) (name_ptr img n) (shown last_code n)"
  using assms hex16_length
  by (cases n) (auto simp: name_ptr_def str_arg_def hex_buffer_def hstring_layout_def name_ok_def)

lemma pci_fmt_pieces: "fmt_of (pci_pieces u) = pci_fmt" "0 \<notin> set pci_fmt"
  by (simp_all add: pci_pieces_def pci_fmt_def bytes_def nl_def)

lemma shown_length: "names img f n \<Longrightarrow> length (shown c n) \<le> 40 \<and> 0 \<notin> set (shown c n)"
  by (cases n) (auto simp: hex16_length name_ok_def)

lemma pci_out:
  assumes "\<And>k. k < 5 \<Longrightarrow> length (u k) \<le> 40 \<and> 0 \<notin> set (u k)"
  shows "length (out_of (pci_pieces u)) < 2 ^ 31" and "0 \<notin> set (out_of (pci_pieces u))"
  using assms [of 0] assms [of 1] assms [of 2] assms [of 3] assms [of 4]
  by (auto simp: pci_pieces_def bytes_def nl_def)

lemma pci_args:
  assumes "\<And>k. k < 5 \<Longrightarrow> str_arg m K (args k) (u k)"
  shows "args_match m K (pci_pieces u) (map (\<lambda>k. VPtr (args k)) [0..<5])"
proof -
  have "map (\<lambda>k. VPtr (args k)) [0..<5] = [VPtr (args 0), VPtr (args 1), VPtr (args 2), VPtr (args 3), VPtr (args 4)]"
    by (simp add: upt_rec numeral_eq_Suc)
  moreover have "plain (bytes '' / '')" "plain nl" by (simp_all add: plain_def bytes_def nl_def)
  ultimately show ?thesis using assms unfolding pci_pieces_def by (simp del: map_append)
qed

text \<open>The five names, looked up and laid out as the arguments of \<open>printf\<close>.\<close>

lemma pci_names_shown:
  assumes lay: "hstring_layout img" and cl: "unat (pci_Class m0 h) < 20" and sep: "span h 12 \<inter> names_area img = {}"
    and order: "{0..<5} \<subseteq> set order"
  obtains args m' where "eval_args (name_arg img h) order (\<lambda>_. NULL) m0 = (args, m')"
    and "\<And>x. x \<notin> names_area img \<Longrightarrow> m' x = m0 x"
    and "args_match m' (hex_buffer img)
      (pci_pieces (\<lambda>k. shown (last_unknown (arg_name img h m0) order 0) (arg_name img h m0 k)))
      (map (\<lambda>k. VPtr (args k)) [0..<5])"
proof -
  let ?ns = "arg_name img h m0" and ?buf = "Addr (hexTo_StringOutput_at img)"
  obtain args m' where run: "eval_args (name_arg img h) order (\<lambda>_. NULL) m0 = (args, m')"
    "\<forall>x. x \<notin> names_area img \<longrightarrow> m' x = m0 x"
    "\<forall>k. args k = (if k \<in> set order then name_ptr img (?ns k) else NULL)"
    "unknown_in ?ns order \<or> cstr m0 ?buf (hex16 0) \<longrightarrow> cstr m' ?buf (hex16 (last_unknown ?ns order 0))"
    using eval_args_names [OF lay cl sep, of m0 order "\<lambda>_. NULL" 0] by blast
  have "str_arg m' (hex_buffer img) (args k) (shown (last_unknown ?ns order 0) (?ns k))" if "k < 5" for k
  proof -
    have k: "k \<in> set order" using that order by auto
    then have "\<exists>c. ?ns k = Unknown c \<Longrightarrow> cstr m' ?buf (hex16 (last_unknown ?ns order 0))"
      using run(4) by (auto simp: unknown_in_def)
    from name_ptr_arg [OF lay name_fun_names [OF cl] this] show ?thesis using run(3) k by simp
  qed
  then have "args_match m' (hex_buffer img) (pci_pieces (\<lambda>k. shown (last_unknown ?ns order 0) (?ns k)))
      (map (\<lambda>k. VPtr (args k)) [0..<5])" by (rule pci_args)
  with run(1,2) show thesis using that by blast
qed

lemma fmt_at_rest: "at_rest m K (Lit pci_fmt) pci_fmt"
  using pci_fmt_pieces(2) by (simp add: at_rest_def)

section \<open>Properties\<close>


text \<open>One segment at 0x40000000 whose only bus is bus 0, with a device 8086:29C0 on it.\<close>

definition mcfg_memory :: memory where
  "mcfg_memory = (\<lambda>_. 0)(0x200004 := 60, 0x20002F := 0x40,
     0x40000000 := 0x86, 0x40000001 := 0x80, 0x40000002 := 0xC0, 0x40000003 := 0x29)"


text \<open>
  C21: The line of a PCI function: \<open>EnumerateFunction\<close> prints the names of its vendor, device, class, subclass
  and interface, separated by slashes, and starts no driver unless it is an AHCI controller.  A code without a
  name is shown as sixteen hexadecimal digits, but all of them share one buffer: every unknown code of the
  line is shown as the one that was looked up last, in whatever order the compiler computes the arguments.
\<close>

theorem EnumerateFunction_prints:
  assumes h: "h = deviceAddress + push_bit 12 function_no" and present: "\<not> absent (mem s) h"
    and cl: "unat (pci_Class (mem s) h) < 20"
    and no_ahci: "pci_Class (mem s) h = 1 \<and> pci_Subclass (mem s) h = 6 \<longrightarrow> pci_ProgIF (mem s) h \<noteq> 1"
    and order: "{0..<5} \<subseteq> set order"
    and lay: "hstring_layout img" "console_layout img s" and rel: "term_rel img s t"
    and apart: "names_area img \<inter> console_area img (fbCon s) = {}"
      "span h 12 \<inter> (names_area img \<union> console_area img (fbCon s)) = {}"
    and fits: "term_fits s (pci_line img h order (mem s)) t"
  shows "\<exists>s'. EnumerateFunction img hw order deviceAddress function_no s = Some s' \<and>
    term_rel img s' (term_puts (unat (TTY_Width s)) (pci_line img h order (mem s)) t) \<and> same_screen s s'"
proof -
  let ?ns = "arg_name img h (mem s)"
  let ?u = "\<lambda>k. shown (last_unknown ?ns order 0) (?ns k)"
  have sep: "span h 12 \<inter> names_area img = {}" using apart(2) by blast
  obtain args m' where run: "eval_args (name_arg img h) order (\<lambda>_. NULL) (mem s) = (args, m')"
    and frame: "\<And>x. x \<notin> names_area img \<Longrightarrow> m' x = mem s x"
    and args: "args_match m' (hex_buffer img) (pci_pieces ?u) (map (\<lambda>k. VPtr (args k)) [0..<5])"
    using pci_names_shown [OF lay(1) cl sep order] by metis
  let ?s = "s\<lparr>mem := m'\<rparr>"
  have line: "pci_line img h order (mem s) = out_of (pci_pieces ?u)" by (simp add: pci_line_def Let_def)
  have "\<And>k. length (?u k) \<le> 40 \<and> 0 \<notin> set (?u k)" using shown_length [OF name_fun_names [OF cl]] .
  note out = pci_out [of ?u, OF this]
  have scr: "same_screen s ?s" by (simp add: same_screen_def)
  have "out_of (pci_pieces ?u) \<noteq> []" by (simp add: pci_pieces_def nl_def)
  then have "term_ok s t" using fits unfolding line by (cases "out_of (pci_pieces ?u)") simp_all
  then have "length (pending t) < 256" by (simp add: term_ok_def)
  then have rel': "term_rel img ?s t" by (rule term_rel_mem [OF rel _ apart(1) frame])
  have K: "hex_buffer img \<inter> console_area img (fbCon ?s) = {}"
    using apart(1) hex_buffer_touched by auto
  have lay': "console_layout img ?s" using lay(2) console_layout_cong [OF scr] by simp
  have fits': "term_fits ?s (out_of (pci_pieces ?u)) t" using fits term_fits_cong [OF scr] unfolding line by simp
  have "args_match (mem ?s) (hex_buffer img) (pci_pieces ?u) (map (\<lambda>k. VPtr (args k)) [0..<5])"
    using args by simp
  moreover have "at_rest (mem ?s) (hex_buffer img) (Lit pci_fmt) (fmt_of (pci_pieces ?u))"
    unfolding pci_fmt_pieces by (rule fmt_at_rest)
  ultimately obtain s' where s': "printf img (Lit pci_fmt) (map (\<lambda>k. VPtr (args k)) [0..<5]) ?s = Some (int (length (out_of (pci_pieces ?u))), s')"
    "term_rel img s' (term_puts (unat (TTY_Width ?s)) (out_of (pci_pieces ?u)) t)" "same_screen ?s s'" "console_frame img ?s s'"
    using printf_pieces [OF _ _ lay' rel' fits' out(2,1) K] by blast
  have "mem s' x = mem s x" if "x \<in> span h 12" for x
  proof -
    have "x \<notin> names_area img" "x \<notin> console_area img (fbCon s)" using that apart(2) by blast+
    then show ?thesis using s'(4) frame by (simp add: console_frame_def)
  qed
  note same = header_cong [OF this]
  have "EnumerateFunction img hw order deviceAddress function_no s = Some s'"
    using present s'(1) unfolding EnumerateFunction_def h [symmetric] Let_def run
    using no_ahci by (auto simp: same)
  then show ?thesis using s'(2) same_screen_trans [OF scr s'(3)] unfolding line by auto
qed

text \<open>A network card that nothing is known of, on a screen of 80 by 25 characters.\<close>

definition card_memory :: memory where
  "card_memory = (\<lambda>_. 0)(0x40000000 := 0xF4, 0x40000001 := 0x1A, 0x40000003 := 0x10, 0x4000000B := 0x02)"

definition ahci25 :: ahci where
  "ahci25 = ahci0\<lparr>TTY_Width := 80, TTY_Height := 25, mem := card_memory,
     fbCon := \<lparr>fb_width = 640, fb_height = 400, fb_mode = FB_MODE_RGBA, fb_ptr = 0x800000000\<rparr>\<rparr>"

lemma ahci25_console: "console_layout image0 ahci25" "fb_bytes (fbCon ahci25) = span 0x800000000 1024000"
  "term_rel image0 ahci25 term0"
proof -
  have f: "fbCon ahci25 = fbCon console25" "TTY_Width ahci25 = TTY_Width console25" "TTY_Height ahci25 = TTY_Height console25"
    by (simp_all add: ahci25_def console25_def)
  then show "console_layout image0 ahci25" using console25_layout by (simp add: log_layout_def console_layout_def)
  show "fb_bytes (fbCon ahci25) = span 0x800000000 1024000" using console25_bytes f by simp
  show "term_rel image0 ahci25 term0"
    by (simp add: term_rel_def ahci25_def ahci0_def acpi.defs ahci.defs ramfs.defs ramfs0_def interrupts.defs
        interrupts0_def keyboard.defs keyboard0_def console.defs console0_def term0_def esc_text_def pending_def
        image0_def card_memory_def)
qed

lemma card_header: "pci_VendorID card_memory 0x40000000 = 0x1AF4" "pci_DeviceID card_memory 0x40000000 = 0x1000"
  "pci_Class card_memory 0x40000000 = 2" "pci_Subclass card_memory 0x40000000 = 0" "pci_ProgIF card_memory 0x40000000 = 0"
  by (simp_all add: card_memory_def pci_VendorID_def pci_DeviceID_def pci_Class_def pci_Subclass_def pci_ProgIF_def
      load16_def mem_eval)

lemma hex16_1AF4: "hex16 0x1AF4 = bytes ''0000000000001AF4''"
proof -
  have "le_bytes (Suc (Suc (Suc (Suc (Suc (Suc (Suc (Suc 0)))))))) (0x1AF4 :: u64) = [0xF4, 0x1A, 0, 0, 0, 0, 0, 0]"
    by simp
  moreover have eight: "(8 :: nat) = Suc (Suc (Suc (Suc (Suc (Suc (Suc (Suc 0)))))))" by simp
  ultimately have "le_bytes 8 (0x1AF4 :: u64) = [0xF4, 0x1A, 0, 0, 0, 0, 0, 0]" by (simp only: eight)
  then show ?thesis by (simp add: hex16_def byte_hex_def upper_digits_def bytes_def)
qed

lemma card_line: "pci_line image0 0x40000000 [4, 3, 2, 1, 0] card_memory =
  bytes ''0000000000001AF4 / 0000000000001AF4 / Network Controller / '' @
  bytes ''0000000000001AF4 / 0000000000001AF4'' @ nl"
  by (simp add: pci_line_def arg_name_def name_fun_def card_header arg_code_def GetVendorName_def GetDeviceName_def
      DeviceClass_def DeviceClasses_def lit_def GetSubclassName_def GetProgIFName_def fst_to_hstring hex16_1AF4
      pci_pieces_def bytes_def nl_def)

theorem EnumerateFunction_prints_witness:
  "\<exists>s'. EnumerateFunction image0 (\<lambda>_ m. m) [4, 3, 2, 1, 0] 0x40000000 0 ahci25 = Some s' \<and>
     term_rel image0 s' (term_puts 80 (bytes ''0000000000001AF4 / 0000000000001AF4 / Network Controller / '' @
       bytes ''0000000000001AF4 / 0000000000001AF4'' @ nl) term0)"
proof -
  let ?h = "0x40000000 :: addr"
  have m: "mem ahci25 = card_memory" "unat (TTY_Width ahci25) = 80" "unat (TTY_Height ahci25) = 25"
    by (simp_all add: ahci25_def)
  have up: "span (0x100032 :: addr) 31 \<inter> span 0x800000000 1024000 = {}"
    "span (0x100032 :: addr) 31 \<inter> span 0x101000 256 = {}"
    "span (0x100032 :: addr) 31 \<inter> span 0x111000 256 = {}"
    "span (0x110000 :: addr) 8 \<inter> span 0x800000000 1024000 = {}"
    "span (0x110000 :: addr) 8 \<inter> span 0x111000 256 = {}"
    "span (0x40000000 :: addr) 12 \<inter> span 0x800000000 1024000 = {}"
    by (rule span_disjI, simp_all)+
  have down: "span (0x110000 :: addr) 8 \<inter> span 0x101000 256 = {}"
    "span (0x40000000 :: addr) 12 \<inter> span 0x100032 31 = {}"
    "span (0x40000000 :: addr) 12 \<inter> span 0x110000 8 = {}"
    "span (0x40000000 :: addr) 12 \<inter> span 0x101000 256 = {}"
    "span (0x40000000 :: addr) 12 \<inter> span 0x111000 256 = {}"
    by (rule span_disjI', simp_all)+
  have areas: "names_area image0 = span 0x100032 31 \<union> span 0x110000 8"
    "console_area image0 (fbCon ahci25) = span 0x800000000 1024000 \<union> span 0x101000 256 \<union> span 0x111000 256"
    unfolding console_area_def ahci25_console(2) by (simp_all add: names_area_def hstring_touched_def image0_def)
  have order: "{0..<5} \<subseteq> set [4, 3, 2, 1, 0 :: nat]" by (auto simp: numeral_eq_Suc less_Suc_eq)
  have "span 0x110000 15 \<inter> hstring_touched 0x100040 = {}"
    unfolding hstring_touched_def by (rule span_disjI') simp_all
  then have hstring: "hstring_layout image0" by (simp add: hstring_layout_def image0_def)
  have apart: "names_area image0 \<inter> console_area image0 (fbCon ahci25) = {}"
    "span ?h 12 \<inter> (names_area image0 \<union> console_area image0 (fbCon ahci25)) = {}"
    unfolding areas Int_Un_distrib Int_Un_distrib2 using up down by simp_all
  have fits: "term_fits ahci25 (pci_line image0 ?h [4, 3, 2, 1, 0] (mem ahci25)) term0"
    unfolding m(1) card_line by (simp add: bytes_def nl_def term_eval m term0_def)
  have "\<exists>s'. EnumerateFunction image0 (\<lambda>_ m. m) [4, 3, 2, 1, 0] ?h 0 ahci25 = Some s' \<and>
    term_rel image0 s' (term_puts (unat (TTY_Width ahci25)) (pci_line image0 ?h [4, 3, 2, 1, 0] (mem ahci25)) term0) \<and>
    same_screen ahci25 s'"
    by (rule EnumerateFunction_prints [OF _ _ _ _ order hstring ahci25_console(1,3) apart fits])
      (simp_all add: m card_header absent_def)
  then show ?thesis unfolding m card_line by blast
qed

end
