(* ===== verification/Video.thy ===== *)
theory Video
  imports Log
begin

text \<open>
  The rest of \<open>kernel/video/video.c\<close>: the operations that also print.
\<close>

definition clear_text :: "u8 list" where
  "clear_text = esc_seq ''[2J '' @ esc_seq ''[H''"

text \<open>\<open>color\<close> is not used; every pixel operation writes 0.\<close>

definition Clear :: "image \<Rightarrow> u32 \<Rightarrow> 'a console_scheme \<Rightarrow> 'a console_scheme option" where
  "Clear img color s =
     do { (_, s) \<leftarrow> printf img (lit ''%s'') [VPtr (Lit clear_text)] s;
          Some (fold (\<lambda>x. fold (\<lambda>y. putPixel (of_nat x) (of_nat y) 0) [0..<unat (fb_height (fbCon s))])
                  [0..<unat (fb_width (fbCon s))] s) }"

definition setCursorPos :: "image \<Rightarrow> u32 \<Rightarrow> u32 \<Rightarrow> 'a console_scheme \<Rightarrow> 'a console_scheme option" where
  "setCursorPos img x y s =
     do { (_, s) \<leftarrow> printf img (Lit (esc_seq ''[%i;%iH'')) [VInt (ucast x), VInt (ucast y)] s;
          map_option snd (printf img (lit ''%s'') [VPtr (Lit (esc_seq ''[1;1H''))] s) }"

definition getCursorPos :: "image \<Rightarrow> 'a console_scheme \<Rightarrow> 'a console_scheme option" where
  "getCursorPos img s = map_option snd (printf img (lit ''%s'') [VPtr (Lit (esc_seq ''[6n''))] s)"

end
