(* ===== verification/ComLog.thy ===== *)
theory ComLog
  imports Log
begin

text \<open>
  Output while \<open>TTY_WriteFunc\<close> is still \<open>COM_LogWrapper\<close>: characters go to the debug port, the
  cursor counts them.
\<close>

section \<open>Strings\<close>

fun com_cursor :: "u8 list \<Rightarrow> u16 \<times> u16 \<Rightarrow> u16 \<times> u16" where
  "com_cursor [] p = p"
| "com_cursor (c # cs) (x, y) =
     com_cursor cs (if c = 0x0D then (0, y) else if c = 0x0A then (x, y + 1) else (x + 1, y))"

lemma com_cursor_append: "com_cursor (xs @ ys) p = com_cursor ys (com_cursor xs p)"
  by (induction xs p rule: com_cursor.induct) simp_all

definition com_out :: "u8 list \<Rightarrow> 'a console_scheme \<Rightarrow> 'a console_scheme" where
  "com_out text s = (let p = com_cursor text (TTY_CursorX s, TTY_CursorY s) in
     s\<lparr>trace := trace s @ map (Out8 0xE9) text, TTY_CursorX := fst p, TTY_CursorY := snd p\<rparr>)"

lemma com_out_Nil [simp]: "com_out [] s = s"
  by (simp add: com_out_def)

lemma com_out_append: "com_out ys (com_out xs s) = com_out (xs @ ys) s"
  by (simp add: com_out_def Let_def com_cursor_append)

lemma com_out_simps [simp]:
  "mem (com_out cs s) = mem s" "TTY_WriteFunc (com_out cs s) = TTY_WriteFunc s"
  "trace (com_out cs s) = trace s @ map (Out8 0xE9) cs"
  by (simp_all add: com_out_def Let_def)

lemma putchar_com: "TTY_WriteFunc s = WriteCOM \<Longrightarrow> c \<noteq> 0 \<Longrightarrow> putchar L c s = Some (com_out [c] s)"
  by (simp add: putchar_def TTY_Write.simps COM_LogWrapper_def comout_char com_out_def debug_out_def)

lemma puts_loop_com:
  "cstr (mem s) p str \<Longrightarrow> TTY_WriteFunc s = WriteCOM \<Longrightarrow>
   puts_loop L p n s = Some (n + of_nat (length str), com_out str s)"
proof (induction str arbitrary: p n s)
  case Nil
  then show ?case by (subst puts_loop.simps) simp
next
  case (Cons c str)
  then have c: "c \<noteq> 0" "deref (mem s) p = c" "cstr (mem s) (inc p) str" by (simp_all add: cstr_Cons)
  have "puts_loop L (inc p) (n + 1) (com_out [c] s) = Some (n + 1 + of_nat (length str), com_out (c # str) s)"
    using Cons.IH [of "com_out [c] s" "inc p" "n + 1"] c(3) Cons.prems(2) com_out_append [of str "[c]" s] by simp
  then show ?case using c Cons.prems(2) putchar_com [of s c L]
    by (subst puts_loop.simps) (simp add: add.assoc)
qed

lemma puts_com:
  assumes "cstr (mem s) p str" and "TTY_WriteFunc s = WriteCOM" and "length str < 2 ^ 31"
  shows "puts L p s = Some (int (length str), com_out str s)"
proof -
  have "take_bit 64 (length str) = length str" using assms(3) by (intro take_bit_nat_eq_self) simp
  then have "sint (ucast (of_nat (length str) :: u64) :: u32) = int (length str)"
    using assms(3) by (simp add: unsigned_of_nat sint_of_nat32)
  then show ?thesis using puts_loop_com [OF assms(1,2), of L 0] by (simp add: puts_def)
qed

section \<open>Messages\<close>

text \<open>
  What a run of messages that start with the cursor in column 0 leaves: the texts on the port, the cursor in
  column 0 again, the memory outside \<open>A\<close>.
\<close>

definition com_rest :: "'a console_scheme \<Rightarrow> 'a console_scheme" where
  "com_rest s = s\<lparr>mem := \<lambda>_. 0, trace := [], TTY_CursorX := 0, TTY_CursorY := 0\<rparr>"

definition com_reports :: "addr set \<Rightarrow> u8 list \<Rightarrow> 'a console_scheme \<Rightarrow> 'a console_scheme \<Rightarrow> bool" where
  "com_reports A text s s' \<longleftrightarrow> com_rest s' = com_rest s \<and> TTY_CursorX s' = 0 \<and>
     trace s' = trace s @ map (Out8 0xE9) text \<and> (\<forall>b. b \<notin> A \<longrightarrow> mem s' b = mem s b)"

lemma com_reports_trans:
  "com_reports A xs s s1 \<Longrightarrow> com_reports B ys s1 s2 \<Longrightarrow> com_reports (A \<union> B) (xs @ ys) s s2"
  by (simp add: com_reports_def)

lemma com_reports_mem:
  "(\<And>b. b \<notin> A \<Longrightarrow> m b = mem s b) \<Longrightarrow> TTY_CursorX s = 0 \<Longrightarrow> com_reports A [] s (s\<lparr>mem := m\<rparr>)"
  by (simp add: com_reports_def com_rest_def)

lemma com_reports_com:
  assumes "com_reports A text s s'" shows "TTY_WriteFunc s' = TTY_WriteFunc s" and "TTY_CursorX s' = 0"
proof -
  have "TTY_WriteFunc (com_rest s') = TTY_WriteFunc (com_rest s)" using assms by (simp add: com_reports_def)
  then show "TTY_WriteFunc s' = TTY_WriteFunc s" by (simp add: com_rest_def)
qed (use assms in \<open>simp add: com_reports_def\<close>)

lemma com_log_state:
  assumes com: "TTY_WriteFunc s = WriteCOM" "TTY_CursorX s = 0"
    and strs: "str_arg (mem s) K module mo" "str_arg (mem s) K msg me"
    and K: "K \<inter> span (log_str_at L) 256 = {}" and d: "log_str_at L \<noteq> 0"
    and level: "unat level < 6" and len: "length (log_text mo level me) < 256"
  shows "log L module msg level s =
    Some (com_out (log_text mo level me) (s\<lparr>mem := store_bytes (mem s) (log_str_at L) (log_text mo level me @ [0])\<rparr>))"
proof -
  let ?t = "log_text mo level me" and ?d = "log_str_at L"
  let ?s = "s\<lparr>mem := store_bytes (mem s) ?d (?t @ [0])\<rparr>"
  have nz: "0 \<notin> set ?t"
    using strs level by (intro log_text_nonzero) (auto simp: str_arg_def cstr_def)
  have "cstr (mem ?s) (Addr ?d) ?t" using nz len by (simp add: cstr_store_bytes)
  then have "puts L (Addr ?d) ?s = Some (int (length ?t), com_out ?t ?s)"
    using com(1) len by (intro puts_com) simp_all
  then show ?thesis
    using com composed_log [OF strs K d level len] by (simp add: log_compose send_log_def)
qed

lemma log_buffer_frame:
  assumes "length (log_text mo level me) < 256" and "b \<notin> span d 256"
  shows "store_bytes m d (log_text mo level me @ [0]) b = m b"
proof (rule store_bytes_frame)
  have "span d (length (log_text mo level me @ [0])) \<subseteq> span d 256" using assms(1) by (intro span_mono) simp
  then show "b \<notin> span d (length (log_text mo level me @ [0]))" using assms(2) by blast
qed

lemma com_cursor_line: "fst (com_cursor (log_text mo level me) p) = 0"
proof -
  obtain u where u: "log_text mo level me = u @ [0x0D, 0x0A]" by (auto simp: log_text_def log_tail_def)
  show ?thesis unfolding u com_cursor_append by (cases "com_cursor u p") simp
qed

lemma com_log:
  assumes com: "TTY_WriteFunc s = WriteCOM" "TTY_CursorX s = 0"
    and strs: "str_arg (mem s) K module mo" "str_arg (mem s) K msg me"
    and K: "K \<inter> span (log_str_at L) 256 = {}" and d: "log_str_at L \<noteq> 0"
    and level: "unat level < 6" and len: "length (log_text mo level me) < 256"
  shows "\<exists>s'. log L module msg level s = Some s' \<and>
    com_reports (span (log_str_at L) 256) (log_text mo level me) s s'"
proof -
  let ?t = "log_text mo level me"
  let ?s = "s\<lparr>mem := store_bytes (mem s) (log_str_at L) (?t @ [0])\<rparr>"
  have "com_reports (span (log_str_at L) 256) ?t s (com_out ?t ?s)"
    using log_buffer_frame [OF len]
    by (simp add: com_reports_def com_rest_def com_out_def Let_def com_cursor_line del: store_bytes.simps)
  then show ?thesis using com_log_state [OF assms] by blast
qed

end
