(* ===== verification/Boot.thy ===== *)
theory Boot
  imports Pci Video ComLog
begin

text \<open>
  How the kernel comes up: the boot loader's answers (\<open>kernel/boot/checkLoader.c\<close>,
  \<open>kernel/boot/limine/check.c\<close> and \<open>framebuffer.c\<close>), the start of the console (\<open>FBCON_Init\<close> of
  \<open>kernel/video/fbcon.c\<close>), \<open>kernel/init.c\<close> and \<open>kernel/kernel.c\<close>.
\<close>

record kernel = ahci +
  BOOT_LoaderID :: u8
  fbInfoLocal :: framebuffer_t
  physical_kernel_start :: u64
  virtual_kernel_start :: u64
  hhdm_offset :: u64

section \<open>The boot loader\<close>

definition BOOT_LoaderID_Unknown :: u8 where "BOOT_LoaderID_Unknown = 0"
definition BOOT_LoaderID_LimineCompatible :: u8 where "BOOT_LoaderID_LimineCompatible = 1"

definition LM_Check :: "limine \<Rightarrow> addr" where
  "LM_Check lm = (if bootloaderInfo_response lm = 0 then 0 else bootloaderInfo_response lm)"

definition loader_name :: "memory \<Rightarrow> addr \<Rightarrow> addr" where "loader_name m r = bi_name (bootloader_info_at m r)"

definition loader_version :: "memory \<Rightarrow> addr \<Rightarrow> addr" where "loader_version m r = bi_version (bootloader_info_at m r)"

text \<open>A name goes into an array of 64 bytes, by \<open>strcpy\<close> when it has up to 64 characters.\<close>

definition keep_name :: "addr \<Rightarrow> cptr \<Rightarrow> memory \<Rightarrow> memory option" where
  "keep_name dest src m =
     do { n \<leftarrow> strlen m src;
          if n \<le> 64 then strcpy dest src m else Some (memcpy dest src 64 m) }"

definition found_fmt :: "u8 list" where
  "found_fmt = bytes ''Found Limine compatible bootloader, named '' @ [0x22] @ bytes ''%s'' @ [0x22] @
     bytes '', with version '' @ [0x22] @ bytes ''%s'' @ [0x22]"

abbreviation (input) boot_log :: "image \<Rightarrow> cptr \<Rightarrow> u8 \<Rightarrow> 'a console_scheme \<Rightarrow> 'a console_scheme option" where
  "boot_log img \<equiv> log img (lit ''BOOTDTCT'')"

definition BOOT_CheckLoader :: "image \<Rightarrow> limine \<Rightarrow> 'a kernel_scheme \<Rightarrow> 'a kernel_scheme option" where
  "BOOT_CheckLoader img lm s =
     do { s \<leftarrow> boot_log img (lit ''=== Autodetecting Bootloader ==='') LOGLEVEL_INFO s;
          let str = BOOT_str_at img;
          m \<leftarrow> strcpy str (lit ''Limine... '') (mem s);
          let s = s\<lparr>mem := m\<rparr>;
          let limineData = LM_Check lm;
          if limineData \<noteq> 0
          then do { m \<leftarrow> strcat str (lit ''YES'') (mem s);
                    s \<leftarrow> boot_log img (Addr str) LOGLEVEL_INFO (s\<lparr>mem := m\<rparr>);
                    (_, s) \<leftarrow> sprintf str (Lit found_fmt)
                      [VPtr (Addr (loader_name (mem s) limineData)), VPtr (Addr (loader_version (mem s) limineData))] s;
                    s \<leftarrow> boot_log img (Addr str) LOGLEVEL_INFO s;
                    m \<leftarrow> keep_name (BOOT_LoaderName_at img) (Addr (loader_name (mem s) limineData)) (mem s);
                    let s = s\<lparr>mem := m\<rparr>;
                    m \<leftarrow> keep_name (BOOT_LoaderVersion_at img) (Addr (loader_version (mem s) limineData)) (mem s);
                    Some (s\<lparr>mem := m, BOOT_LoaderID := BOOT_LoaderID_LimineCompatible\<rparr>) }
          else do { m \<leftarrow> strcat str (lit ''NO'') (mem s);
                    s \<leftarrow> boot_log img (Addr str) LOGLEVEL_INFO (s\<lparr>mem := m\<rparr>);
                    boot_log img (lit ''No known bootloader detected!  Disabling bootloader-specific features.'')
                      LOGLEVEL_WARN s } }"

section \<open>The console comes up\<close>

text \<open>The pitch is not read.\<close>

definition LM_GetFramebuffer :: "limine \<Rightarrow> 'a kernel_scheme \<Rightarrow> framebuffer_t \<times> 'a kernel_scheme" where
  "LM_GetFramebuffer lm s =
     (let res = framebuffer_at (mem s) (load64 (mem s) (fbr_framebuffers (framebuffer_response_at (mem s) (fbRequest_response lm))));
          fb = \<lparr>fb_width = ucast (lfb_width res), fb_height = ucast (lfb_height res),
                fb_mode = FB_MODE_RGBA, fb_ptr = lfb_address res\<rparr>
      in (fb, s\<lparr>fbInfoLocal := fb\<rparr>))"

abbreviation (input) fbcon_log :: "image \<Rightarrow> cptr \<Rightarrow> u8 \<Rightarrow> 'a console_scheme \<Rightarrow> 'a console_scheme option" where
  "fbcon_log img \<equiv> log img (lit ''FBCON'')"

definition fbcon_reset :: "framebuffer_t \<Rightarrow> 'a console_scheme \<Rightarrow> 'a console_scheme" where
  "fbcon_reset ret s =
     s\<lparr>fbCon := ret, TTY_CursorX := 0, TTY_CursorY := 0, TTY_Width := ucast (fb_width ret div 8),
       TTY_Height := ucast (fb_height ret div 16), TTY_Color := COLOR_LGRAY, TTY_Bold := False\<rparr>"

definition fbcon_start :: "image \<Rightarrow> framebuffer_t \<Rightarrow> 'a console_scheme \<Rightarrow> 'a console_scheme option" where
  "fbcon_start img ret s =
     (if fb_ptr ret \<noteq> 0
      then do { s \<leftarrow> fbcon_log img (lit ''Setting TTY Write func'') LOGLEVEL_DEBUG s;
                let s = TTY_SetWriteFunc WriteFBCON s;
                fbcon_log img (lit ''Done setting TTY Write func'') LOGLEVEL_DEBUG s }
      else Some s)"

definition FBCON_Init :: "image \<Rightarrow> limine \<Rightarrow> 'a kernel_scheme \<Rightarrow> (framebuffer_t \<times> 'a kernel_scheme) option" where
  "FBCON_Init img lm s =
     do { (ret, s) \<leftarrow>
            (if BOOT_LoaderID s = BOOT_LoaderID_LimineCompatible then Some (LM_GetFramebuffer lm s)
             else do { s \<leftarrow> fbcon_log img (lit (''Unknown bootloader.  Unable to set framebuffer!  Keeping print '' @
                           ''method to default, you will probably not have video output!'')) LOGLEVEL_FATAL s;
                       Some (\<lparr>fb_width = 0, fb_height = 0, fb_mode = FB_MODE_ARGB, fb_ptr = 0\<rparr>, s) });
          s \<leftarrow> fbcon_start img ret (fbcon_reset ret s);
          Some (ret, s) }"

section \<open>Initialisation\<close>

text \<open>What the kernel finds when it starts: its image, the boot loader's answers and the devices.\<close>

record platform =
  p_image :: image
  p_limine :: limine
  p_dev :: device
  p_hba :: hba
  p_cr2 :: u64
  p_regs :: addr
  p_cpu :: registers_t
  p_order :: "nat list"

text \<open>The memory map: the last usable region becomes the heap.\<close>

definition LIMINE_MEMMAP_USABLE :: u64 where "LIMINE_MEMMAP_USABLE = 0"

definition memmap_count :: "limine \<Rightarrow> memory \<Rightarrow> u64" where
  "memmap_count lm m = mmr_entry_count (memmap_response_at m (mmap_response lm))"

definition memmap_entry :: "limine \<Rightarrow> memory \<Rightarrow> u64 \<Rightarrow> addr" where
  "memmap_entry lm m i = load64 m (mmr_entries (memmap_response_at m (mmap_response lm)) + 8 * i)"

function init_regions :: "limine \<Rightarrow> u64 \<Rightarrow> 'a heap_scheme \<Rightarrow> 'a heap_scheme" where
  "init_regions lm i s =
     (if i < memmap_count lm (mem s)
      then init_regions lm (i + 1)
             (if load64 (mem s) (memmap_entry lm (mem s) i + 16) = LIMINE_MEMMAP_USABLE
              then MEM_Init (load64 (mem s) (memmap_entry lm (mem s) i)) s else s)
      else s)"
  by pat_completeness auto
termination
  by (relation "measure (\<lambda>(lm, i, s). unat (memmap_count lm (mem s)) - unat i)")
    (auto simp: unat_Suc_less word_less_nat_alt MEM_Init_def)

declare init_regions.simps [simp del]

text \<open>\<open>sizeof(GDT)\<close> is 4096, since the type has that alignment.\<close>

definition sizeof_GDT :: u16 where "sizeof_GDT = 4096"

definition init_tables :: "platform \<Rightarrow> 'a kernel_scheme \<Rightarrow> 'a kernel_scheme option" where
  "init_tables P s =
     do { let s = LoadGDT (sizeof_GDT - 1) (DefaultGDT_at (p_image P)) s;
          s \<leftarrow> comout (Lit (bytes ''TETS'' @ nl)) s;
          let s = create_idt (p_image P) (p_dev P) s;
          let s = s\<lparr>physical_kernel_start := ka_physical_base (kernel_address_at (mem s) (kernel_address_response (p_limine P)))\<rparr>;
          let s = s\<lparr>virtual_kernel_start := ka_virtual_base (kernel_address_at (mem s) (kernel_address_response (p_limine P)))\<rparr>;
          Some (s\<lparr>hhdm_offset := hhdm_response_offset (hhdm_at (mem s) (hhdm_response (p_limine P)))\<rparr>) }"

definition init :: "platform \<Rightarrow> 'a kernel_scheme \<Rightarrow> 'a kernel_scheme option" where
  "init P s =
     do { let s = TTY_SetWriteFunc WriteCOM s;
          s \<leftarrow> BOOT_CheckLoader (p_image P) (p_limine P) s;
          (_, s) \<leftarrow> FBCON_Init (p_image P) (p_limine P) s;
          let s = init_regions (p_limine P) 0 s;
          let s = s\<lparr>initramfs := load64 (mem s) (mod_modules (module_response_at (mem s) (module_response (p_limine P))))\<rparr>;
          s \<leftarrow> init_tables P s;
          s \<leftarrow> (if initramfs s = 0
               then do { (_, s) \<leftarrow> printf (p_image P) (Lit (bytes ''[ %sINFO%s ] ramdisk not present'' @ nl))
                           [VPtr (Lit (esc_seq ''[34m'')), VPtr (Lit (esc_seq ''[37m''))] s;
                         panic (p_image P) (p_cr2 P) (lit (''ERROR: no ramdisk found! how do you expect to be able '' @
                           ''to do anything without a disk?'')) 0 s }
               else Some s);
          (_, s) \<leftarrow> parse (p_image P) s;
          s \<leftarrow> ACPI_Init (p_image P) (p_limine P) (p_cr2 P) (p_regs P) (p_cpu P) s;
          EnumeratePCI (p_image P) (p_hba P) (p_cr2 P) (p_order P) (mcfg s) s }"

text \<open>The entry point \<open>_start\<close>: what it does before it idles, and the idle loop.\<close>

definition start_messages :: "platform \<Rightarrow> 'a kernel_scheme \<Rightarrow> 'a kernel_scheme option" where
  "start_messages P s =
     do { s \<leftarrow> init P s;
          s \<leftarrow> comout (Lit (bytes ''Hello COM'' @ nl)) s;
          map_option snd (printf (p_image P) (Lit (bytes ''Welcome to SeshOS'' @ nl)) [] s) }"

definition start_kernel :: "platform \<Rightarrow> 'a kernel_scheme \<Rightarrow> 'a kernel_scheme option" where
  "start_kernel P s = Option.bind (start_messages P s) halt_loop"

section \<open>The boot loader's name\<close>

text \<open>What \<open>keep_name\<close> writes: with 64 characters one byte more than the array has.\<close>

definition kept :: "u8 list \<Rightarrow> u8 list" where
  "kept t = (if length t \<le> 64 then t @ [0] else take 64 t)"

lemma length_kept: "length (kept t) \<le> 65" "length t = 64 \<Longrightarrow> length (kept t) = 65"
  by (simp_all add: kept_def)

lemma keep_name_store:
  assumes str: "cstr m (Addr a) t" and len: "length t < 2 ^ 31" and dest: "dest \<noteq> 0"
    and apart: "span dest 65 \<inter> span a (Suc (length t)) = {}"
  shows "keep_name dest (Addr a) m = Some (store_bytes m dest (kept t))"
proof -
  have n: "strlen m (Addr a) = Some (of_nat (length t))" using len by (intro strlen_cstr [OF str]) simp
  have le: "(of_nat (length t) :: u64) \<le> 64 \<longleftrightarrow> length t \<le> 64"
    using len by (simp add: word_le_nat_alt unat_of_nat_lt)
  show ?thesis
  proof (cases "length t \<le> 64")
    case True
    then have "span dest (Suc (length t)) \<subseteq> span dest 65" by (intro span_mono) simp
    then have "copy_string dest (Addr a) m = Some (store_bytes m dest (t @ [0]))"
      using apart by (intro copy_string_store [OF str]) auto
    with True show ?thesis using n le dest by (simp add: keep_name_def strcpy_def kept_def)
  next
    case False
    have "span dest 64 \<subseteq> span dest 65" "span a 64 \<subseteq> span a (Suc (length t))"
      using False by (intro span_mono, simp)+
    then have "copy_safe dest (Addr a) 64" using apart by (intro copy_safe_disjoint) auto
    then have "memcpy dest (Addr a) 64 m = store_bytes m dest (read_bytes m (Addr a) 64)"
      using memcpy_store [of dest "Addr a" 64 m] by simp
    moreover have "read_bytes m (Addr a) 64 = take 64 t" using False by (intro cstr_read_bytes [OF str]) simp
    ultimately show ?thesis using n le False by (simp add: keep_name_def kept_def)
  qed
qed

definition found_pieces :: "u8 list \<Rightarrow> u8 list \<Rightarrow> piece list" where
  "found_pieces nm vs = map PChar (bytes ''Found Limine compatible bootloader, named '' @ [0x22]) @ [PStr nm] @
     map PChar ([0x22] @ bytes '', with version '' @ [0x22]) @ [PStr vs] @ map PChar [0x22]"

definition found_text :: "u8 list \<Rightarrow> u8 list \<Rightarrow> u8 list" where
  "found_text nm vs = bytes ''Found Limine compatible bootloader, named '' @ [0x22] @ nm @ [0x22] @
     bytes '', with version '' @ [0x22] @ vs @ [0x22]"

lemma found_pieces_text: "fmt_of (found_pieces nm vs) = found_fmt" "0 \<notin> set found_fmt"
  "out_of (found_pieces nm vs) = found_text nm vs"
  by (simp_all add: found_pieces_def found_fmt_def found_text_def bytes_def)

lemma found_args:
  assumes "str_arg m K p nm" and "str_arg m K q vs"
  shows "args_match m K (found_pieces nm vs) [VPtr p, VPtr q]"
proof -
  have "plain (bytes ''Found Limine compatible bootloader, named '' @ [0x22])"
    "plain (bytes '', with version '' @ [0x22])"
    by (simp_all add: plain_def bytes_def)
  then show ?thesis using assms unfolding found_pieces_def by (simp del: map_append)
qed

abbreviation (input) boot_line :: "u8 list \<Rightarrow> u8 list" where
  "boot_line msg \<equiv> log_text (bytes ''BOOTDTCT'') LOGLEVEL_INFO msg"

definition boot_text :: "u8 list \<Rightarrow> u8 list \<Rightarrow> u8 list" where
  "boot_text nm vs = boot_line (bytes ''=== Autodetecting Bootloader ==='') @ boot_line (bytes ''Limine... YES'') @
     boot_line (found_text nm vs)"

text \<open>The areas: the local buffers, the arrays for the names, and what the boot loader left.\<close>

definition boot_scratch :: "image \<Rightarrow> addr set" where
  "boot_scratch img = span (BOOT_str_at img) 128 \<union> span (log_str_at img) 256"

definition boot_names :: "image \<Rightarrow> addr set" where
  "boot_names img = span (BOOT_LoaderName_at img) 65 \<union> span (BOOT_LoaderVersion_at img) 65"

definition boot_image :: "image \<Rightarrow> bool" where
  "boot_image img \<longleftrightarrow> BOOT_str_at img \<noteq> 0 \<and> log_str_at img \<noteq> 0 \<and>
     BOOT_LoaderName_at img \<noteq> 0 \<and> BOOT_LoaderVersion_at img \<noteq> 0 \<and>
     span (BOOT_str_at img) 128 \<inter> span (log_str_at img) 256 = {} \<and> boot_names img \<inter> boot_scratch img = {}"

definition loader_says :: "image \<Rightarrow> addr \<Rightarrow> memory \<Rightarrow> u8 list \<Rightarrow> u8 list \<Rightarrow> bool" where
  "loader_says img r m nm vs \<longleftrightarrow>
     loader_name m r \<noteq> 0 \<and> loader_version m r \<noteq> 0 \<and>
     cstr m (Addr (loader_name m r)) nm \<and> cstr m (Addr (loader_version m r)) vs \<and>
     (span r 24 \<union> span (loader_name m r) (Suc (length nm)) \<union> span (loader_version m r) (Suc (length vs))) \<inter>
       (boot_scratch img \<union> boot_names img) = {}"

lemma loader_says_cong:
  assumes "loader_says img r m nm vs" and "\<And>b. b \<notin> boot_scratch img \<union> boot_names img \<Longrightarrow> m' b = m b"
  shows "loader_name m' r = loader_name m r" and "loader_version m' r = loader_version m r"
    and "loader_says img r m' nm vs"
proof -
  have "span (r + 8) 8 \<subseteq> span r 24" "span (r + 16) 8 \<subseteq> span r 24"
    using span_sub [of 8 8 24 r] span_sub [of 16 8 24 r] by simp_all
  moreover have "m' b = m b" if "b \<in> span r 24" for b
    using that assms by (intro assms(2)) (auto simp: loader_says_def)
  ultimately show eq: "loader_name m' r = loader_name m r" "loader_version m' r = loader_version m r"
    unfolding loader_name_def loader_version_def by (auto intro!: c64.ld_cong)
  have same: "m' b = m b" if "b \<in> span (loader_name m r) (Suc (length nm)) \<union> span (loader_version m r) (Suc (length vs))" for b
    using that assms(1) by (intro assms(2)) (auto simp: loader_says_def)
  have "cstr m' (Addr (loader_name m r)) nm = cstr m (Addr (loader_name m r)) nm"
    "cstr m' (Addr (loader_version m r)) vs = cstr m (Addr (loader_version m r)) vs"
    by (rule cstr_ptr_cong, simp add: same)+
  then show "loader_says img r m' nm vs" using assms(1) unfolding loader_says_def eq by simp
qed

lemma boot_log_line:
  assumes "TTY_WriteFunc s = WriteCOM" "TTY_CursorX s = 0" "boot_image img"
    and "str_arg (mem s) (span (BOOT_str_at img) 128) msg me" and "length (boot_line me) < 256"
  shows "\<exists>s'. boot_log img msg LOGLEVEL_INFO s = Some s' \<and> com_reports (span (log_str_at img) 256) (boot_line me) s s'"
proof (rule com_log [OF assms(1,2) _ assms(4)])
  show "str_arg (mem s) (span (BOOT_str_at img) 128) (lit ''BOOTDTCT'') (bytes ''BOOTDTCT'')"
    by (simp add: str_arg_def lit_def bytes_def)
qed (use assms(3,5) in \<open>simp_all add: boot_image_def LOGLEVEL_INFO_def\<close>)

lemma strcpy_lit: "d \<noteq> 0 \<Longrightarrow> 0 \<notin> set t \<Longrightarrow> strcpy d (Lit t) m = Some (store_bytes m d (t @ [0]))"
  using copy_string_store [of m "Lit t" t d] by (simp add: strcpy_def)

lemma str_in_buffer:
  assumes "d \<noteq> 0" and "0 \<notin> set t" and "length t < n" and "n < 2 ^ 31"
  shows "str_arg (store_bytes m d (t @ [0])) (span d n) (Addr d) t"
  using assms span_mono [of "Suc (length t)" n d] cstr_store_bytes [of t m d] by (simp add: str_arg_def)

lemma store_in_buffer:
  assumes "length t < n" and "b \<notin> span d n" shows "store_bytes m d (t @ [0]) b = m b"
proof (rule store_bytes_frame)
  have "span d (length (t @ [0])) \<subseteq> span d n" using assms(1) by (intro span_mono) simp
  then show "b \<notin> span d (length (t @ [0]))" using assms(2) by blast
qed

text \<open>A message composed in the buffer \<open>str\<close> and logged from there.\<close>

lemma boot_log_buffer:
  assumes com: "TTY_WriteFunc s = WriteCOM" "TTY_CursorX s = 0" and img: "boot_image img"
    and t: "0 \<notin> set t" "length t < 128" "length (boot_line t) < 256"
  shows "\<exists>s'. boot_log img (Addr (BOOT_str_at img)) LOGLEVEL_INFO
      (s\<lparr>mem := store_bytes (mem s) (BOOT_str_at img) (t @ [0])\<rparr>) = Some s' \<and>
    com_reports (boot_scratch img) (boot_line t) s s' \<and>
    (\<forall>b\<in>span (BOOT_str_at img) 128. mem s' b = store_bytes (mem s) (BOOT_str_at img) (t @ [0]) b)"
proof -
  let ?d = "BOOT_str_at img"
  let ?s = "s\<lparr>mem := store_bytes (mem s) ?d (t @ [0])\<rparr>"
  have d: "?d \<noteq> 0" "span ?d 128 \<inter> span (log_str_at img) 256 = {}" using img by (simp_all add: boot_image_def)
  have "str_arg (mem ?s) (span ?d 128) (Addr ?d) t" using str_in_buffer [OF d(1) t(1,2)] by simp
  then obtain s' where s': "boot_log img (Addr ?d) LOGLEVEL_INFO ?s = Some s'"
      "com_reports (span (log_str_at img) 256) (boot_line t) ?s s'"
    using boot_log_line [of ?s img "Addr ?d" t] com img t(3) by auto
  have "com_reports (span ?d 128) [] s ?s" using com(2) t(2) by (intro com_reports_mem store_in_buffer)
  from com_reports_trans [OF this s'(2)] have "com_reports (boot_scratch img) (boot_line t) s s'"
    by (simp add: boot_scratch_def)
  moreover have "\<forall>b\<in>span ?d 128. mem s' b = mem ?s b" using s'(2) d(2) unfolding com_reports_def by blast
  ultimately show ?thesis using s'(1) by auto
qed

lemma boot_found:
  assumes img: "boot_image img" and says: "loader_says img r (mem s) nm vs" and len: "length (found_text nm vs) < 128"
  shows "sprintf (BOOT_str_at img) (Lit found_fmt) [VPtr (Addr (loader_name (mem s) r)), VPtr (Addr (loader_version (mem s) r))] s =
      Some (int (length (found_text nm vs)), s\<lparr>mem := store_bytes (mem s) (BOOT_str_at img) (found_text nm vs @ [0])\<rparr>)"
    and "0 \<notin> set (found_text nm vs)"
proof -
  let ?na = "loader_name (mem s) r" and ?va = "loader_version (mem s) r"
  let ?K = "span ?na (Suc (length nm)) \<union> span ?va (Suc (length vs))"
  have small: "length nm < 2 ^ 31" "length vs < 2 ^ 31" using len by (simp_all add: found_text_def)
  have "str_arg (mem s) ?K (Addr ?na) nm" "str_arg (mem s) ?K (Addr ?va) vs"
    using says small by (auto simp: str_arg_def loader_says_def)
  note args = found_args [OF this]
  have "span (BOOT_str_at img) (length (found_text nm vs)) \<subseteq> span (BOOT_str_at img) 128" using len by (intro span_mono) simp
  then have "span (BOOT_str_at img) (length (found_text nm vs)) \<inter> ?K = {}"
    using says by (auto simp: loader_says_def boot_scratch_def)
  then show "sprintf (BOOT_str_at img) (Lit found_fmt) [VPtr (Addr ?na), VPtr (Addr ?va)] s =
      Some (int (length (found_text nm vs)), s\<lparr>mem := store_bytes (mem s) (BOOT_str_at img) (found_text nm vs @ [0])\<rparr>)"
    using sprintf_pieces [OF args, of "Lit found_fmt" "BOOT_str_at img"] img len found_pieces_text
    by (simp add: at_rest_def boot_image_def)
  show "0 \<notin> set (found_text nm vs)"
    using says by (auto simp: found_text_def loader_says_def cstr_def bytes_def)
qed

lemma keep_loader_names:
  assumes img: "boot_image img" and says: "loader_says img r m nm vs" and len: "length (found_text nm vs) < 128"
  shows "do { m \<leftarrow> keep_name (BOOT_LoaderName_at img) (Addr (loader_name m r)) m;
              keep_name (BOOT_LoaderVersion_at img) (Addr (loader_version m r)) m } =
    Some (store_bytes (store_bytes m (BOOT_LoaderName_at img) (kept nm)) (BOOT_LoaderVersion_at img) (kept vs))"
proof -
  let ?N = "BOOT_LoaderName_at img" and ?V = "BOOT_LoaderVersion_at img"
  let ?m = "store_bytes m ?N (kept nm)"
  have small: "length nm < 2 ^ 31" "length vs < 2 ^ 31" using len by (simp_all add: found_text_def)
  have nz: "?N \<noteq> 0" "?V \<noteq> 0" using img by (simp_all add: boot_image_def)
  have "span ?N 65 \<inter> span (loader_name m r) (Suc (length nm)) = {}"
    using says by (auto simp: loader_says_def boot_names_def)
  then have 1: "keep_name ?N (Addr (loader_name m r)) m = Some ?m"
    using says small nz by (intro keep_name_store) (auto simp: loader_says_def)
  have "?m b = m b" if "b \<notin> boot_scratch img \<union> boot_names img" for b
  proof (rule store_bytes_frame)
    have "span ?N (length (kept nm)) \<subseteq> span ?N 65" by (intro span_mono length_kept)
    then show "b \<notin> span ?N (length (kept nm))" using that by (auto simp: boot_names_def)
  qed
  note says' = loader_says_cong [OF says this]
  have "span ?V 65 \<inter> span (loader_version ?m r) (Suc (length vs)) = {}"
    using says'(3) by (auto simp: loader_says_def boot_names_def)
  then have 2: "keep_name ?V (Addr (loader_version ?m r)) ?m = Some (store_bytes ?m ?V (kept vs))"
    using says'(3) small nz by (intro keep_name_store) (auto simp: loader_says_def)
  show ?thesis using 1 2 by simp
qed

lemma LM_Check_response: "LM_Check lm = bootloaderInfo_response lm"
  by (simp add: LM_Check_def)

lemma boot_lines_short: "length (boot_line (bytes ''=== Autodetecting Bootloader ==='')) < 256"
  "length (boot_line (bytes ''Limine... YES'')) < 256"
  by (simp_all add: log_text_def log_head_def log_tail_def text_defs ansiColors_def LOGLEVEL_defs)

lemma BOOT_CheckLoader_found:
  assumes com: "TTY_WriteFunc s = WriteCOM" "TTY_CursorX s = 0" and img: "boot_image img"
    and r: "bootloaderInfo_response lm = r" "r \<noteq> 0" and says: "loader_says img r (mem s) nm vs"
    and len: "length (found_text nm vs) < 128" "length (boot_line (found_text nm vs)) < 256"
  obtains s' s3 where "BOOT_CheckLoader img lm s = Some s'" "com_reports (boot_scratch img) (boot_text nm vs) s s3"
    "s' = s3\<lparr>mem := store_bytes (store_bytes (mem s3) (BOOT_LoaderName_at img) (kept nm)) (BOOT_LoaderVersion_at img) (kept vs),
       BOOT_LoaderID := 1\<rparr>"
proof -
  let ?d = "BOOT_str_at img" and ?W = "boot_scratch img"
  have d: "?d \<noteq> 0" using img by (simp add: boot_image_def)
  obtain s1 where s1: "boot_log img (lit ''=== Autodetecting Bootloader ==='') LOGLEVEL_INFO s = Some s1"
      "com_reports (span (log_str_at img) 256) (boot_line (bytes ''=== Autodetecting Bootloader ==='')) s s1"
    using boot_log_line [OF com img _ boot_lines_short(1), of "lit ''=== Autodetecting Bootloader ===''"]
    by (auto simp: str_arg_def lit_def bytes_def)
  note c1 = com_reports_com [OF s1(2)]
  have com1: "TTY_WriteFunc s1 = WriteCOM" "TTY_CursorX s1 = 0" using c1 com by simp_all
  have cat: "strcpy ?d (lit ''Limine... '') (mem s1) = Some (store_bytes (mem s1) ?d (bytes ''Limine... '' @ [0]))"
    "strcat ?d (lit ''YES'') (store_bytes (mem s1) ?d (bytes ''Limine... '' @ [0])) =
       Some (store_bytes (mem s1) ?d (bytes ''Limine... YES'' @ [0]))"
    using strcpy_lit [OF d, of "bytes ''Limine... ''" "mem s1"]
      strcat_text [of "bytes ''Limine... ''" "bytes ''YES''" ?d "mem s1"]
    by (simp_all add: lit_def bytes_def del: store_bytes.simps)
  obtain s2 where s2: "boot_log img (Addr ?d) LOGLEVEL_INFO
      (s1\<lparr>mem := store_bytes (mem s1) ?d (bytes ''Limine... YES'' @ [0])\<rparr>) = Some s2"
      "com_reports ?W (boot_line (bytes ''Limine... YES'')) s1 s2"
    using boot_log_buffer [OF com1 img, of "bytes ''Limine... YES''"] boot_lines_short(2) by (auto simp: bytes_def)
  note c2 = com_reports_com [OF s2(2)]
  have com2: "TTY_WriteFunc s2 = WriteCOM" "TTY_CursorX s2 = 0" using c2 com1 by simp_all
  have r2: "com_reports ?W (boot_line (bytes ''=== Autodetecting Bootloader ==='') @ boot_line (bytes ''Limine... YES'')) s s2"
    using com_reports_trans [OF s1(2) s2(2)] by (simp add: boot_scratch_def Un_ac)
  then have "loader_says img r (mem s2) nm vs"
    by (intro loader_says_cong(3) [OF says]) (auto simp: com_reports_def)
  note found = boot_found [OF img this len(1)]
  obtain s3 where s3: "boot_log img (Addr ?d) LOGLEVEL_INFO
      (s2\<lparr>mem := store_bytes (mem s2) ?d (found_text nm vs @ [0])\<rparr>) = Some s3"
      "com_reports ?W (boot_line (found_text nm vs)) s2 s3"
    using boot_log_buffer [OF com2 img found(2) len] by blast
  have r3: "com_reports ?W (boot_text nm vs) s s3"
    using com_reports_trans [OF r2 s3(2)] by (simp add: boot_text_def)
  then have "loader_says img r (mem s3) nm vs"
    by (intro loader_says_cong(3) [OF says]) (auto simp: com_reports_def)
  note names = keep_loader_names [OF img this len(1)]
  let ?m = "store_bytes (store_bytes (mem s3) (BOOT_LoaderName_at img) (kept nm)) (BOOT_LoaderVersion_at img) (kept vs)"
  have "BOOT_CheckLoader img lm s = Some (s3\<lparr>mem := ?m, BOOT_LoaderID := 1\<rparr>)"
    using r names unfolding BOOT_CheckLoader_def LM_Check_response
    by (simp add: s1(1) cat s2(1) found(1) s3(1) Let_def BOOT_LoaderID_LimineCompatible_def bind_eq_Some_conv)
      (auto simp: bind_eq_Some_conv)
  with r3 show thesis using that by blast
qed

lemma store_bytes_at: "m b = m' b \<Longrightarrow> store_bytes m a bs b = store_bytes m' a bs b"
proof (induction bs arbitrary: a m m')
  case (Cons x bs)
  have "(m(a := x)) b = (m'(a := x)) b" using Cons.prems by (cases "b = a") simp_all
  then show ?case unfolding store_bytes.simps by (rule Cons.IH)
qed simp

section \<open>Properties\<close>

text \<open>
  C22: When the boot loader has answered, \<open>BOOT_CheckLoader\<close> sends its three messages to the debug port, sets
  \<open>BOOT_LoaderID\<close>, keeps the loader's name and version and changes no other memory but its buffers.  A name
  of exactly 64 characters is written with its terminating NUL, one byte too many: when the array of the
  version follows that of the name, as declared, the version overwrites the NUL and the kept name runs on
  into it.
\<close>

theorem BOOT_CheckLoader_detects:
  assumes "TTY_WriteFunc s = WriteCOM" "TTY_CursorX s = 0" and img: "boot_image img"
    and "bootloaderInfo_response lm \<noteq> 0" and says: "loader_says img (bootloaderInfo_response lm) (mem s) nm vs"
    and "length (found_text nm vs) < 128" "length (boot_line (found_text nm vs)) < 256"
  shows "\<exists>s'. BOOT_CheckLoader img lm s = Some s' \<and> BOOT_LoaderID s' = BOOT_LoaderID_LimineCompatible \<and>
    TTY_WriteFunc s' = WriteCOM \<and> TTY_CursorX s' = 0 \<and> trace s' = trace s @ map (Out8 0xE9) (boot_text nm vs) \<and>
    (\<forall>b. b \<notin> boot_scratch img \<longrightarrow> mem s' b =
       store_bytes (store_bytes (mem s) (BOOT_LoaderName_at img) (kept nm)) (BOOT_LoaderVersion_at img) (kept vs) b) \<and>
    (length nm = 64 \<and> length vs < 64 \<and> BOOT_LoaderVersion_at img = BOOT_LoaderName_at img + 64 \<longrightarrow>
       cstr (mem s') (Addr (BOOT_LoaderName_at img)) (nm @ vs))"
proof -
  let ?N = "BOOT_LoaderName_at img" and ?V = "BOOT_LoaderVersion_at img"
  obtain s' s3 where run: "BOOT_CheckLoader img lm s = Some s'" and r: "com_reports (boot_scratch img) (boot_text nm vs) s s3"
    and s': "s' = s3\<lparr>mem := store_bytes (store_bytes (mem s3) ?N (kept nm)) ?V (kept vs), BOOT_LoaderID := 1\<rparr>"
    using BOOT_CheckLoader_found [OF assms(1-3) refl assms(4-7)] by metis
  have m: "mem s' b = store_bytes (store_bytes (mem s) ?N (kept nm)) ?V (kept vs) b" if "b \<notin> boot_scratch img" for b
  proof -
    have "mem s3 b = mem s b" using r that by (simp add: com_reports_def)
    then have "store_bytes (store_bytes (mem s3) ?N (kept nm)) ?V (kept vs) b =
        store_bytes (store_bytes (mem s) ?N (kept nm)) ?V (kept vs) b" by (intro store_bytes_at)
    then show ?thesis by (simp add: s')
  qed
  have "cstr (mem s') (Addr ?N) (nm @ vs)" if "length nm = 64" "length vs < 64" "?V = ?N + 64"
  proof -
    have eq: "store_bytes (store_bytes (mem s) ?N (kept nm)) ?V (kept vs) = store_bytes (mem s) ?N ((nm @ vs) @ [0])"
      using that store_bytes_text [of "mem s" ?N nm vs] by (simp add: kept_def)
    have "0 \<notin> set (nm @ vs)" using says by (auto simp: loader_says_def cstr_def)
    then have "cstr (store_bytes (mem s) ?N ((nm @ vs) @ [0])) (Addr ?N) (nm @ vs)"
      using that by (intro cstr_store_bytes) simp_all
    moreover have "span ?N (Suc (length (nm @ vs))) \<subseteq> span ?N (64 + 65)" using that by (intro span_mono) simp
    then have "span ?N (Suc (length (nm @ vs))) \<subseteq> boot_names img"
      unfolding span_append using that(3) span_mono [of 64 65 ?N] by (auto simp: boot_names_def)
    then have "mem s' b = store_bytes (mem s) ?N ((nm @ vs) @ [0]) b" if "b \<in> ptr_span (Addr ?N) (Suc (length (nm @ vs)))" for b
      using that img unfolding eq [symmetric] by (intro m) (auto simp: boot_image_def)
    then have "cstr (mem s') (Addr ?N) (nm @ vs) = cstr (store_bytes (mem s) ?N ((nm @ vs) @ [0])) (Addr ?N) (nm @ vs)"
      by (rule cstr_ptr_cong)
    ultimately show ?thesis by blast
  qed
  moreover have "TTY_WriteFunc s' = WriteCOM \<and> TTY_CursorX s' = 0 \<and> trace s' = trace s @ map (Out8 0xE9) (boot_text nm vs)"
    using com_reports_com [OF r] assms(1) r by (simp add: s' com_reports_def)
  moreover have "BOOT_LoaderID s' = BOOT_LoaderID_LimineCompatible" by (simp add: s' BOOT_LoaderID_LimineCompatible_def)
  ultimately show ?thesis using run m by blast
qed

definition limine0 :: limine where
  "limine0 = \<lparr>bootloaderInfo_response = 0x500000, fbRequest_response = 0x500400, mmap_response = 0x500500,
     module_response = 0x500600, kernel_address_response = 0x500700, hhdm_response = 0x500800,
     rsdpReq_response = 0x500900\<rparr>"

definition loader_memory :: memory where
  "loader_memory = (\<lambda>_. 0)(0x500009 := 0x01, 0x50000A := 0x50, 0x500011 := 0x02, 0x500012 := 0x50,
     0x500100 := 0x4C, 0x500101 := 0x4D, 0x500200 := 0x37,
     0x500410 := 0x40, 0x500411 := 0x04, 0x500412 := 0x50, 0x500440 := 0x80, 0x500441 := 0x04, 0x500442 := 0x50,
     0x500484 := 0x08, 0x500488 := 0x80, 0x500489 := 0x02, 0x500490 := 0x90, 0x500491 := 0x01,
     0x500508 := 0x02, 0x500510 := 0x40, 0x500511 := 0x05, 0x500512 := 0x50, 0x500540 := 0x60, 0x500541 := 0x05,
     0x500542 := 0x50, 0x500548 := 0x80, 0x500549 := 0x05, 0x50054A := 0x50, 0x500562 := 0x10, 0x500582 := 0x40)"

definition kernel0 :: kernel where
  "kernel0 = ahci.extend (ahci25\<lparr>mem := loader_memory, TTY_WriteFunc := WriteCOM\<rparr>)
     (kernel.fields 0 (fbCon ahci25) 0 0 0)"

lemma kernel0_fields: "mem kernel0 = loader_memory" "TTY_WriteFunc kernel0 = WriteCOM" "TTY_CursorX kernel0 = 0"
  "trace kernel0 = []"
  by (simp_all add: kernel0_def ahci25_def ahci0_def acpi.defs ahci.defs ramfs.defs ramfs0_def interrupts.defs
      interrupts0_def keyboard.defs keyboard0_def console.defs console0_def kernel.defs)

lemma boot_areas0: "boot_scratch image0 = span 0x114000 128 \<union> span 0x113000 256"
  "boot_names image0 = span 0x105000 65 \<union> span 0x105040 65"
  by (simp_all add: boot_scratch_def boot_names_def image0_def)

lemma boot_image0: "boot_image image0"
proof -
  have down: "span (0x114000 :: addr) 128 \<inter> span 0x113000 256 = {}" by (rule span_disjI') simp_all
  have up: "span (0x105000 :: addr) 65 \<inter> span 0x114000 128 = {}" "span (0x105000 :: addr) 65 \<inter> span 0x113000 256 = {}"
    "span (0x105040 :: addr) 65 \<inter> span 0x114000 128 = {}" "span (0x105040 :: addr) 65 \<inter> span 0x113000 256 = {}"
    by (rule span_disjI, simp_all)+
  show ?thesis
    unfolding boot_image_def boot_areas0 Int_Un_distrib Int_Un_distrib2 using up down by (simp add: image0_def)
qed

lemma loader_page0: "span (0x500000 :: addr) 4096 \<inter> (boot_scratch image0 \<union> boot_names image0) = {}"
proof -
  have "span (0x500000 :: addr) 4096 \<inter> span 0x114000 128 = {}" "span (0x500000 :: addr) 4096 \<inter> span 0x113000 256 = {}"
    "span (0x500000 :: addr) 4096 \<inter> span 0x105000 65 = {}" "span (0x500000 :: addr) 4096 \<inter> span 0x105040 65 = {}"
    by (rule span_disjI', simp_all)+
  then show ?thesis unfolding boot_areas0 by blast
qed

lemma loader_says0: "loader_says image0 0x500000 loader_memory (bytes ''LM'') (bytes ''7'')"
proof -
  have ptrs: "loader_name loader_memory 0x500000 = 0x500100" "loader_version loader_memory 0x500000 = 0x500200"
    by (simp_all add: loader_name_def loader_version_def load64_def mem_eval loader_memory_def)
  have strs: "cstr loader_memory (Addr 0x500100) (bytes ''LM'')" "cstr loader_memory (Addr 0x500200) (bytes ''7'')"
    by (simp_all add: cstr_Addr mem_eval loader_memory_def bytes_def)
  have "span (0x500000 :: addr) 24 \<subseteq> span 0x500000 4096" by (rule span_mono) simp
  moreover have "span (0x500100 :: addr) (Suc (length (bytes ''LM''))) \<subseteq> span 0x500000 4096"
    "span (0x500200 :: addr) (Suc (length (bytes ''7''))) \<subseteq> span 0x500000 4096"
    using span_sub [of "0x100" "Suc (length (bytes ''LM''))" 4096 "0x500000"]
      span_sub [of "0x200" "Suc (length (bytes ''7''))" 4096 "0x500000"]
    by (simp_all add: bytes_def)
  ultimately have "(span (0x500000 :: addr) 24 \<union> span 0x500100 (Suc (length (bytes ''LM''))) \<union>
      span 0x500200 (Suc (length (bytes ''7'')))) \<inter> (boot_scratch image0 \<union> boot_names image0) = {}"
    using loader_page0 by blast
  then show ?thesis using strs unfolding loader_says_def ptrs by (intro conjI) simp_all
qed

lemma found_text0: "length (found_text (bytes ''LM'') (bytes ''7'')) < 128"
  "length (boot_line (found_text (bytes ''LM'') (bytes ''7''))) < 256"
  by (simp_all add: found_text_def log_text_def log_head_def log_tail_def text_defs ansiColors_def LOGLEVEL_defs)

theorem BOOT_CheckLoader_detects_witness:
  "\<exists>s'. BOOT_CheckLoader image0 limine0 kernel0 = Some s' \<and> BOOT_LoaderID s' = 1 \<and>
     sent 0xE9 (trace s') = boot_text (bytes ''LM'') (bytes ''7'')"
  using BOOT_CheckLoader_detects [of kernel0 image0 limine0 "bytes ''LM''" "bytes ''7''"]
    kernel0_fields boot_image0 loader_says0 found_text0
  by (auto simp: limine0_def BOOT_LoaderID_LimineCompatible_def)

end
