(* ===== verification/Startup.thy ===== *)
theory Startup
  imports Boot
begin

text \<open>
  The start of the kernel as a whole: which region of the memory map becomes the heap, and how the messages
  of \<open>BOOT_CheckLoader\<close> and \<open>FBCON_Init\<close> move from the debug port to the screen.
\<close>

section \<open>The heap\<close>

definition usable_at :: "limine \<Rightarrow> memory \<Rightarrow> nat \<Rightarrow> addr list" where
  "usable_at lm m i = (let e = memmap_entry lm m (of_nat i) in
     if load64 m (e + 16) = LIMINE_MEMMAP_USABLE then [load64 m e] else [])"

definition usable_bases :: "limine \<Rightarrow> memory \<Rightarrow> addr list" where
  "usable_bases lm m = concat (map (usable_at lm m) [0..<unat (memmap_count lm m)])"

definition heap_at :: "addr list \<Rightarrow> 'a heap_scheme \<Rightarrow> 'a heap_scheme" where
  "heap_at as s = (if as = [] then s else MEM_Init (last as) s)"

lemma heap_at_append: "heap_at ys (heap_at xs s) = heap_at (xs @ ys) s"
  by (cases ys) (simp_all add: heap_at_def MEM_Init_def)

lemma heap_at_mem [simp]: "mem (heap_at as s) = mem s"
  by (simp add: heap_at_def MEM_Init_def)

lemma init_regions_step:
  "of_nat i < memmap_count lm (mem s) \<Longrightarrow>
   init_regions lm (of_nat i) s = init_regions lm (of_nat (Suc i)) (heap_at (usable_at lm (mem s) i) s)"
  by (subst init_regions.simps) (simp add: heap_at_def usable_at_def Let_def add.commute)

lemma init_regions_rest:
  assumes "i \<le> unat (memmap_count lm (mem s))"
  shows "init_regions lm (of_nat i) s =
    heap_at (concat (map (usable_at lm (mem s)) [i..<unat (memmap_count lm (mem s))])) s"
  using assms
proof (induction "unat (memmap_count lm (mem s)) - i" arbitrary: i s)
  case 0
  then show ?case by (subst init_regions.simps) (simp add: word_less_nat_alt heap_at_def)
next
  case (Suc n)
  let ?k = "unat (memmap_count lm (mem s))" and ?here = "usable_at lm (mem s) i"
  have i: "i < ?k" using Suc.hyps(2) by simp
  moreover have "?k < 2 ^ 64" using unsigned_less [of "memmap_count lm (mem s)"] by simp
  ultimately have "of_nat i < memmap_count lm (mem s)" by (simp add: word_less_nat_alt unat_of_nat_lt)
  then have "init_regions lm (of_nat i) s = init_regions lm (of_nat (Suc i)) (heap_at ?here s)"
    by (rule init_regions_step)
  also have "\<dots> = heap_at (concat (map (usable_at lm (mem s)) [Suc i..<?k])) (heap_at ?here s)"
    using Suc.hyps(1) [of "heap_at ?here s" "Suc i", unfolded heap_at_mem] Suc.hyps(2) i by linarith
  finally show ?case using i by (simp add: heap_at_append upt_conv_Cons)
qed

lemma init_regions_last: "init_regions lm 0 s = heap_at (usable_bases lm (mem s)) s"
  using init_regions_rest [of 0 lm s] by (simp add: usable_bases_def)

section \<open>The console\<close>

definition lm_framebuffer :: "limine \<Rightarrow> memory \<Rightarrow> framebuffer_t" where
  "lm_framebuffer lm m = (let res = load64 m (load64 m (fbRequest_response lm + 16)) in
     \<lparr>fb_width = ucast (load64 m (res + 8)), fb_height = ucast (load64 m (res + 16)),
      fb_mode = FB_MODE_RGBA, fb_ptr = load64 m res\<rparr>)"

definition lm_framebuffer_reads :: "limine \<Rightarrow> memory \<Rightarrow> addr set" where
  "lm_framebuffer_reads lm m = (let fbs = load64 m (fbRequest_response lm + 16) in
     span (fbRequest_response lm + 16) 8 \<union> span fbs 8 \<union> span (load64 m fbs) 24)"

lemma LM_GetFramebuffer_reads:
  "LM_GetFramebuffer lm s = (lm_framebuffer lm (mem s), s\<lparr>fbInfoLocal := lm_framebuffer lm (mem s)\<rparr>)"
  by (simp add: LM_GetFramebuffer_def lm_framebuffer_def Let_def)

lemma lm_framebuffer_cong:
  assumes "\<And>b. b \<in> lm_framebuffer_reads lm m \<Longrightarrow> m' b = m b"
  shows "lm_framebuffer lm m' = lm_framebuffer lm m"
proof -
  let ?fbs = "load64 m (fbRequest_response lm + 16)"
  let ?res = "load64 m ?fbs"
  have 1: "load64 m' (fbRequest_response lm + 16) = ?fbs"
    using assms by (intro c64.ld_cong) (simp add: lm_framebuffer_reads_def Let_def)
  have 2: "load64 m' ?fbs = ?res"
    using assms by (intro c64.ld_cong) (simp add: lm_framebuffer_reads_def Let_def)
  have "span (?res + 0) 8 \<subseteq> span ?res 24" "span (?res + 8) 8 \<subseteq> span ?res 24" "span (?res + 16) 8 \<subseteq> span ?res 24"
    using span_sub [of 0 8 24 ?res] span_sub [of 8 8 24 ?res] span_sub [of 16 8 24 ?res] by simp_all
  then have "b \<in> lm_framebuffer_reads lm m"
    if "b \<in> span ?res 8 \<union> span (?res + 8) 8 \<union> span (?res + 16) 8" for b
    using that by (auto simp: lm_framebuffer_reads_def Let_def)
  then have "load64 m' ?res = load64 m ?res" "load64 m' (?res + 8) = load64 m (?res + 8)"
    "load64 m' (?res + 16) = load64 m (?res + 16)"
    using assms by (auto intro!: c64.ld_cong)
  then show ?thesis by (simp add: lm_framebuffer_def Let_def 1 2)
qed

text \<open>The two messages of \<open>FBCON_Init\<close>, and the terminal when the second one starts.\<close>

definition fbcon_first :: "u8 list" where
  "fbcon_first = log_text (bytes ''FBCON'') LOGLEVEL_DEBUG (bytes ''Setting TTY Write func'')"

definition fbcon_second :: "u8 list" where
  "fbcon_second = log_text (bytes ''FBCON'') LOGLEVEL_DEBUG (bytes ''Done setting TTY Write func'')"

definition first_screen :: "u32 \<Rightarrow> terminal" where
  "first_screen bg = \<lparr>t_x = 0, t_y = 1, t_fg = COLOR_LGRAY, t_bg = bg, t_bold = False, t_esc = None\<rparr>"

lemma fbcon_pad: "replicate 3 (0x20 :: u8) = [0x20, 0x20, 0x20]"
  by (simp add: numeral_3_eq_3)

lemma fbcon_lines: "length fbcon_first < 256" "length fbcon_second < 256" "com_cursor fbcon_first (0, 0) = (0, 1)"
  by (simp_all add: fbcon_first_def fbcon_second_def log_text_def log_head_def log_tail_def text_defs
      ansiColors_def LOGLEVEL_defs fbcon_pad)

definition quiet :: "'a console_scheme \<Rightarrow> bool" where
  "quiet s \<longleftrightarrow> \<not> esc s \<and> \<not> escapeCompleted s \<and> escapeSequenceLength s = 0"

lemma fbcon_lits: "str_arg m {} (lit ''FBCON'') (bytes ''FBCON'')"
  "str_arg m {} (lit ''Setting TTY Write func'') (bytes ''Setting TTY Write func'')"
  "str_arg m {} (lit ''Done setting TTY Write func'') (bytes ''Done setting TTY Write func'')"
  by (simp_all add: str_arg_def lit_def bytes_def)

lemma fbcon_starts:
  assumes com: "TTY_WriteFunc s = WriteCOM" and fb: "fb_ptr fb \<noteq> 0" and lay: "log_layout img (fbcon_reset fb s)"
    and quiet: "quiet s" and fits: "term_fits (fbcon_reset fb s) fbcon_second (first_screen (TTY_BgColor s))"
  shows "\<exists>s'. fbcon_start img fb (fbcon_reset fb s) = Some s' \<and> fbCon s' = fb \<and>
    term_rel img s' (term_puts (unat (fb_width fb div 8) mod 2 ^ 16) fbcon_second (first_screen (TTY_BgColor s))) \<and>
    trace s' = trace s @ map (Out8 0xE9) (fbcon_first @ fbcon_second) \<and>
    (\<forall>b. b \<notin> console_area img fb \<union> span (log_str_at img) 256 \<longrightarrow> mem s' b = mem s b)"
proof -
  let ?r = "fbcon_reset fb s" and ?d = "log_str_at img"
  let ?s1 = "com_out fbcon_first (?r\<lparr>mem := store_bytes (mem ?r) ?d (fbcon_first @ [0])\<rparr>)"
  let ?s2 = "TTY_SetWriteFunc WriteFBCON ?s1"
  let ?t = "first_screen (TTY_BgColor s)"
  have d: "?d \<noteq> 0" using lay by (simp add: log_layout_def)
  have level: "unat LOGLEVEL_DEBUG < 6" by (simp add: LOGLEVEL_defs)
  have 1: "fbcon_log img (lit ''Setting TTY Write func'') LOGLEVEL_DEBUG ?r = Some ?s1"
    using com d level fbcon_lines(1)
    by (subst com_log_state [OF _ _ fbcon_lits(1,2)]) (simp_all add: fbcon_reset_def fbcon_first_def)
  have same: "fbCon ?s2 = fb" "TTY_Width ?s2 = TTY_Width ?r" "TTY_Height ?s2 = TTY_Height ?r"
    "trace ?s2 = trace s @ map (Out8 0xE9) fbcon_first" "fbCon ?r = fb" "mem ?r = mem s" "trace ?r = trace s"
    by (simp_all add: com_out_def Let_def fbcon_reset_def TTY_SetWriteFunc_def)
  have lay2: "log_layout img ?s2"
    using lay by (simp only: log_layout_def console_layout_def same(1-3,5) simp_thms)
  have rel: "term_rel img ?s2 ?t"
    using quiet by (simp add: term_rel_def first_screen_def TTY_SetWriteFunc_def com_out_def Let_def fbcon_reset_def
        fbcon_lines(3) quiet_def pending_def esc_text_def)
  have fits2: "term_fits ?s2 (log_prefix ?t @ fbcon_second) ?t"
    using fits term_fits_size [OF same(2,3)] by (simp add: log_prefix_def first_screen_def)
  obtain s' where s': "fbcon_log img (lit ''Done setting TTY Write func'') LOGLEVEL_DEBUG ?s2 = Some s'"
      "term_rel img s' (term_puts (unat (TTY_Width ?s2)) (log_prefix ?t @ fbcon_second) ?t)"
      "trace s' = trace ?s2 @ map (Out8 0xE9) fbcon_second" "log_frame img ?s2 s'"
    using log_line [OF lay2 rel fbcon_lits(1,3) _ level] fits2 fbcon_lines(2) unfolding fbcon_second_def by auto
  have "mem ?s2 b = mem s b" if "b \<notin> span ?d 256" for b
    using log_buffer_frame [OF fbcon_lines(1) [unfolded fbcon_first_def] that]
    by (simp add: TTY_SetWriteFunc_def same fbcon_first_def del: store_bytes.simps)
  then have "\<forall>b. b \<notin> console_area img fb \<union> span ?d 256 \<longrightarrow> mem s' b = mem s b"
    using s'(4) by (simp add: log_frame_def same(1))
  moreover have "fbCon s' = fb" using s'(4) by (simp add: log_frame_def same_screen_def same(1))
  moreover have "unat (TTY_Width ?s2) = unat (fb_width fb div 8) mod 2 ^ 16"
    unfolding same(2) by (simp add: fbcon_reset_def unsigned_ucast_eq take_bit_eq_mod)
  ultimately show ?thesis using fb s' 1 same(4) by (simp add: fbcon_start_def log_prefix_def first_screen_def Let_def)
qed

lemma fbcon_reset_cong: "log_layout img (fbcon_reset fb s') = log_layout img (fbcon_reset fb s)"
  "term_fits (fbcon_reset fb s') str t = term_fits (fbcon_reset fb s) str t"
  by (simp add: log_layout_def console_layout_def fbcon_reset_def)
    (rule term_fits_size, simp_all add: fbcon_reset_def)

lemma com_reports_quiet:
  assumes "com_reports A text s s'"
  shows "quiet s' = quiet s" and "TTY_BgColor s' = TTY_BgColor s"
proof -
  have "com_rest s' = com_rest s" using assms by (simp add: com_reports_def)
  then have "quiet (com_rest s') = quiet (com_rest s)" "TTY_BgColor (com_rest s') = TTY_BgColor (com_rest s)" by simp_all
  then show "quiet s' = quiet s" "TTY_BgColor s' = TTY_BgColor s" by (simp_all add: com_rest_def quiet_def)
qed

text \<open>The state behind a successful \<open>BOOT_CheckLoader\<close>, as the console needs it.\<close>

lemma BOOT_CheckLoader_ready:
  assumes com: "TTY_WriteFunc s = WriteCOM" "TTY_CursorX s = 0" and img: "boot_image img"
    and r: "bootloaderInfo_response lm \<noteq> 0" and says: "loader_says img (bootloaderInfo_response lm) (mem s) nm vs"
    and len: "length (found_text nm vs) < 128" "length (boot_line (found_text nm vs)) < 256"
  obtains s' where "BOOT_CheckLoader img lm s = Some s'" "BOOT_LoaderID s' = BOOT_LoaderID_LimineCompatible"
    "TTY_WriteFunc s' = WriteCOM" "quiet s' = quiet s" "TTY_BgColor s' = TTY_BgColor s"
    "trace s' = trace s @ map (Out8 0xE9) (boot_text nm vs)"
    "\<And>b. b \<notin> boot_scratch img \<union> boot_names img \<Longrightarrow> mem s' b = mem s b"
proof -
  let ?N = "BOOT_LoaderName_at img" and ?V = "BOOT_LoaderVersion_at img"
  obtain s' s3 where run: "BOOT_CheckLoader img lm s = Some s'" and r3: "com_reports (boot_scratch img) (boot_text nm vs) s s3"
    and s': "s' = s3\<lparr>mem := store_bytes (store_bytes (mem s3) ?N (kept nm)) ?V (kept vs), BOOT_LoaderID := 1\<rparr>"
    by (rule BOOT_CheckLoader_found [OF com img refl r says len]) blast
  have "mem s' b = mem s b" if "b \<notin> boot_scratch img \<union> boot_names img" for b
  proof -
    have "span ?N (length (kept nm)) \<subseteq> span ?N 65" "span ?V (length (kept vs)) \<subseteq> span ?V 65"
      by (intro span_mono length_kept)+
    then have "b \<notin> span ?N (length (kept nm))" "b \<notin> span ?V (length (kept vs))"
      using that by (auto simp: boot_names_def)
    then have "mem s' b = mem s3 b" by (simp add: s' store_bytes_frame)
    also have "\<dots> = mem s b" using r3 that by (simp add: com_reports_def)
    finally show ?thesis .
  qed
  moreover have "quiet s' = quiet s3" "TTY_BgColor s' = TTY_BgColor s3" "TTY_WriteFunc s' = TTY_WriteFunc s3" "trace s' = trace s3"
    by (simp_all add: s' quiet_def)
  moreover have "BOOT_LoaderID s' = BOOT_LoaderID_LimineCompatible" by (simp add: s' BOOT_LoaderID_LimineCompatible_def)
  ultimately show thesis
    using that [OF run] com_reports_quiet [OF r3] com_reports_com [OF r3] r3 com by (simp add: com_reports_def)
qed

text \<open>Without an answer of the boot loader.\<close>

definition unknown_loader_text :: "u8 list" where
  "unknown_loader_text = boot_line (bytes ''=== Autodetecting Bootloader ==='') @ boot_line (bytes ''Limine... NO'') @
     log_text (bytes ''BOOTDTCT'') LOGLEVEL_WARN (bytes ''No known bootloader detected!  Disabling bootloader-specific features.'')"

definition no_console_text :: "u8 list" where
  "no_console_text = log_text (bytes ''FBCON'') LOGLEVEL_FATAL (bytes (''Unknown bootloader.  Unable to set framebuffer!  Keeping print '' @
     ''method to default, you will probably not have video output!''))"

lemma com_log_lit:
  assumes "TTY_WriteFunc s = WriteCOM" "TTY_CursorX s = 0" and "log_str_at img \<noteq> 0" and "unat level < 6"
    and "0 \<notin> set (bytes mo)" "0 \<notin> set (bytes me)" and "length (log_text (bytes mo) level (bytes me)) < 256"
  shows "\<exists>s'. log img (lit mo) (lit me) level s = Some s' \<and>
    com_reports (span (log_str_at img) 256) (log_text (bytes mo) level (bytes me)) s s'"
proof (rule com_log [OF assms(1,2) _ _ _ assms(3,4,7)])
  have "length (bytes mo) < 2 ^ 31" "length (bytes me) < 2 ^ 31"
    using assms(7) by (simp_all add: log_text_def log_head_def text_defs)
  then show "str_arg (mem s) {} (lit mo) (bytes mo)" "str_arg (mem s) {} (lit me) (bytes me)"
    using assms(5,6) by (simp_all add: str_arg_def lit_def bytes_def)
qed simp

lemma unknown_loader_short: "length (boot_line (bytes ''Limine... NO'')) < 256"
  "length (log_text (bytes ''BOOTDTCT'') LOGLEVEL_WARN
     (bytes ''No known bootloader detected!  Disabling bootloader-specific features.'')) < 256"
  "length no_console_text < 256"
  by (simp_all add: no_console_text_def log_text_def log_head_def log_tail_def text_defs ansiColors_def LOGLEVEL_defs)

lemma BOOT_CheckLoader_unknown:
  assumes com: "TTY_WriteFunc s = WriteCOM" "TTY_CursorX s = 0" and img: "boot_image img" and r: "bootloaderInfo_response lm = 0"
  shows "\<exists>s'. BOOT_CheckLoader img lm s = Some s' \<and> com_reports (boot_scratch img) unknown_loader_text s s'"
proof -
  let ?d = "BOOT_str_at img"
  have d: "?d \<noteq> 0" "log_str_at img \<noteq> 0" using img by (simp_all add: boot_image_def)
  obtain s1 where s1: "boot_log img (lit ''=== Autodetecting Bootloader ==='') LOGLEVEL_INFO s = Some s1"
      "com_reports (span (log_str_at img) 256) (boot_line (bytes ''=== Autodetecting Bootloader ==='')) s s1"
    using com_log_lit [OF com d(2), of LOGLEVEL_INFO "''BOOTDTCT''" "''=== Autodetecting Bootloader ===''"]
      boot_lines_short(1) by (auto simp: bytes_def LOGLEVEL_defs)
  have com1: "TTY_WriteFunc s1 = WriteCOM" "TTY_CursorX s1 = 0" using com_reports_com [OF s1(2)] com by simp_all
  have cat: "strcpy ?d (lit ''Limine... '') (mem s1) = Some (store_bytes (mem s1) ?d (bytes ''Limine... '' @ [0]))"
    "strcat ?d (lit ''NO'') (store_bytes (mem s1) ?d (bytes ''Limine... '' @ [0])) =
       Some (store_bytes (mem s1) ?d (bytes ''Limine... NO'' @ [0]))"
    using strcpy_lit [OF d(1), of "bytes ''Limine... ''" "mem s1"]
      strcat_text [of "bytes ''Limine... ''" "bytes ''NO''" ?d "mem s1"]
    by (simp_all add: lit_def bytes_def del: store_bytes.simps)
  obtain s2 where s2: "boot_log img (Addr ?d) LOGLEVEL_INFO
      (s1\<lparr>mem := store_bytes (mem s1) ?d (bytes ''Limine... NO'' @ [0])\<rparr>) = Some s2"
      "com_reports (boot_scratch img) (boot_line (bytes ''Limine... NO'')) s1 s2"
    using boot_log_buffer [OF com1 img, of "bytes ''Limine... NO''"] unknown_loader_short(1) by (auto simp: bytes_def)
  have com2: "TTY_WriteFunc s2 = WriteCOM" "TTY_CursorX s2 = 0" using com_reports_com [OF s2(2)] com1 by simp_all
  obtain s3 where s3: "boot_log img (lit ''No known bootloader detected!  Disabling bootloader-specific features.'') LOGLEVEL_WARN s2 = Some s3"
      "com_reports (span (log_str_at img) 256) (log_text (bytes ''BOOTDTCT'') LOGLEVEL_WARN
         (bytes ''No known bootloader detected!  Disabling bootloader-specific features.'')) s2 s3"
    using com_log_lit [OF com2 d(2), of LOGLEVEL_WARN "''BOOTDTCT''"
        "''No known bootloader detected!  Disabling bootloader-specific features.''"] unknown_loader_short(2)
    by (auto simp: bytes_def LOGLEVEL_defs)
  have "com_reports (boot_scratch img) unknown_loader_text s s3"
    using com_reports_trans [OF com_reports_trans [OF s1(2) s2(2)] s3(2)]
    by (simp add: unknown_loader_text_def boot_scratch_def Un_ac)
  moreover have "BOOT_CheckLoader img lm s = Some s3"
    unfolding BOOT_CheckLoader_def LM_Check_response by (simp add: r s1(1) cat s2(1) s3(1) Let_def)
  ultimately show ?thesis by blast
qed

section \<open>Properties\<close>

text \<open>
  C24: The heap starts at the base of the last usable region of the memory map: the first \<open>malloc\<close> after the
  loop of \<open>init\<close> hands out the bytes behind the header there.  The earlier usable regions are never used,
  and no length is looked at: the result is the same for every size asked for.
\<close>

theorem memory_map_heap:
  assumes "usable_bases lm (mem s) \<noteq> []"
    and "\<not> kernieHeap_is_set_up s" and "\<not> have_allocated s"
  shows "\<exists>s'. malloc n (init_regions lm 0 s) = Some (last (usable_bases lm (mem s)) + 16, s') \<and>
    kernieHeap_space s' = last (usable_bases lm (mem s)) \<and>
    last_valid_address s' = kernieHeap_space s' + (n + 16) \<and> mcb_size (mem s') (kernieHeap_space s') = n + 16"
  using assms
  by (simp add: init_regions_last heap_at_def MEM_Init_def malloc_def heap_setup_def malloc_extend_def Let_def
      set_mcb_size_def mcb_size_def)

lemma limine0_memmap: "usable_bases limine0 loader_memory = [0x100000, 0x400000]"
proof -
  have n: "unat (memmap_count limine0 loader_memory) = Suc (Suc 0)"
    by (simp add: memmap_count_def limine0_def load64_def mem_eval loader_memory_def)
  have e: "memmap_entry limine0 loader_memory 0 = 0x500560" "memmap_entry limine0 loader_memory 1 = 0x500580"
    by (simp_all add: memmap_entry_def limine0_def load64_def mem_eval loader_memory_def)
  have "load64 loader_memory 0x500560 = 0x100000" "load64 loader_memory 0x500570 = 0"
    "load64 loader_memory 0x500580 = 0x400000" "load64 loader_memory 0x500590 = 0"
    by (simp_all add: load64_def mem_eval loader_memory_def)
  then have "usable_at limine0 loader_memory 0 = [0x100000]" "usable_at limine0 loader_memory (Suc 0) = [0x400000]"
    by (simp_all add: usable_at_def e Let_def LIMINE_MEMMAP_USABLE_def)
  then show ?thesis by (simp add: usable_bases_def n)
qed

lemma kernel0_heap: "\<not> kernieHeap_is_set_up kernel0" "\<not> have_allocated kernel0"
  by (simp_all add: kernel0_def ahci25_def ahci0_def acpi.defs ahci.defs ramfs.defs ramfs0_def interrupts.defs
      interrupts0_def keyboard.defs keyboard0_def console.defs console0_def kernel.defs)

theorem memory_map_heap_witness:
  "\<exists>s'. malloc 0x10000000 (init_regions limine0 0 kernel0) = Some (0x400010, s') \<and> kernieHeap_space s' = 0x400000"
  using memory_map_heap [of limine0 kernel0 "0x10000000"] by (auto simp: kernel0_fields kernel0_heap limine0_memmap)

text \<open>
  C7: The console comes up: \<open>init\<close> first sends the messages of \<open>BOOT_CheckLoader\<close> to the debug port;
  \<open>FBCON_Init\<close> then takes the frame buffer from the boot loader's answer, sends one more message there and
  switches the output to the screen.  From then on the console refines a terminal of \<open>width / 8\<close> columns; the
  last message of \<open>FBCON_Init\<close> is its first text, and it stands in the second row, since the cursor has
  counted the line that went to the port.
\<close>

theorem console_comes_up:
  assumes "TTY_CursorX s = 0" and img: "boot_image img"
    and "bootloaderInfo_response lm \<noteq> 0" and "loader_says img (bootloaderInfo_response lm) (mem s) nm vs"
    and "length (found_text nm vs) < 128" and "length (boot_line (found_text nm vs)) < 256"
    and fb: "fb = lm_framebuffer lm (mem s)" "fb_ptr fb \<noteq> 0"
    and reads: "lm_framebuffer_reads lm (mem s) \<inter> (boot_scratch img \<union> boot_names img) = {}"
    and lay: "log_layout img (fbcon_reset fb s)" and quiet: "quiet s"
    and fits: "term_fits (fbcon_reset fb s) fbcon_second (first_screen (TTY_BgColor s))"
  shows "\<exists>s'. Option.bind (BOOT_CheckLoader img lm (TTY_SetWriteFunc WriteCOM s)) (FBCON_Init img lm) = Some (fb, s') \<and>
    term_rel img s' (term_puts (unat (fb_width fb div 8) mod 2 ^ 16) fbcon_second (first_screen (TTY_BgColor s))) \<and>
    fbCon s' = fb \<and> trace s' = trace s @ map (Out8 0xE9) (boot_text nm vs @ fbcon_first @ fbcon_second)"
proof -
  let ?s = "TTY_SetWriteFunc WriteCOM s"
  have "TTY_WriteFunc ?s = WriteCOM" "TTY_CursorX ?s = 0" "mem ?s = mem s"
    "quiet ?s = quiet s" "TTY_BgColor ?s = TTY_BgColor s" "trace ?s = trace s"
    using assms(1) by (simp_all add: TTY_SetWriteFunc_def quiet_def)
  then obtain s1 where run: "BOOT_CheckLoader img lm ?s = Some s1" "BOOT_LoaderID s1 = BOOT_LoaderID_LimineCompatible"
    and s1: "TTY_WriteFunc s1 = WriteCOM" "quiet s1" "TTY_BgColor s1 = TTY_BgColor s"
      "trace s1 = trace s @ map (Out8 0xE9) (boot_text nm vs)"
    and m1: "\<And>b. b \<notin> boot_scratch img \<union> boot_names img \<Longrightarrow> mem s1 b = mem s b"
    using BOOT_CheckLoader_ready [of ?s img lm nm vs] assms by metis
  have same: "lm_framebuffer lm (mem s1) = fb"
    unfolding fb(1) using reads m1 by (intro lm_framebuffer_cong) auto
  have ready: "log_layout img (fbcon_reset fb (s1\<lparr>fbInfoLocal := fb\<rparr>))"
    "term_fits (fbcon_reset fb (s1\<lparr>fbInfoLocal := fb\<rparr>)) fbcon_second (first_screen (TTY_BgColor s))"
    using lay fits fbcon_reset_cong by blast+
  obtain s' where "fbcon_start img fb (fbcon_reset fb (s1\<lparr>fbInfoLocal := fb\<rparr>)) = Some s'" "fbCon s' = fb"
      "term_rel img s' (term_puts (unat (fb_width fb div 8) mod 2 ^ 16) fbcon_second (first_screen (TTY_BgColor s)))"
      "trace s' = trace s1 @ map (Out8 0xE9) (fbcon_first @ fbcon_second)"
    using fbcon_starts [of "s1\<lparr>fbInfoLocal := fb\<rparr>" fb img] s1 fb(2) ready by (auto simp: quiet_def)
  then show ?thesis using run s1(4) by (simp add: FBCON_Init_def LM_GetFramebuffer_reads same)
qed

lemma kernel0_framebuffer:
  "lm_framebuffer limine0 loader_memory = \<lparr>fb_width = 640, fb_height = 400, fb_mode = FB_MODE_RGBA, fb_ptr = 0x800000000\<rparr>"
  "lm_framebuffer_reads limine0 loader_memory = span 0x500410 8 \<union> span 0x500440 8 \<union> span 0x500480 24"
proof -
  have p: "load64 loader_memory 0x500410 = 0x500440" "load64 loader_memory 0x500440 = 0x500480"
    by (simp_all add: load64_def mem_eval loader_memory_def)
  have "load64 loader_memory 0x500480 = 0x800000000" "load64 loader_memory 0x500488 = 640" "load64 loader_memory 0x500490 = 400"
    by (simp_all add: load64_def mem_eval loader_memory_def)
  then show "lm_framebuffer limine0 loader_memory = \<lparr>fb_width = 640, fb_height = 400, fb_mode = FB_MODE_RGBA, fb_ptr = 0x800000000\<rparr>"
    by (simp add: lm_framebuffer_def limine0_def p)
  show "lm_framebuffer_reads limine0 loader_memory = span 0x500410 8 \<union> span 0x500440 8 \<union> span 0x500480 24"
    by (simp add: lm_framebuffer_reads_def limine0_def p)
qed

lemma kernel0_quiet: "quiet kernel0" "TTY_BgColor kernel0 = COLOR_BLACK"
  by (simp_all add: quiet_def kernel0_def ahci25_def ahci0_def acpi.defs ahci.defs ramfs.defs ramfs0_def interrupts.defs
      interrupts0_def keyboard.defs keyboard0_def console.defs console0_def kernel.defs)

theorem console_comes_up_witness:
  "\<exists>s'. Option.bind (BOOT_CheckLoader image0 limine0 (TTY_SetWriteFunc WriteCOM kernel0)) (FBCON_Init image0 limine0) =
       Some (fbCon console25, s') \<and>
     sent 0xE9 (trace s') = boot_text (bytes ''LM'') (bytes ''7'') @ fbcon_first @ fbcon_second"
proof -
  let ?fb = "fbCon console25"
  have fb: "lm_framebuffer limine0 loader_memory = ?fb" by (simp add: kernel0_framebuffer console25_def)
  have size: "TTY_Width (fbcon_reset ?fb kernel0) = TTY_Width console25" "TTY_Height (fbcon_reset ?fb kernel0) = TTY_Height console25"
    "fbCon (fbcon_reset ?fb kernel0) = ?fb"
    by (simp_all add: fbcon_reset_def console25_def)
  have lay: "log_layout image0 (fbcon_reset ?fb kernel0)"
    using console25_layout by (simp only: log_layout_def console_layout_def size simp_thms)
  have fits: "term_fits (fbcon_reset ?fb kernel0) fbcon_second (first_screen COLOR_BLACK)"
    unfolding term_fits_size [OF size(1,2)]
    by (simp add: fbcon_second_def fbcon_pad log_text_def log_head_def log_tail_def text_defs ansiColors_def LOGLEVEL_defs
        term_eval console25_size first_screen_def)
  have "span (0x500410 :: addr) 8 \<subseteq> span 0x500000 4096" "span (0x500440 :: addr) 8 \<subseteq> span 0x500000 4096"
    "span (0x500480 :: addr) 24 \<subseteq> span 0x500000 4096"
    using span_sub [of "0x410" 8 4096 "0x500000"] span_sub [of "0x440" 8 4096 "0x500000"]
      span_sub [of "0x480" 24 4096 "0x500000"] by simp_all
  then have reads: "lm_framebuffer_reads limine0 loader_memory \<inter> (boot_scratch image0 \<union> boot_names image0) = {}"
    unfolding kernel0_framebuffer using loader_page0 by blast
  have lm: "bootloaderInfo_response limine0 = 0x500000" by (simp add: limine0_def)
  have "fb_ptr ?fb \<noteq> 0" by (simp add: console25_def)
  then show ?thesis
    using console_comes_up [of kernel0 image0 limine0 "bytes ''LM''" "bytes ''7''" ?fb] kernel0_fields boot_image0
      loader_says0 found_text0 fb reads lay kernel0_quiet fits lm by auto
qed

text \<open>
  C25: Without an answer of the boot loader there is no console: \<open>BOOT_CheckLoader\<close> warns on the debug port
  and leaves \<open>BOOT_LoaderID\<close>, \<open>FBCON_Init\<close> reports a fatal error there and returns an empty frame buffer;
  the output stays on the port, the screen has no rows and columns, and no memory but the buffers changes.
\<close>

theorem unknown_loader_keeps_port:
  assumes "TTY_CursorX s = 0" and img: "boot_image img" and r: "bootloaderInfo_response lm = 0"
    and id: "BOOT_LoaderID s \<noteq> BOOT_LoaderID_LimineCompatible"
  shows "\<exists>s' fb. Option.bind (BOOT_CheckLoader img lm (TTY_SetWriteFunc WriteCOM s)) (FBCON_Init img lm) = Some (fb, s') \<and>
    fb_ptr fb = 0 \<and> fbCon s' = fb \<and> TTY_WriteFunc s' = WriteCOM \<and> TTY_Width s' = 0 \<and> TTY_Height s' = 0 \<and>
    BOOT_LoaderID s' = BOOT_LoaderID s \<and> trace s' = trace s @ map (Out8 0xE9) (unknown_loader_text @ no_console_text) \<and>
    (\<forall>b. b \<notin> boot_scratch img \<longrightarrow> mem s' b = mem s b)"
proof -
  let ?s = "TTY_SetWriteFunc WriteCOM s" and ?fb = "\<lparr>fb_width = 0, fb_height = 0, fb_mode = FB_MODE_ARGB, fb_ptr = 0\<rparr>"
  have s: "TTY_WriteFunc ?s = WriteCOM" "TTY_CursorX ?s = 0" "mem ?s = mem s" "trace ?s = trace s" "BOOT_LoaderID ?s = BOOT_LoaderID s"
    using assms(1) by (simp_all add: TTY_SetWriteFunc_def)
  obtain s1 where s1: "BOOT_CheckLoader img lm ?s = Some s1" "com_reports (boot_scratch img) unknown_loader_text ?s s1"
    using BOOT_CheckLoader_unknown [OF s(1,2) img r] by blast
  have com1: "TTY_WriteFunc s1 = WriteCOM" "TTY_CursorX s1 = 0" using com_reports_com [OF s1(2)] s by simp_all
  have d: "log_str_at img \<noteq> 0" using img by (simp add: boot_image_def)
  obtain s2 where s2: "fbcon_log img (lit (''Unknown bootloader.  Unable to set framebuffer!  Keeping print '' @
      ''method to default, you will probably not have video output!'')) LOGLEVEL_FATAL s1 = Some s2"
      "com_reports (span (log_str_at img) 256) no_console_text s1 s2"
    using com_log_lit [OF com1 d, of LOGLEVEL_FATAL "''FBCON''" "''Unknown bootloader.  Unable to set framebuffer!  Keeping print '' @
        ''method to default, you will probably not have video output!''"] unknown_loader_short(3)
    unfolding no_console_text_def by (auto simp: bytes_def LOGLEVEL_defs)
  have r2: "com_reports (boot_scratch img) (unknown_loader_text @ no_console_text) ?s s2"
    using com_reports_trans [OF s1(2) s2(2)] by (simp add: boot_scratch_def Un_ac)
  have "BOOT_LoaderID (com_rest s1) = BOOT_LoaderID (com_rest ?s)" "BOOT_LoaderID (com_rest s2) = BOOT_LoaderID (com_rest ?s)"
    using s1(2) r2 by (simp_all add: com_reports_def)
  then have ids: "BOOT_LoaderID s1 = BOOT_LoaderID s" "BOOT_LoaderID s2 = BOOT_LoaderID s" using s by (simp_all add: com_rest_def)
  have "FBCON_Init img lm s1 = Some (?fb, fbcon_reset ?fb s2)"
    using id ids s2(1) by (simp add: FBCON_Init_def fbcon_start_def)
  then show ?thesis
    using s1(1) ids com_reports_com [OF r2] r2 s
    by (intro exI [of _ "fbcon_reset ?fb s2"] exI [of _ ?fb]) (simp add: fbcon_reset_def com_reports_def)
qed

theorem unknown_loader_keeps_port_witness:
  "\<exists>s' fb. Option.bind (BOOT_CheckLoader image0 (limine0\<lparr>bootloaderInfo_response := 0\<rparr>) (TTY_SetWriteFunc WriteCOM kernel0))
       (FBCON_Init image0 (limine0\<lparr>bootloaderInfo_response := 0\<rparr>)) = Some (fb, s') \<and>
     fb_ptr fb = 0 \<and> TTY_Width s' = 0 \<and> sent 0xE9 (trace s') = unknown_loader_text @ no_console_text"
proof -
  have "BOOT_LoaderID kernel0 \<noteq> BOOT_LoaderID_LimineCompatible"
    by (simp add: kernel0_def ahci.defs kernel.defs BOOT_LoaderID_LimineCompatible_def)
  then show ?thesis
    using unknown_loader_keeps_port [of kernel0 image0 "limine0\<lparr>bootloaderInfo_response := 0\<rparr>"] kernel0_fields boot_image0
    by (auto simp: limine0_def)
qed

end
