(* ===== verification/AcpiTables.thy ===== *)
theory AcpiTables
  imports Boot
begin

text \<open>
  Runs of messages on the screen, and what the loop of \<open>ACPI_Init\<close> over the tables finds and shows.
\<close>

section \<open>Messages on the screen\<close>

text \<open>The terminal after some log lines, each of which starts a line of its own.\<close>

fun lines_shown :: "nat \<Rightarrow> u8 list list \<Rightarrow> terminal \<Rightarrow> terminal" where
  "lines_shown w [] t = t"
| "lines_shown w (l # lns) t = lines_shown w lns (term_puts w (log_prefix t @ l) t)"

fun lines_fit :: "'a console_scheme \<Rightarrow> u8 list list \<Rightarrow> terminal \<Rightarrow> bool" where
  "lines_fit s [] t \<longleftrightarrow> True"
| "lines_fit s (l # lns) t \<longleftrightarrow> term_fits s (log_prefix t @ l) t \<and>
     lines_fit s lns (term_puts (unat (TTY_Width s)) (log_prefix t @ l) t)"

lemma lines_shown_append: "lines_shown w (xs @ ys) t = lines_shown w ys (lines_shown w xs t)"
  by (induction xs arbitrary: t) simp_all

lemma lines_fit_append:
  "lines_fit s (xs @ ys) t \<longleftrightarrow> lines_fit s xs t \<and> lines_fit s ys (lines_shown (unat (TTY_Width s)) xs t)"
  by (induction xs arbitrary: t) simp_all

lemma lines_fit_size:
  "TTY_Width s' = TTY_Width s \<Longrightarrow> TTY_Height s' = TTY_Height s \<Longrightarrow> lines_fit s' lns t = lines_fit s lns t"
  using term_fits_size [of s' s] by (induction lns arbitrary: t) simp_all

definition log_area :: "image \<Rightarrow> framebuffer_t \<Rightarrow> addr set" where
  "log_area img f = console_area img f \<union> span (log_str_at img) 256"

definition screen_run :: "image \<Rightarrow> addr set \<Rightarrow> u8 list list \<Rightarrow> terminal \<Rightarrow> 'a console_scheme \<Rightarrow> 'a console_scheme \<Rightarrow> bool" where
  "screen_run img A lns t s s' \<longleftrightarrow>
     term_rel img s' (lines_shown (unat (TTY_Width s)) lns t) \<and>
     fbCon s' = fbCon s \<and> TTY_Width s' = TTY_Width s \<and> TTY_Height s' = TTY_Height s \<and>
     trace s' = trace s @ map (Out8 0xE9) (concat lns) \<and>
     (\<forall>b. b \<notin> A \<union> log_area img (fbCon s) \<longrightarrow> mem s' b = mem s b)"

lemma screen_run_trans:
  "screen_run img A xs t s s1 \<Longrightarrow> screen_run img A ys (lines_shown (unat (TTY_Width s)) xs t) s1 s2 \<Longrightarrow>
   screen_run img A (xs @ ys) t s s2"
  by (simp add: screen_run_def lines_shown_append)

lemma screen_run_weaken: "screen_run img A lns t s s' \<Longrightarrow> A \<subseteq> B \<Longrightarrow> screen_run img B lns t s s'"
  by (auto simp: screen_run_def)

lemma screen_run_layout: "screen_run img A lns t s s' \<Longrightarrow> log_layout img s' = log_layout img s"
  by (simp add: screen_run_def log_layout_def console_layout_def)

lemma screen_run_refl: "term_rel img s t \<Longrightarrow> screen_run img A [] t s s"
  by (simp add: screen_run_def)

lemma screen_run_mem:
  assumes "term_rel img s t" and "length (pending t) < 256" and "A \<inter> log_area img (fbCon s) = {}"
    and "\<And>b. b \<notin> A \<Longrightarrow> m b = mem s b"
  shows "screen_run img A [] t s (s\<lparr>mem := m\<rparr>)"
proof -
  have "A \<inter> console_area img (fbCon s) = {}" using assms(3) by (auto simp: log_area_def)
  from term_rel_mem [OF assms(1,2) this assms(4)] show ?thesis using assms(4) by (simp add: screen_run_def)
qed

lemma screen_run_log:
  assumes lay: "log_layout img s" and rel: "term_rel img s t"
    and strs: "str_arg (mem s) K module mo" "str_arg (mem s) K msg me"
    and K: "K \<inter> log_area img (fbCon s) = {}" and level: "unat level < 6"
    and len: "length (log_text mo level me) < 256" and fits: "lines_fit s [log_text mo level me] t"
  shows "\<exists>s'. log img module msg level s = Some s' \<and> screen_run img {} [log_text mo level me] t s s' \<and>
    console.more s' = console.more s"
proof -
  have "K \<inter> (console_area img (fbCon s) \<union> span (log_str_at img) 256) = {}" using K by (simp add: log_area_def)
  moreover have "term_fits s (log_prefix t @ log_text mo level me) t" using fits by simp
  ultimately obtain s' where "log img module msg level s = Some s'" "log_frame img s s'"
      "term_rel img s' (term_puts (unat (TTY_Width s)) (log_prefix t @ log_text mo level me) t)"
      "trace s' = trace s @ map (Out8 0xE9) (log_text mo level me)"
    using log_line [OF lay rel strs _ level len] by blast
  then show ?thesis
    by (intro exI [of _ s']) (simp add: screen_run_def log_frame_def same_screen_def log_area_def)
qed

section \<open>One table\<close>

lemma acpi_mcfg_more: "console.more s' = console.more s \<Longrightarrow> mcfg s' = mcfg (s :: 'a acpi_scheme)"
  by (cases s; cases s') simp

definition entry_header :: "memory \<Rightarrow> addr \<Rightarrow> nat \<Rightarrow> addr" where
  "entry_header m rsdt i = ucast (pointerToOtherSDT m rsdt i)"

definition entry_sig :: "memory \<Rightarrow> addr \<Rightarrow> nat \<Rightarrow> u8 list" where
  "entry_sig m rsdt i = load_bytes m (entry_header m rsdt i) 4"

definition entry_text :: "u8 list \<Rightarrow> u8 list" where
  "entry_text sg = bytes ''Found ACPI Entry: '' @ [0x22] @ sg @ [0x22]"

abbreviation (input) acpi_line :: "u8 list \<Rightarrow> u8 list" where
  "acpi_line me \<equiv> log_text (bytes ''X86ACPI'') LOGLEVEL_INFO me"

definition entry_lines :: "u8 list \<Rightarrow> u8 list list" where
  "entry_lines sg = acpi_line (entry_text sg) # (if sg = bytes ''FACP'' then [acpi_line (bytes ''Found FACP'')] else [])"

definition acpi_scratch :: "image \<Rightarrow> addr set" where
  "acpi_scratch img = span (ACPI_sig_at img) 5 \<union> span (ACPI_entry_str_at img) 64"

definition acpi_image :: "image \<Rightarrow> framebuffer_t \<Rightarrow> bool" where
  "acpi_image img f \<longleftrightarrow> ACPI_sig_at img \<noteq> 0 \<and> ACPI_entry_str_at img \<noteq> 0 \<and>
     span (ACPI_sig_at img) 5 \<inter> span (ACPI_entry_str_at img) 64 = {} \<and> acpi_scratch img \<inter> log_area img f = {}"

text \<open>The signature is a string of four characters, and nothing the loop writes overlaps the tables.\<close>

definition entry_ready :: "image \<Rightarrow> framebuffer_t \<Rightarrow> memory \<Rightarrow> addr \<Rightarrow> nat \<Rightarrow> bool" where
  "entry_ready img f m rsdt i \<longleftrightarrow> 0 \<notin> set (entry_sig m rsdt i) \<and>
     (span (rsdt + sizeof_ACPISDTHeader + 4 * of_nat i) 4 \<union> span (entry_header m rsdt i) 4) \<inter>
       (acpi_scratch img \<union> log_area img f) = {}"

lemma entry_cong:
  assumes "entry_ready img f m rsdt i" and "\<And>b. b \<notin> acpi_scratch img \<union> log_area img f \<Longrightarrow> m' b = m b"
  shows "entry_header m' rsdt i = entry_header m rsdt i" and "entry_sig m' rsdt i = entry_sig m rsdt i"
    and "entry_ready img f m' rsdt i"
proof -
  have p: "m' b = m b" if "b \<in> span (rsdt + sizeof_ACPISDTHeader + 4 * of_nat i) 4" for b
    using that assms by (intro assms(2)) (auto simp: entry_ready_def)
  have s: "m' b = m b" if "b \<in> span (entry_header m rsdt i) 4" for b
    using that assms by (intro assms(2)) (auto simp: entry_ready_def)
  show h: "entry_header m' rsdt i = entry_header m rsdt i"
    unfolding entry_header_def pointerToOtherSDT_def using p by (auto intro!: arg_cong [of _ _ ucast] c32.ld_cong)
  show sg: "entry_sig m' rsdt i = entry_sig m rsdt i"
    unfolding entry_sig_def h using s by (intro load_bytes_cong) auto
  show "entry_ready img f m' rsdt i" using assms(1) by (simp add: entry_ready_def h sg)
qed

lemma entry_text_short: "length sg = 4 \<Longrightarrow> length (entry_text sg) < 64 \<and> length (acpi_line (entry_text sg)) < 256"
  by (simp add: entry_text_def log_text_def log_head_def log_tail_def text_defs ansiColors_def LOGLEVEL_defs)

lemma entry_sprintf:
  assumes "str_arg (mem s) K p sg" and "length sg = 4" and "d \<noteq> 0" and "span d 64 \<inter> K = {}"
  shows "sprintf d (Lit (bytes ''Found ACPI Entry: '' @ [0x22] @ bytes ''%-4s'' @ [0x22])) [VPtr p] s =
    Some (int (length (entry_text sg)), s\<lparr>mem := store_bytes (mem s) d (entry_text sg @ [0])\<rparr>)"
proof -
  let ?head = "bytes ''Found ACPI Entry: '' @ [0x22]"
  let ?ps = "map PChar ?head @ [PStrLeft 4 sg] @ map PChar [0x22]"
  have "plain ?head" by (simp add: plain_def bytes_def)
  then have args: "args_match (mem s) K ?ps [VPtr p]" using assms(1) by (simp del: map_append)
  have out: "out_of ?ps = entry_text sg" using assms(2) by (simp add: entry_text_def bytes_def)
  have fmt: "fmt_of ?ps = bytes ''Found ACPI Entry: '' @ [0x22] @ bytes ''%-4s'' @ [0x22]"
    by (simp add: bytes_def)
  have "0 \<notin> set (fmt_of ?ps)" unfolding fmt by (simp add: bytes_def)
  then have rest: "at_rest (mem s) K (Lit (fmt_of ?ps)) (fmt_of ?ps)" by (simp add: at_rest_def)
  have "span d (length (entry_text sg)) \<subseteq> span d 64" using entry_text_short [OF assms(2)] by (intro span_mono) simp
  then have "span d (length (out_of ?ps)) \<inter> K = {}" using assms(4) unfolding out by blast
  then show ?thesis
    using sprintf_pieces [OF args rest assms(3)] entry_text_short [OF assms(2)] unfolding out fmt by simp
qed

text \<open>The copy of a signature into \<open>sig\<close>, whose last byte is 0.\<close>

lemma copy_sig:
  assumes "span g 5 \<inter> span h 4 = {}" and "m (g + 4) = 0" and "length sg = 4" and "load_bytes m h 4 = sg"
  shows "memcpy g (Addr h) 4 m = store_bytes m g (sg @ [0])"
proof -
  have "span g 4 \<subseteq> span g 5" by (intro span_mono) simp
  then have "copy_safe g (Addr h) (unat (4 :: u64))" using assms(1) by (intro copy_safe_disjoint) auto
  then have "memcpy g (Addr h) 4 m = store_bytes m g sg"
    using memcpy_store [of g "Addr h" 4 m] assms(4) by (simp add: read_bytes_Addr)
  moreover have "store_bytes m g sg (g + 4) = m (g + 4)"
  proof (rule store_bytes_frame)
    show "g + 4 \<notin> span g (length sg)" using span_shift_disj [of 0 4 4 1 g] span_nth [of 0 1 "g + 4"] assms(3) by auto
  qed
  ultimately show ?thesis using assms(2,3) by (simp add: store_bytes_append fun_upd_idem)
qed

lemma memcmp_sig:
  assumes "length (bytes w) = 4" and "0 \<notin> set (bytes w)"
  shows "memcmp m (Addr h) (lit w) 4 = 0 \<longleftrightarrow> load_bytes m h 4 = bytes w"
proof -
  have "lit w = Lit (bytes w)" by (simp add: lit_def bytes_def)
  then have "read_bytes m (lit w) 4 = bytes w"
    using cstr_read_bytes [of m "Lit (bytes w)" "bytes w" 4] assms by simp
  moreover have "nat (sint (4 :: u64)) = 4" "0 \<le> sint (4 :: u64)" by simp_all
  ultimately show ?thesis using memcmp_eq_0_iff [of 4 m "Addr h" "lit w"] by (simp add: read_bytes_Addr)
qed

text \<open>The copy and the message in the buffer do not touch the screen.\<close>

lemma acpi_scratch_run:
  assumes img: "acpi_image img (fbCon s)" and rel: "term_rel img s t" "length (pending t) < 256"
    and sg: "length sg = 4" "0 \<notin> set sg"
  shows "screen_run img (acpi_scratch img) [] t s
      (s\<lparr>mem := store_bytes (store_bytes (mem s) (ACPI_sig_at img) (sg @ [0])) (ACPI_entry_str_at img) (entry_text sg @ [0])\<rparr>)"
proof (rule screen_run_mem [OF rel])
  fix b assume b: "b \<notin> acpi_scratch img"
  have "length (entry_text sg) < 64" using entry_text_short sg by blast
  then have "store_bytes (store_bytes (mem s) (ACPI_sig_at img) (sg @ [0])) (ACPI_entry_str_at img) (entry_text sg @ [0]) b =
      store_bytes (mem s) (ACPI_sig_at img) (sg @ [0]) b"
    using b by (intro store_in_buffer) (auto simp: acpi_scratch_def)
  also have "\<dots> = mem s b" using b sg(1) by (intro store_in_buffer [of _ 5]) (auto simp: acpi_scratch_def)
  finally show "store_bytes (store_bytes (mem s) (ACPI_sig_at img) (sg @ [0])) (ACPI_entry_str_at img) (entry_text sg @ [0]) b = mem s b" .
qed (use img in \<open>simp add: acpi_image_def\<close>)

lemma acpi_log_run:
  fixes s :: "'a acpi_scheme"
  assumes "log_layout img s" "term_rel img s t" "str_arg (mem s) K msg me" "K \<inter> log_area img (fbCon s) = {}"
    and "length (acpi_line me) < 256" and "lines_fit s [acpi_line me] t"
  obtains s' where "acpi_log img msg LOGLEVEL_INFO s = Some s'" "screen_run img {} [acpi_line me] t s s'" "mcfg s' = mcfg s"
proof -
  have "str_arg (mem s) K (lit ''X86ACPI'') (bytes ''X86ACPI'')" by (simp add: str_arg_def lit_def bytes_def)
  moreover have "unat LOGLEVEL_INFO < 6" by (simp add: LOGLEVEL_defs)
  ultimately show thesis using screen_run_log [OF assms(1,2) _ assms(3,4) _ assms(5,6)] acpi_mcfg_more that by blast
qed

text \<open>The state in which the loop looks at a table: the last byte of \<open>sig\<close> is 0.\<close>

definition acpi_state :: "image \<Rightarrow> terminal \<Rightarrow> 'a acpi_scheme \<Rightarrow> bool" where
  "acpi_state img t s \<longleftrightarrow> log_layout img s \<and> term_rel img s t \<and> acpi_image img (fbCon s) \<and> mem s (ACPI_sig_at img + 4) = 0"

lemma acpi_message:
  assumes st: "acpi_state img t s" and e: "entry_ready img (fbCon s) (mem s) rsdt i"
    and fits: "lines_fit s [acpi_line (entry_text (entry_sig (mem s) rsdt i))] t"
  obtains s1 s2 where
    "s1 = s\<lparr>mem := memcpy (ACPI_sig_at img) (Addr (entry_header (mem s) rsdt i)) 4 (mem s)\<rparr>"
    "sprintf (ACPI_entry_str_at img) (Lit (bytes ''Found ACPI Entry: '' @ [0x22] @ bytes ''%-4s'' @ [0x22]))
       [VPtr (Addr (ACPI_sig_at img))] s1 = Some (int (length (entry_text (entry_sig (mem s) rsdt i))), s2)"
    "\<exists>s3. acpi_log img (Addr (ACPI_entry_str_at img)) LOGLEVEL_INFO s2 = Some s3 \<and>
       screen_run img (acpi_scratch img) [acpi_line (entry_text (entry_sig (mem s) rsdt i))] t s s3 \<and>
       mcfg s3 = mcfg s \<and> mem s3 (ACPI_sig_at img + 4) = 0"
proof -
  let ?g = "ACPI_sig_at img" and ?d = "ACPI_entry_str_at img" and ?h = "entry_header (mem s) rsdt i"
  let ?sg = "entry_sig (mem s) rsdt i"
  let ?m1 = "store_bytes (mem s) ?g (?sg @ [0])"
  let ?m2 = "store_bytes ?m1 ?d (entry_text ?sg @ [0])"
  have lay: "log_layout img s" and rel: "term_rel img s t" and img: "acpi_image img (fbCon s)" and nul: "mem s (?g + 4) = 0"
    using st by (simp_all add: acpi_state_def)
  have gd: "?g \<noteq> 0" "?d \<noteq> 0" "span ?g 5 \<inter> span ?d 64 = {}" "acpi_scratch img \<inter> log_area img (fbCon s) = {}"
    using img by (simp_all add: acpi_image_def)
  have sg: "length ?sg = 4" "0 \<notin> set ?sg" using e by (simp_all add: entry_sig_def entry_ready_def)
  note short = entry_text_short [OF sg(1)]
  have "span ?g 5 \<inter> span ?h 4 = {}" using e by (auto simp: entry_ready_def acpi_scratch_def)
  then have copy: "memcpy ?g (Addr ?h) 4 (mem s) = ?m1"
    using nul sg(1) by (intro copy_sig) (simp_all add: entry_sig_def)
  let ?s1 = "s\<lparr>mem := ?m1\<rparr>" and ?s2 = "s\<lparr>mem := ?m2\<rparr>"
  have "str_arg (mem ?s1) (span ?g 5) (Addr ?g) ?sg"
    using str_in_buffer [OF gd(1) sg(2), of 5 "mem s"] sg(1) by simp
  from entry_sprintf [OF this sg(1) gd(2)]
  have out: "sprintf ?d (Lit (bytes ''Found ACPI Entry: '' @ [0x22] @ bytes ''%-4s'' @ [0x22])) [VPtr (Addr ?g)] ?s1 =
      Some (int (length (entry_text ?sg)), ?s2)"
    using gd(3) by (simp add: Int_commute)
  have "length (pending t) < 256" using fits by (auto simp: log_text_def log_head_def text_defs term_ok_def log_prefix_def split: if_splits)
  note run2 = acpi_scratch_run [OF img rel this sg]
  have t2: "term_rel img ?s2 t" using run2 by (simp add: screen_run_def)
  have lay2: "log_layout img ?s2" using screen_run_layout [OF run2] lay by simp
  have "0 \<notin> set (entry_text ?sg)" using sg(2) by (simp add: entry_text_def bytes_def)
  then have arg: "str_arg (mem ?s2) (span ?d 64) (Addr ?d) (entry_text ?sg)"
    using str_in_buffer [OF gd(2), of "entry_text ?sg" 64 ?m1] short by simp
  have "span ?d 64 \<inter> log_area img (fbCon ?s2) = {}" using gd(4) by (auto simp: acpi_scratch_def)
  moreover have "lines_fit ?s2 [acpi_line (entry_text ?sg)] t"
    using fits lines_fit_size [of ?s2 s "[acpi_line (entry_text ?sg)]" t] by simp
  ultimately obtain s3 where s3: "acpi_log img (Addr ?d) LOGLEVEL_INFO ?s2 = Some s3"
      "screen_run img {} [acpi_line (entry_text ?sg)] t ?s2 s3" "mcfg s3 = mcfg ?s2"
    using acpi_log_run [OF lay2 t2 arg _ conjunct2 [OF short]] by blast
  have run3: "screen_run img (acpi_scratch img) [acpi_line (entry_text ?sg)] t s s3"
    using screen_run_trans [OF run2, of "[acpi_line (entry_text ?sg)]" s3] screen_run_weaken [OF s3(2), of "acpi_scratch img"]
    by simp
  have g4: "?g + 4 \<in> span ?g 5" using span_nth [of 4 5 ?g] by simp
  have "?g + 4 \<notin> log_area img (fbCon ?s2)" using g4 gd(4) by (auto simp: acpi_scratch_def)
  then have "mem s3 (?g + 4) = ?m2 (?g + 4)" using s3(2) by (simp add: screen_run_def)
  also have "\<dots> = ?m1 (?g + 4)" using g4 gd(3) short by (intro store_in_buffer) auto
  also have "\<dots> = 0" using sg(1) by (simp add: store_bytes_append)
  finally show thesis using that [of ?s1 ?s2] copy out s3 run3 by simp
qed

lemma screen_run_mcfg: "screen_run img A lns t s s' \<Longrightarrow> screen_run img A lns t s (s'\<lparr>mcfg := h\<rparr>)"
  by (simp add: screen_run_def term_rel_def esc_text_def)

lemma acpi_found_facp:
  fixes s :: "'a acpi_scheme"
  assumes st: "acpi_state img t s" and fits: "b \<longrightarrow> lines_fit s [acpi_line (bytes ''Found FACP'')] t"
  obtains s' where "(if b then acpi_log img (lit ''Found FACP'') LOGLEVEL_INFO s else Some s) = Some s'"
    "screen_run img {} (if b then [acpi_line (bytes ''Found FACP'')] else []) t s s'" "mcfg s' = mcfg s"
proof (cases b)
  case True
  have "str_arg (mem s) {} (lit ''Found FACP'') (bytes ''Found FACP'')" by (simp add: str_arg_def lit_def bytes_def)
  moreover have "length (acpi_line (bytes ''Found FACP'')) < 256"
    by (simp add: log_text_def log_head_def log_tail_def text_defs ansiColors_def LOGLEVEL_defs)
  ultimately obtain s' where "acpi_log img (lit ''Found FACP'') LOGLEVEL_INFO s = Some s'"
      "screen_run img {} [acpi_line (bytes ''Found FACP'')] t s s'" "mcfg s' = mcfg s"
    using acpi_log_run [of img s t "{}" "lit ''Found FACP''" "bytes ''Found FACP''"] st fits True
    by (auto simp: acpi_state_def)
  then show thesis using that [of s'] True by simp
next
  case False
  then show thesis using that [of s] st screen_run_refl [of img s t] by (simp add: acpi_state_def)
qed

lemma acpi_state_run:
  assumes "acpi_state img t s" and "screen_run img A lns t s s'" and "mem s' (ACPI_sig_at img + 4) = 0"
  shows "acpi_state img (lines_shown (unat (TTY_Width s)) lns t) s'"
  using assms screen_run_layout [OF assms(2)] by (simp add: acpi_state_def screen_run_def)

lemma acpi_entry_runs:
  assumes st: "acpi_state img t s" and e: "entry_ready img (fbCon s) (mem s) rsdt i"
    and fits: "lines_fit s (entry_lines (entry_sig (mem s) rsdt i)) t"
  shows "\<exists>s'. acpi_entry img rsdt i s = Some s' \<and>
    screen_run img (acpi_scratch img) (entry_lines (entry_sig (mem s) rsdt i)) t s s' \<and>
    mem s' (ACPI_sig_at img + 4) = 0 \<and>
    mcfg s' = (if entry_sig (mem s) rsdt i = bytes ''MCFG'' then entry_header (mem s) rsdt i else mcfg s)"
proof -
  let ?g = "ACPI_sig_at img" and ?h = "entry_header (mem s) rsdt i" and ?sg = "entry_sig (mem s) rsdt i"
  let ?first = "[acpi_line (entry_text ?sg)]" and ?facp = "if ?sg = bytes ''FACP'' then [acpi_line (bytes ''Found FACP'')] else []"
  let ?W = "unat (TTY_Width s)"
  have lns: "entry_lines ?sg = ?first @ ?facp" by (simp add: entry_lines_def)
  have fits1: "lines_fit s ?first t" and fits2: "lines_fit s ?facp (lines_shown ?W ?first t)"
    using fits unfolding lns lines_fit_append by blast+
  obtain s1 s2 s3 where s1: "s1 = s\<lparr>mem := memcpy ?g (Addr ?h) 4 (mem s)\<rparr>"
    and s2: "sprintf (ACPI_entry_str_at img) (Lit (bytes ''Found ACPI Entry: '' @ [0x22] @ bytes ''%-4s'' @ [0x22]))
       [VPtr (Addr ?g)] s1 = Some (int (length (entry_text ?sg)), s2)"
    and s3: "acpi_log img (Addr (ACPI_entry_str_at img)) LOGLEVEL_INFO s2 = Some s3"
    and run3: "screen_run img (acpi_scratch img) ?first t s s3" and m3: "mcfg s3 = mcfg s" "mem s3 (?g + 4) = 0"
    using acpi_message [OF st e fits1] by metis
  note st3 = acpi_state_run [OF st run3 m3(2)]
  have "mem s3 b = mem s b" if "b \<notin> acpi_scratch img \<union> log_area img (fbCon s)" for b
    using that run3 by (simp add: screen_run_def)
  note cong3 = entry_cong [OF e this]
  have size: "TTY_Width s3 = TTY_Width s" "TTY_Height s3 = TTY_Height s" using run3 by (simp_all add: screen_run_def)
  have "?sg = bytes ''FACP'' \<longrightarrow> lines_fit s3 [acpi_line (bytes ''Found FACP'')] (lines_shown ?W ?first t)"
  proof
    assume "?sg = bytes ''FACP''"
    then show "lines_fit s3 [acpi_line (bytes ''Found FACP'')] (lines_shown ?W ?first t)"
      using fits2 unfolding lines_fit_size [OF size] by presburger
  qed
  from acpi_found_facp [OF st3 this] obtain s4 where
    s4: "(if ?sg = bytes ''FACP'' then acpi_log img (lit ''Found FACP'') LOGLEVEL_INFO s3 else Some s3) = Some s4"
    and run4: "screen_run img {} ?facp (lines_shown ?W ?first t) s3 s4" and m4: "mcfg s4 = mcfg s3" by blast
  have run: "screen_run img (acpi_scratch img) (entry_lines ?sg) t s s4"
    unfolding lns by (rule screen_run_trans [OF run3 screen_run_weaken [OF run4 empty_subsetI]])
  have "mem s4 b = mem s b" if "b \<notin> acpi_scratch img \<union> log_area img (fbCon s)" for b
    using that run by (simp add: screen_run_def)
  note cong4 = entry_cong [OF e this]
  have "?g + 4 \<in> acpi_scratch img" using span_nth [of 4 5 ?g] by (simp add: acpi_scratch_def)
  then have "?g + 4 \<notin> log_area img (fbCon s3)"
    using st3 by (auto simp: acpi_state_def acpi_image_def)
  then have nul: "mem s4 (?g + 4) = 0" using run4 m3(2) by (simp add: screen_run_def)
  have "load_bytes (mem s3) ?h 4 = ?sg" "load_bytes (mem s4) ?h 4 = ?sg"
    using cong3(1,2) cong4(1,2) by (simp_all add: entry_sig_def)
  then have "acpi_entry img rsdt i s = Some (if ?sg = bytes ''MCFG'' then s4\<lparr>mcfg := ?h\<rparr> else s4)"
    using s1 s2 s3 s4 unfolding acpi_entry_def entry_header_def [symmetric]
    by (simp add: Let_def memcmp_sig bytes_def del: load_bytes.simps)
  then show ?thesis using run nul m3(1) m4 screen_run_mcfg [OF run] by auto
qed

section \<open>The loop\<close>

definition search_lines :: "memory \<Rightarrow> addr \<Rightarrow> nat list \<Rightarrow> u8 list list" where
  "search_lines m rsdt is = concat (map (\<lambda>i. entry_lines (entry_sig m rsdt i)) is)"

definition last_mcfg :: "memory \<Rightarrow> addr \<Rightarrow> nat list \<Rightarrow> addr \<Rightarrow> addr" where
  "last_mcfg m rsdt is old = (let js = filter (\<lambda>i. entry_sig m rsdt i = bytes ''MCFG'') is
     in if js = [] then old else entry_header m rsdt (last js))"

lemma last_mcfg_Cons: "last_mcfg m rsdt (i # is) old =
    last_mcfg m rsdt is (if entry_sig m rsdt i = bytes ''MCFG'' then entry_header m rsdt i else old)"
  by (simp add: last_mcfg_def Let_def)

lemma search_cong:
  assumes "\<forall>i\<in>set is. entry_sig m' rsdt i = entry_sig m rsdt i \<and> entry_header m' rsdt i = entry_header m rsdt i"
  shows "search_lines m' rsdt is = search_lines m rsdt is" and "last_mcfg m' rsdt is old = last_mcfg m rsdt is old"
  using assms
proof -
  have "map (\<lambda>i. entry_lines (entry_sig m' rsdt i)) is = map (\<lambda>i. entry_lines (entry_sig m rsdt i)) is"
    using assms by simp
  then show "search_lines m' rsdt is = search_lines m rsdt is" by (simp only: search_lines_def)
  show "last_mcfg m' rsdt is old = last_mcfg m rsdt is old"
    using assms by (induction "is" arbitrary: old) (simp add: last_mcfg_def, simp add: last_mcfg_Cons)
qed

lemma acpi_entries_run:
  assumes "acpi_state img t s" and "\<forall>i\<in>set is. entry_ready img (fbCon s) (mem s) rsdt i"
    and "lines_fit s (search_lines (mem s) rsdt is) t"
  shows "\<exists>s'. acpi_entries img rsdt is s = Some s' \<and>
    screen_run img (acpi_scratch img) (search_lines (mem s) rsdt is) t s s' \<and>
    mcfg s' = last_mcfg (mem s) rsdt is (mcfg s)"
  using assms
proof (induction "is" arbitrary: s t)
  case Nil
  then show ?case using screen_run_refl [of img s t]
    by (auto simp: search_lines_def last_mcfg_def acpi_state_def intro: screen_run_weaken)
next
  case (Cons i "is")
  let ?here = "entry_lines (entry_sig (mem s) rsdt i)" and ?rest = "search_lines (mem s) rsdt is"
  let ?t = "lines_shown (unat (TTY_Width s)) ?here t"
  have lns: "search_lines (mem s) rsdt (i # is) = ?here @ ?rest" by (simp add: search_lines_def)
  have fits: "lines_fit s ?here t" "lines_fit s ?rest ?t" using Cons.prems(3) unfolding lns lines_fit_append by blast+
  have ready: "entry_ready img (fbCon s) (mem s) rsdt i" using Cons.prems(2) by simp
  obtain s1 where s1: "acpi_entry img rsdt i s = Some s1" "screen_run img (acpi_scratch img) ?here t s s1"
      "mem s1 (ACPI_sig_at img + 4) = 0"
      "mcfg s1 = (if entry_sig (mem s) rsdt i = bytes ''MCFG'' then entry_header (mem s) rsdt i else mcfg s)"
    using acpi_entry_runs [OF Cons.prems(1) ready fits(1)] by blast
  have size: "TTY_Width s1 = TTY_Width s" "TTY_Height s1 = TTY_Height s" "fbCon s1 = fbCon s"
    using s1(2) by (simp_all add: screen_run_def)
  have same: "mem s1 b = mem s b" if "b \<notin> acpi_scratch img \<union> log_area img (fbCon s)" for b
    using that s1(2) by (simp add: screen_run_def)
  have cong: "entry_header (mem s1) rsdt j = entry_header (mem s) rsdt j"
    "entry_sig (mem s1) rsdt j = entry_sig (mem s) rsdt j" "entry_ready img (fbCon s) (mem s1) rsdt j" if "j \<in> set is" for j
    using entry_cong [OF _ same] Cons.prems(2) that by auto
  have eqs: "search_lines (mem s1) rsdt is = ?rest" "last_mcfg (mem s1) rsdt is old = last_mcfg (mem s) rsdt is old" for old
    using cong by (simp_all add: search_cong)
  obtain s' where s': "acpi_entries img rsdt is s1 = Some s'" "screen_run img (acpi_scratch img) ?rest ?t s1 s'"
      "mcfg s' = last_mcfg (mem s) rsdt is (mcfg s1)"
    using Cons.IH [OF acpi_state_run [OF Cons.prems(1) s1(2,3)]] cong(3) size fits(2)
    unfolding eqs lines_fit_size [OF size(1,2)] by auto
  have "screen_run img (acpi_scratch img) (search_lines (mem s) rsdt (i # is)) t s s'"
    unfolding lns by (rule screen_run_trans [OF s1(2) s'(2)])
  then show ?case using s1 s' by (simp add: last_mcfg_Cons)
qed

section \<open>Properties\<close>

text \<open>
  The search of \<open>ACPI_Init\<close>: the loop over the tables names every table, in order, on the screen and the
  debug port, reports the FACP, and leaves \<open>mcfg\<close> at the last table with the signature \<open>MCFG\<close> - or as it was,
  when there is none.  No memory but the two buffers and the console's changes.
\<close>

theorem acpi_entries_find_mcfg:
  assumes "acpi_state img t s" and "\<forall>i\<in>set is. entry_ready img (fbCon s) (mem s) rsdt i"
    and "lines_fit s (search_lines (mem s) rsdt is) t"
  shows "\<exists>s'. acpi_entries img rsdt is s = Some s' \<and> mcfg s' = last_mcfg (mem s) rsdt is (mcfg s) \<and>
    term_rel img s' (lines_shown (unat (TTY_Width s)) (search_lines (mem s) rsdt is) t) \<and>
    trace s' = trace s @ map (Out8 0xE9) (concat (search_lines (mem s) rsdt is)) \<and>
    (\<forall>b. b \<notin> acpi_scratch img \<union> log_area img (fbCon s) \<longrightarrow> mem s' b = mem s b)"
  using acpi_entries_run [OF assms] unfolding screen_run_def by blast

definition acpi_tables0 :: memory where
  "acpi_tables0 = (\<lambda>_. 0)(0x200025 := 0x01, 0x200026 := 0x20, 0x200100 := 0x4D, 0x200101 := 0x43, 0x200102 := 0x46, 0x200103 := 0x47)"

lemma acpi_tables0_entry: "entry_header acpi_tables0 0x200000 0 = 0x200100"
  "entry_sig acpi_tables0 0x200000 0 = bytes ''MCFG''"
proof -
  have "load32 acpi_tables0 0x200024 = 0x200100" by (simp add: load32_def mem_eval acpi_tables0_def)
  then show h: "entry_header acpi_tables0 0x200000 0 = 0x200100"
    by (simp add: entry_header_def pointerToOtherSDT_def sizeof_ACPISDTHeader_def)
  have "load_bytes acpi_tables0 0x200100 4 = bytes ''MCFG''" by (simp add: mem_eval acpi_tables0_def bytes_def)
  then show "entry_sig acpi_tables0 0x200000 0 = bytes ''MCFG''" by (simp only: entry_sig_def h)
qed

lemma acpi_areas0: "acpi_scratch image0 = span 0x115048 5 \<union> span 0x115080 64"
  "log_area image0 (fbCon console25) = span 0x800000000 1024000 \<union> span 0x101000 256 \<union> span 0x111000 256 \<union> span 0x113000 256"
  unfolding log_area_def console_area_def console25_bytes by (simp_all add: acpi_scratch_def image0_def)

lemma acpi_image0: "acpi_image image0 (fbCon console25)"
proof -
  have "span (0x115048 :: addr) 5 \<inter> span 0x115080 64 = {}" "span (0x115048 :: addr) 5 \<inter> span 0x800000000 1024000 = {}"
    "span (0x115080 :: addr) 64 \<inter> span 0x800000000 1024000 = {}"
    by (rule span_disjI, simp_all)+
  moreover have "span (0x115048 :: addr) 5 \<inter> span 0x101000 256 = {}" "span (0x115080 :: addr) 64 \<inter> span 0x101000 256 = {}"
    "span (0x115048 :: addr) 5 \<inter> span 0x111000 256 = {}" "span (0x115080 :: addr) 64 \<inter> span 0x111000 256 = {}"
    "span (0x115048 :: addr) 5 \<inter> span 0x113000 256 = {}" "span (0x115080 :: addr) 64 \<inter> span 0x113000 256 = {}"
    by (rule span_disjI', simp_all)+
  ultimately show ?thesis
    unfolding acpi_image_def acpi_areas0 Int_Un_distrib Int_Un_distrib2 by (simp add: image0_def)
qed

lemma acpi_tables0_ready: "entry_ready image0 (fbCon console25) acpi_tables0 0x200000 0"
proof -
  have "span (0x200024 :: addr) 4 \<inter> span 0x800000000 1024000 = {}" "span (0x200100 :: addr) 4 \<inter> span 0x800000000 1024000 = {}"
    by (rule span_disjI, simp_all)+
  moreover have "span (0x200024 :: addr) 4 \<inter> span 0x115048 5 = {}" "span (0x200100 :: addr) 4 \<inter> span 0x115048 5 = {}"
    "span (0x200024 :: addr) 4 \<inter> span 0x115080 64 = {}" "span (0x200100 :: addr) 4 \<inter> span 0x115080 64 = {}"
    "span (0x200024 :: addr) 4 \<inter> span 0x101000 256 = {}" "span (0x200100 :: addr) 4 \<inter> span 0x101000 256 = {}"
    "span (0x200024 :: addr) 4 \<inter> span 0x111000 256 = {}" "span (0x200100 :: addr) 4 \<inter> span 0x111000 256 = {}"
    "span (0x200024 :: addr) 4 \<inter> span 0x113000 256 = {}" "span (0x200100 :: addr) 4 \<inter> span 0x113000 256 = {}"
    by (rule span_disjI', simp_all)+
  moreover have "0 \<notin> set (bytes ''MCFG'')" by (simp add: bytes_def)
  ultimately show ?thesis
    unfolding entry_ready_def acpi_tables0_entry acpi_areas0 Int_Un_distrib Int_Un_distrib2
    by (simp add: sizeof_ACPISDTHeader_def)
qed

theorem acpi_entries_find_mcfg_witness:
  "\<exists>s'. acpi_entries image0 0x200000 [0] (ahci25\<lparr>mem := acpi_tables0\<rparr>) = Some s' \<and> mcfg s' = 0x200100"
proof -
  let ?s = "ahci25\<lparr>mem := acpi_tables0\<rparr>"
  have f: "fbCon ?s = fbCon console25" "TTY_Width ?s = TTY_Width console25" "TTY_Height ?s = TTY_Height console25"
    "mem ?s = acpi_tables0"
    by (simp_all add: ahci25_def console25_def)
  have "log_layout image0 ?s" using console25_layout by (simp only: log_layout_def console_layout_def f simp_thms)
  moreover have "term_rel image0 ?s term0"
    using ahci25_console(3) by (simp add: term_rel_def esc_text_def term0_def pending_def)
  moreover have "acpi_tables0 (0x115048 + 4) = 0" by (simp add: acpi_tables0_def)
  ultimately have st: "acpi_state image0 term0 ?s"
    using acpi_image0 by (simp add: acpi_state_def f) (simp add: image0_def)
  have "term_fits ?s (acpi_line (entry_text (bytes ''MCFG''))) term0"
    unfolding term_fits_size [OF f(2,3)]
    by (simp add: entry_text_def log_text_def log_head_def log_tail_def text_defs ansiColors_def LOGLEVEL_defs
        term_eval console25_size term0_def)
  moreover have "bytes ''MCFG'' \<noteq> bytes ''FACP''" by (simp add: bytes_def)
  ultimately have "lines_fit ?s (search_lines (mem ?s) 0x200000 [0]) term0"
    by (simp add: search_lines_def f(4) acpi_tables0_entry entry_lines_def log_prefix_def term0_def)
  then show ?thesis
    using acpi_entries_find_mcfg [OF st, of "[0]" "0x200000"] acpi_tables0_ready
    by (auto simp: f last_mcfg_def acpi_tables0_entry)
qed

end
