(* ===== verification/AcpiInit.thy ===== *)
theory AcpiInit
  imports AcpiTables
begin

text \<open>
  The whole of \<open>ACPI_Init\<close>: what it shows before its loop over the tables, the table it leaves in \<open>mcfg\<close>, and the
  panic of a root table with another signature.
\<close>

section \<open>Fields as strings\<close>

text \<open>A field of a table, read as a string: up to its first NUL.\<close>

definition text_of :: "u8 list \<Rightarrow> u8 list" where
  "text_of bs = takeWhile (\<lambda>c. c \<noteq> 0) bs"

lemma text_of_nonzero: "0 \<notin> set (text_of bs)"
  unfolding text_of_def using set_takeWhileD by fastforce

lemma length_text_of: "length (text_of bs) \<le> length bs"
  by (simp add: text_of_def length_takeWhile_le)

lemma text_of_plain: "0 \<notin> set bs \<Longrightarrow> text_of bs = bs"
  by (auto simp: text_of_def takeWhile_eq_all_conv)

lemma cstr_text_of:
  assumes "load_bytes m a n = bs" and "m (a + of_nat n) = 0"
  shows "cstr m (Addr a) (text_of bs)"
  using assms
proof (induction n arbitrary: a bs)
  case 0
  then show ?case by (simp add: text_of_def cstr_def)
next
  case (Suc n)
  then obtain cs where bs: "bs = m a # cs" "load_bytes m (a + 1) n = cs" by auto
  have "cstr m (Addr (a + 1)) (text_of cs)" using Suc.IH [OF bs(2)] Suc.prems(2) by (simp add: add.assoc)
  then have "cstr m (Addr a) (m a # text_of cs)" if "m a \<noteq> 0" using that by (simp add: cstr_Cons)
  moreover have "cstr m (Addr a) []" if "m a = 0" using that by (simp add: cstr_def)
  ultimately show ?case using bs(1) by (auto simp: text_of_def)
qed

text \<open>The copy of a field into a buffer whose last byte is 0.\<close>

lemma copy_field:
  assumes apart: "span g (Suc n) \<inter> span h n = {}" and nul: "m (g + of_nat n) = 0" and n: "n < 2 ^ 31"
  defines "m' \<equiv> memcpy g (Addr h) (of_nat n) m"
  shows "load_bytes m' g n = load_bytes m h n" "m' (g + of_nat n) = 0" "b \<notin> span g (Suc n) \<Longrightarrow> m' b = m b"
    "g \<noteq> 0 \<Longrightarrow> str_arg m' (span g (Suc n)) (Addr g) (text_of (load_bytes m h n))"
proof -
  have un: "unat (of_nat n :: u64) = n" using n by (simp add: unsigned_of_nat take_bit_nat_eq_self)
  have sub: "span g n \<subseteq> span g (Suc n)" by (intro span_mono) simp
  then have "copy_safe g (Addr h) n" using apart by (intro copy_safe_disjoint) auto
  then have m': "m' = store_bytes m g (load_bytes m h n)"
    using memcpy_store [of g "Addr h" "of_nat n" m] un by (simp add: m'_def read_bytes_Addr)
  have len: "length (load_bytes m h n) = n" by simp
  show ld: "load_bytes m' g n = load_bytes m h n"
    using load_store_bytes [of "load_bytes m h n" m g] n by (simp add: m')
  have "g + of_nat n \<notin> span g n"
    using span_shift_disj [of 0 n n 1 g] span_nth [of 0 1 "g + of_nat n"] n by auto
  then show last0: "m' (g + of_nat n) = 0" using nul by (simp add: m' store_bytes_frame)
  show "m' b = m b" if "b \<notin> span g (Suc n)" for b
    unfolding m' using that sub by (intro store_bytes_frame) auto
  have "span g (Suc (length (text_of (load_bytes m h n)))) \<subseteq> span g (Suc n)"
    using length_text_of [of "load_bytes m h n"] by (intro span_mono) simp
  then show "str_arg m' (span g (Suc n)) (Addr g) (text_of (load_bytes m h n))" if "g \<noteq> 0"
    using cstr_text_of [OF ld last0] that length_text_of [of "load_bytes m h n"] n by (simp add: str_arg_def)
qed

lemma memcmp_lit:
  assumes "length (bytes w) = n" and "0 \<notin> set (bytes w)" and "n < 2 ^ 31"
  shows "memcmp m (Addr h) (lit w) (of_nat n) = 0 \<longleftrightarrow> load_bytes m h n = bytes w"
proof -
  have w: "lit w = Lit (bytes w)" by (simp add: lit_def bytes_def)
  have "cstr m (lit w) (bytes w)" unfolding w using assms(2) by simp
  from cstr_read_bytes [OF this, of n] have "read_bytes m (lit w) n = bytes w" using assms(1) by simp
  moreover have "sint (of_nat n :: u64) = int n" using assms(3) by (simp add: sint_of_nat64)
  ultimately show ?thesis using memcmp_eq_0_iff [of "of_nat n" m "Addr h" "lit w"] by (simp add: read_bytes_Addr)
qed

section \<open>A message\<close>

text \<open>The buffers of \<open>ACPI_Init\<close> apart from those of its loop, and where they may lie.\<close>

definition acpi_tmp :: "image \<Rightarrow> addr set" where
  "acpi_tmp img = span (ACPI_str_at img) 64 \<union> span (ACPI_OEMID_at img) 7 \<union> span (checksum_str_at img) 64"

definition acpi_room :: "image \<Rightarrow> framebuffer_t \<Rightarrow> bool" where
  "acpi_room img f \<longleftrightarrow> acpi_image img f \<and> ACPI_str_at img \<noteq> 0 \<and> ACPI_OEMID_at img \<noteq> 0 \<and> checksum_str_at img \<noteq> 0 \<and>
     acpi_tmp img \<inter> (log_area img f \<union> span (ACPI_sig_at img) 5) = {} \<and>
     span (ACPI_OEMID_at img) 7 \<inter> (span (ACPI_str_at img) 64 \<union> span (checksum_str_at img) 64) = {}"

definition acpi_ok :: "image \<Rightarrow> terminal \<Rightarrow> 'a acpi_scheme \<Rightarrow> bool" where
  "acpi_ok img t s \<longleftrightarrow> log_layout img s \<and> term_rel img s t \<and> acpi_room img (fbCon s)"

lemma acpi_ok_run:
  assumes "acpi_ok img t s" and "screen_run img A lns t s s'"
  shows "acpi_ok img (lines_shown (unat (TTY_Width s)) lns t) s'"
  using assms screen_run_layout [OF assms(2)] by (simp add: acpi_ok_def screen_run_def)

lemma run_size: "screen_run img A lns t s s' \<Longrightarrow> TTY_Width s' = TTY_Width s \<and> TTY_Height s' = TTY_Height s \<and> fbCon s' = fbCon s"
  by (simp add: screen_run_def)

lemma run_keeps: "screen_run img A lns t s s' \<Longrightarrow> b \<notin> A \<Longrightarrow> b \<notin> log_area img (fbCon s) \<Longrightarrow> mem s' b = mem s b"
  by (simp add: screen_run_def)

text \<open>Lines of the module.\<close>

abbreviation (input) acpi_text :: "u8 \<Rightarrow> u8 list \<Rightarrow> u8 list" where
  "acpi_text level me \<equiv> log_text (bytes ''X86ACPI'') level me"

declare lines_fit.simps(2) [simp del] lines_shown.simps(2) [simp del]

lemma acpi_text_short:
  assumes "length me < 80" and "unat level < 6"
  shows "length (log_text (bytes ''X86ACPI'') level me) < 256"
proof -
  have "length (ansiColors ! unat level) < 20"
    using assms(2) by (auto simp: ansiColors_def text_defs less_Suc_eq numeral_eq_Suc)
  then show ?thesis using assms(1) by (auto simp: log_text_def log_head_def log_tail_def text_defs)
qed

lemma fits_pending: "lines_fit s (log_text mo level me # lns) t \<Longrightarrow> length (pending t) < 256"
  by (auto simp: log_text_def log_head_def text_defs term_ok_def log_prefix_def lines_fit.simps split: if_splits)

lemma acpi_says:
  fixes s :: "'a acpi_scheme"
  assumes ok: "acpi_ok img t s" and msg: "str_arg (mem s) K msg me" "K \<inter> log_area img (fbCon s) = {}" "length me < 80"
    and level: "unat level < 6" and fits: "lines_fit s [acpi_text level me] t"
  obtains s' where "acpi_log img msg level s = Some s'" "screen_run img {} [acpi_text level me] t s s'" "mcfg s' = mcfg s"
proof -
  have "log_layout img s" "term_rel img s t" using ok by (simp_all add: acpi_ok_def)
  moreover have "str_arg (mem s) K (lit ''X86ACPI'') (bytes ''X86ACPI'')" by (simp add: str_arg_def lit_def bytes_def)
  moreover note msg(1,2) level acpi_text_short [OF msg(3) level]
  moreover have "lines_fit s [log_text (bytes ''X86ACPI'') level me] t" using fits by simp
  ultimately obtain s' where s': "acpi_log img msg level s = Some s'"
      "screen_run img {} [log_text (bytes ''X86ACPI'') level me] t s s'" "console.more s' = console.more s"
    using screen_run_log by blast
  then show thesis using acpi_mcfg_more [OF s'(3)] by (intro that [of s']) simp_all
qed

lemma acpi_says_lit:
  fixes s :: "'a acpi_scheme"
  assumes "acpi_ok img t s" and "0 \<notin> set (bytes w)" "length (bytes w) < 80" "unat level < 6"
    and "lines_fit s [acpi_text level (bytes w)] t"
  obtains s' where "acpi_log img (lit w) level s = Some s'" "screen_run img {} [acpi_text level (bytes w)] t s s'" "mcfg s' = mcfg s"
proof -
  have "lit w = Lit (bytes w)" by (simp add: lit_def bytes_def)
  then have "str_arg (mem s) {} (lit w) (bytes w)" using assms(2,3) by (simp add: str_arg_def)
  from acpi_says [OF assms(1) this _ assms(3-5)] show thesis using that by blast
qed

text \<open>A message composed in a buffer.\<close>

lemma fits_mem [simp]: "term_fits (s\<lparr>mem := m\<rparr>) str t = term_fits s str t" "lines_fit (s\<lparr>mem := m\<rparr>) lns t = lines_fit s lns t"
  by (rule term_fits_size lines_fit_size, simp_all)+

lemma acpi_reports:
  fixes s :: "'a acpi_scheme"
  assumes ok: "acpi_ok img t s" and d: "d \<noteq> 0" "span d 64 \<inter> log_area img (fbCon s) = {}" "span d 64 \<inter> K = {}"
    and args: "args_match (mem s) K ps args" and fmt: "f = fmt_of ps" "0 \<notin> set f"
    and out: "me = out_of ps" "0 \<notin> set me" "length me < 64"
    and level: "unat level < 6" and fits: "lines_fit s [acpi_text level me] t"
  obtains s1 s' where "sprintf d (Lit f) args s = Some (int (length me), s1)" "acpi_log img (Addr d) level s1 = Some s'"
    "screen_run img (span d 64) [acpi_text level me] t s s'" "mcfg s' = mcfg s"
proof -
  let ?m = "store_bytes (mem s) d (me @ [0])"
  let ?s1 = "s\<lparr>mem := ?m\<rparr>"
  have sub: "span d (length me) \<subseteq> span d 64" using out(3) by (intro span_mono) simp
  have "at_rest (mem s) K (Lit f) (fmt_of ps)" using fmt by (simp add: at_rest_def)
  from sprintf_pieces [OF args this d(1)] have pr: "sprintf d (Lit f) args s = Some (int (length me), ?s1)"
    using out sub d(3) by auto
  have "length (pending t) < 256" using fits by (intro fits_pending [of s "bytes ''X86ACPI''" level me "[]"]) simp
  moreover have "?m b = mem s b" if "b \<notin> span d 64" for b using that out(3) by (intro store_in_buffer)
  ultimately have run1: "screen_run img (span d 64) [] t s ?s1"
    using ok d(2) by (intro screen_run_mem) (auto simp: acpi_ok_def)
  have ok1: "acpi_ok img t ?s1" using acpi_ok_run [OF ok run1] by simp
  have "str_arg (mem ?s1) (span d 64) (Addr d) me" using str_in_buffer [OF d(1) out(2), of 64 "mem s"] out(3) by simp
  moreover have "lines_fit ?s1 [acpi_text level me] t" using fits by simp
  moreover have "span d 64 \<inter> log_area img (fbCon ?s1) = {}" using d(2) by simp
  ultimately obtain s' where s': "acpi_log img (Addr d) level ?s1 = Some s'"
      "screen_run img {} [acpi_text level me] t ?s1 s'" "mcfg s' = mcfg ?s1"
    using out(3) level by (elim acpi_says [OF ok1]) simp_all
  have "screen_run img (span d 64) ([] @ [acpi_text level me]) t s s'"
    using screen_run_trans [OF run1, of "[acpi_text level me]"] screen_run_weaken [OF s'(2)] by simp
  then show thesis using that [OF pr s'(1)] s'(3) by simp
qed

lemma levels: "unat LOGLEVEL_INFO < 6" "unat LOGLEVEL_WARN < 6" "unat LOGLEVEL_FATAL < 6"
  by (simp_all add: LOGLEVEL_defs)

text \<open>Runs after one another, and what may have changed between the first state and the last.\<close>

lemma run_step:
  assumes "screen_run img A xs t s s1" "A \<subseteq> C" "screen_run img B ys (lines_shown (unat (TTY_Width s)) xs t) s1 s2" "B \<subseteq> C"
  shows "screen_run img C (xs @ ys) t s s2"
  using screen_run_trans [OF screen_run_weaken [OF assms(1,2)] screen_run_weaken [OF assms(3,4)]] .

lemma run_mem_step:
  assumes "screen_run img A xs t s s1" "A \<subseteq> C" "screen_run img B [] (lines_shown (unat (TTY_Width s)) xs t) s1 s2" "B \<subseteq> C"
  shows "screen_run img C xs t s s2"
  using run_step [OF assms] by simp

lemma acpi_tmp_sub:
  "span (ACPI_str_at img) 64 \<subseteq> acpi_tmp img" "span (ACPI_OEMID_at img) 7 \<subseteq> acpi_tmp img"
  "span (checksum_str_at img) 64 \<subseteq> acpi_tmp img" "{} \<subseteq> acpi_tmp img"
  by (auto simp: acpi_tmp_def)

lemma run_fits: "screen_run img A lns t s s' \<Longrightarrow> lines_fit s' ys u = lines_fit s ys u"
  using run_size lines_fit_size by blast

section \<open>The OEM fields\<close>

lemma memory_run:
  fixes s :: "'a acpi_scheme"
  assumes "acpi_ok img t s" and "length (pending t) < 256" and "A \<inter> log_area img (fbCon s) = {}" and "\<And>b. b \<notin> A \<Longrightarrow> m b = mem s b"
  shows "screen_run img A [] t s (s\<lparr>mem := m\<rparr>)" "acpi_ok img t (s\<lparr>mem := m\<rparr>)"
proof -
  show run: "screen_run img A [] t s (s\<lparr>mem := m\<rparr>)"
    using assms by (intro screen_run_mem) (simp_all add: acpi_ok_def)
  show "acpi_ok img t (s\<lparr>mem := m\<rparr>)" using acpi_ok_run [OF assms(1) run] by simp
qed

definition oem_area :: "image \<Rightarrow> addr set" where
  "oem_area img = span (ACPI_OEMID_at img) 7 \<union> span (ACPI_str_at img) 64"

lemma room_facts:
  assumes "acpi_room img f"
  shows "oem_area img \<inter> log_area img f = {}" "span (ACPI_str_at img) 64 \<inter> log_area img f = {}"
    "span (checksum_str_at img) 64 \<inter> log_area img f = {}" "acpi_scratch img \<inter> log_area img f = {}"
    "span (ACPI_sig_at img) 5 \<inter> log_area img f = {}" "span (ACPI_OEMID_at img) 7 \<inter> log_area img f = {}"
    "span (ACPI_str_at img) 64 \<inter> span (ACPI_OEMID_at img) 7 = {}"
    "span (ACPI_str_at img) 64 \<inter> span (ACPI_sig_at img) 5 = {}"
    "acpi_tmp img \<inter> log_area img f = {}"
    "ACPI_str_at img \<noteq> 0" "ACPI_OEMID_at img \<noteq> 0" "checksum_str_at img \<noteq> 0" "ACPI_sig_at img \<noteq> 0"
  using assms by (auto simp: acpi_room_def acpi_tmp_def oem_area_def acpi_image_def acpi_scratch_def)

text \<open>A field of six bytes goes into \<open>OEMID\<close>, whose last byte is 0, and from there into a message.\<close>

lemma acpi_oem:
  fixes s :: "'a acpi_scheme"
  assumes ok: "acpi_ok img t s" and nul: "mem s (ACPI_OEMID_at img + 6) = 0"
    and apart: "span (ACPI_OEMID_at img) 7 \<inter> span h 6 = {}"
    and pre: "lit (w @ ''%s'') = Lit (bytes w @ bytes ''%s'')" "plain (bytes w)" "length (bytes w) < 40"
    and fits: "lines_fit s [acpi_text LOGLEVEL_INFO (bytes w @ text_of (load_bytes (mem s) h 6))] t"
  defines "s1 \<equiv> s\<lparr>mem := memcpy (ACPI_OEMID_at img) (Addr h) 6 (mem s)\<rparr>"
    and "l \<equiv> acpi_text LOGLEVEL_INFO (bytes w @ text_of (load_bytes (mem s) h 6))"
  obtains n s2 s' where "sprintf (ACPI_str_at img) (lit (w @ ''%s'')) [VPtr (Addr (ACPI_OEMID_at img))] s1 = Some (n, s2)"
    "acpi_log img (Addr (ACPI_str_at img)) LOGLEVEL_INFO s2 = Some s'"
    "screen_run img (oem_area img) [l] t s s'" "mcfg s' = mcfg s" "mem s' (ACPI_OEMID_at img + 6) = 0"
proof -
  let ?g = "ACPI_OEMID_at img" and ?d = "ACPI_str_at img" and ?field = "text_of (load_bytes (mem s) h 6)"
  let ?ps = "map PChar (bytes w) @ [PStr ?field]"
  have room: "acpi_room img (fbCon s)" using ok by (simp add: acpi_ok_def)
  note rf = room_facts [OF room]
  have "span ?g (Suc 6) \<inter> span h 6 = {}" "mem s (?g + of_nat 6) = 0" using apart nul by (simp_all add: numeral_eq_Suc)
  note copy = copy_field [where n = 6 and m = "mem s", OF this, simplified]
  have g6: "span ?g (Suc 6) = span ?g 7" by (simp add: numeral_eq_Suc)
  have pend: "length (pending t) < 256" using fits by (intro fits_pending [of s "bytes ''X86ACPI''" LOGLEVEL_INFO _ "[]"]) simp
  have "mem s1 b = mem s b" if "b \<notin> span ?g 7" for b using copy(3) [of b] that by (simp add: s1_def g6)
  then have run1: "screen_run img (span ?g 7) [] t s s1" and ok1: "acpi_ok img t s1"
    using memory_run [OF ok pend rf(6), of "mem s1"] by (simp_all add: s1_def)
  have arg: "str_arg (mem s1) (span ?g 7) (Addr ?g) ?field" using copy(4) rf(11) by (simp add: s1_def g6)
  have args: "args_match (mem s1) (span ?g 7) ?ps [VPtr (Addr ?g)]" using arg pre(2) by (simp del: map_append)
  have spec: "bytes ''%s'' = [0x25, 0x73]" by (simp add: bytes_def)
  have fmt: "bytes w @ bytes ''%s'' = fmt_of ?ps" by (simp add: spec)
  have nz: "0 \<notin> set (bytes w)" using pre(2) by (auto simp: plain_def)
  have "length ?field \<le> 6" using length_text_of [of "load_bytes (mem s) h 6"] by simp
  then have out: "bytes w @ ?field = out_of ?ps" "0 \<notin> set (bytes w @ ?field)" "length (bytes w @ ?field) < 64"
    using pre(3) nz text_of_nonzero by auto
  have "0 \<notin> set (bytes w @ bytes ''%s'')" using nz by (simp add: spec)
  moreover have "lines_fit s1 [acpi_text LOGLEVEL_INFO (bytes w @ ?field)] t"
    using fits by (simp add: s1_def)
  moreover have "span ?d 64 \<inter> log_area img (fbCon s1) = {}" using rf(2) by (simp add: s1_def)
  moreover have "unat LOGLEVEL_INFO < 6" by (simp add: LOGLEVEL_defs)
  ultimately obtain s2 s' where s': "sprintf ?d (Lit (bytes w @ bytes ''%s'')) [VPtr (Addr ?g)] s1 = Some (int (length (bytes w @ ?field)), s2)"
      "acpi_log img (Addr ?d) LOGLEVEL_INFO s2 = Some s'" "screen_run img (span ?d 64) [l] t s1 s'" "mcfg s' = mcfg s1"
    using acpi_reports [OF ok1 rf(10) _ rf(7) args fmt _ out] unfolding l_def by blast
  have "screen_run img (oem_area img) ([] @ [l]) t s s'"
    using screen_run_trans [OF screen_run_weaken [OF run1, of "oem_area img"], of "[l]" s'] screen_run_weaken [OF s'(3), of "oem_area img"]
    by (simp add: oem_area_def)
  moreover have "?g + 6 \<in> span ?g 7" using span_nth [of 6 7 ?g] by simp
  then have "mem s' (?g + 6) = mem s1 (?g + 6)" using rf(6,7) run_keeps [OF s'(3)] by (auto simp: s1_def)
  ultimately show thesis using that [of _ s2 s'] s' copy(2) pre(1) by (simp add: s1_def)
qed

text \<open>The first time the buffer is cleared before.\<close>

lemma acpi_oem_cleared:
  fixes s :: "'a acpi_scheme"
  assumes ok: "acpi_ok img t s" and apart: "oem_area img \<inter> span h 6 = {}"
    and pre: "lit (w @ ''%s'') = Lit (bytes w @ bytes ''%s'')" "plain (bytes w)" "length (bytes w) < 40"
    and fits: "lines_fit s [acpi_text LOGLEVEL_INFO (bytes w @ text_of (load_bytes (mem s) h 6))] t"
  defines "m1 \<equiv> store_bytes (mem s) (ACPI_OEMID_at img) (replicate 7 0)"
    and "l \<equiv> acpi_text LOGLEVEL_INFO (bytes w @ text_of (load_bytes (mem s) h 6))"
  obtains n s2 s' where "sprintf (ACPI_str_at img) (lit (w @ ''%s'')) [VPtr (Addr (ACPI_OEMID_at img))]
      (s\<lparr>mem := memcpy (ACPI_OEMID_at img) (Addr h) 6 m1\<rparr>) = Some (n, s2)"
    "acpi_log img (Addr (ACPI_str_at img)) LOGLEVEL_INFO s2 = Some s'"
    "screen_run img (oem_area img) [l] t s s'" "mcfg s' = mcfg s" "mem s' (ACPI_OEMID_at img + 6) = 0"
proof -
  let ?g = "ACPI_OEMID_at img" and ?d = "ACPI_str_at img" and ?s1 = "s\<lparr>mem := m1\<rparr>"
  have room: "acpi_room img (fbCon s)" using ok by (simp add: acpi_ok_def)
  note rf = room_facts [OF room]
  have sub: "span ?g 7 \<subseteq> oem_area img" by (simp add: oem_area_def)
  have keep: "m1 b = mem s b" if "b \<notin> span ?g 7" for b
    unfolding m1_def using that by (intro store_bytes_frame) simp
  note run1 = memory_run [OF ok fits_pending [OF fits] rf(6) keep]
  have field: "load_bytes (mem ?s1) h 6 = load_bytes (mem s) h 6"
    using apart sub keep by (auto intro!: load_bytes_cong)
  have "load_bytes m1 ?g 7 ! 6 = replicate 7 0 ! 6"
    using load_store_bytes [of "replicate 7 (0 :: u8)" "mem s" ?g] by (simp add: m1_def)
  then have nul: "mem ?s1 (?g + 6) = 0" using nth_load_bytes [of 6 7 m1 ?g] by simp
  have fits1: "lines_fit ?s1 [acpi_text LOGLEVEL_INFO (bytes w @ text_of (load_bytes (mem ?s1) h 6))] t"
    using fits unfolding field by simp
  have "span ?g 7 \<inter> span h 6 = {}" using apart sub by blast
  from acpi_oem [OF run1(2) nul this pre fits1] obtain n s2 s' where
    s': "sprintf ?d (lit (w @ ''%s'')) [VPtr (Addr ?g)] (?s1\<lparr>mem := memcpy ?g (Addr h) 6 (mem ?s1)\<rparr>) = Some (n, s2)"
      "acpi_log img (Addr ?d) LOGLEVEL_INFO s2 = Some s'" "screen_run img (oem_area img) [l] t ?s1 s'"
      "mcfg s' = mcfg ?s1" "mem s' (?g + 6) = 0"
    unfolding l_def field by blast
  have "screen_run img (oem_area img) ([] @ [l]) t s s'"
    using run_step [OF run1(1) sub _ subset_refl, of "[l]" s'] s'(3) by simp
  then show thesis using that [of n s2 s'] s' by simp
qed

section \<open>The root pointer\<close>


definition rsdp_lines :: "memory \<Rightarrow> addr \<Rightarrow> u8 list list" where
  "rsdp_lines m p =
     [acpi_text LOGLEVEL_INFO (bytes ''Found ACPI Tables at address '' @ pointer_out p @ bytes ''!''),
      acpi_text LOGLEVEL_INFO (bytes (if RSDP_revision m p = 0 then ''ACPI Revision 1.0'' else ''ACPI Revision >= 2.0'')),
      acpi_text LOGLEVEL_INFO (bytes ''OEM ID: '' @ text_of (load_bytes m (RSDP_OEMId p) 6))]"

lemma pointer_out_text: "length (pointer_out a) = 18" "0 \<notin> set (pointer_out a)"
proof -
  have "length (base_digits 16 (unat a)) \<le> 16"
    using base_digits_length [of 16 "unat a" 16] unsigned_less [of a] by simp
  then show "length (pointer_out a) = 18" by (simp add: pointer_out_def)
  show "0 \<notin> set (pointer_out a)" using base_digits_nonzero [of 16 "unat a"] by (simp add: pointer_out_def)
qed

text \<open>The first message, with the address of the structure.\<close>

lemma acpi_found:
  fixes s :: "'a acpi_scheme"
  assumes ok: "acpi_ok img t s"
    and fits: "lines_fit s [acpi_text LOGLEVEL_INFO (bytes ''Found ACPI Tables at address '' @ pointer_out p @ bytes ''!'')] t"
  obtains n s1 s' where "sprintf (ACPI_str_at img) (lit ''Found ACPI Tables at address %p!'') [VPtr (Addr p)] s = Some (n, s1)"
    "acpi_log img (Addr (ACPI_str_at img)) LOGLEVEL_INFO s1 = Some s'"
    "screen_run img (span (ACPI_str_at img) 64)
       [acpi_text LOGLEVEL_INFO (bytes ''Found ACPI Tables at address '' @ pointer_out p @ bytes ''!'')] t s s'" "mcfg s' = mcfg s"
proof -
  let ?head = "bytes ''Found ACPI Tables at address ''"
  let ?ps = "map PChar ?head @ [PPtr p] @ map PChar (bytes ''!'')"
  have room: "acpi_room img (fbCon s)" using ok by (simp add: acpi_ok_def)
  note rf = room_facts [OF room]
  have "plain ?head" "plain (bytes ''!'')" by (simp_all add: plain_def bytes_def)
  then have args: "args_match (mem s) {} ?ps [VPtr (Addr p)]" by (simp del: map_append)
  have fmt: "?head @ bytes ''%p!'' = fmt_of ?ps" "0 \<notin> set (?head @ bytes ''%p!'')" by (simp_all add: bytes_def)
  have out: "?head @ pointer_out p @ bytes ''!'' = out_of ?ps" by simp
  have "0 \<notin> set ?head" "0 \<notin> set (bytes ''!'')" "length ?head = 29" "length (bytes ''!'') = 1" by (simp_all add: bytes_def)
  then have ok_out: "0 \<notin> set (?head @ pointer_out p @ bytes ''!'')" "length (?head @ pointer_out p @ bytes ''!'') < 64"
    using pointer_out_text by auto
  have f: "lit ''Found ACPI Tables at address %p!'' = Lit (?head @ bytes ''%p!'')" by (simp add: lit_def bytes_def)
  show thesis
  proof (rule acpi_reports [OF ok rf(10,2) _ args fmt out ok_out levels(1) fits])
    fix s1 s'
    assume "sprintf (ACPI_str_at img) (Lit (?head @ bytes ''%p!'')) [VPtr (Addr p)] s =
        Some (int (length (?head @ pointer_out p @ bytes ''!'')), s1)"
      "acpi_log img (Addr (ACPI_str_at img)) LOGLEVEL_INFO s1 = Some s'"
      "screen_run img (span (ACPI_str_at img) 64) [acpi_text LOGLEVEL_INFO (?head @ pointer_out p @ bytes ''!'')] t s s'"
      "mcfg s' = mcfg s"
    then show thesis unfolding f [symmetric] by (rule that)
  qed simp
qed

lemma rsdp_cong:
  assumes "\<forall>b\<in>span p 20. m' b = m b"
  shows "RSDP_revision m' p = RSDP_revision m p" "RSDP_RSDTAddress m' p = RSDP_RSDTAddress m p"
    "load_bytes m' (RSDP_OEMId p) 6 = load_bytes m (RSDP_OEMId p) 6"
proof -
  show "RSDP_revision m' p = RSDP_revision m p" using assms span_nth [of 15 20 p] by (simp add: RSDP_revision_def)
  have "span (p + 16) 4 \<subseteq> span p 20" "span (p + 9) 6 \<subseteq> span p 20" using span_sub [of 16 4 20 p] span_sub [of 9 6 20 p] by simp_all
  then show "RSDP_RSDTAddress m' p = RSDP_RSDTAddress m p" "load_bytes m' (RSDP_OEMId p) 6 = load_bytes m (RSDP_OEMId p) 6"
    unfolding RSDP_RSDTAddress_def RSDP_OEMId_def using assms by (auto intro!: c32.ld_cong load_bytes_cong)
qed

lemma acpi_rsdp_run:
  fixes s :: "'a acpi_scheme"
  assumes ok: "acpi_ok img t s"
    and apart: "span p 20 \<inter> (acpi_tmp img \<union> log_area img (fbCon s)) = {}"
    and fits: "lines_fit s (rsdp_lines (mem s) p) t"
  obtains s' where "acpi_rsdp img p s = Some s'" "screen_run img (acpi_tmp img) (rsdp_lines (mem s) p) t s s'" "mcfg s' = mcfg s"
    "mem s' (ACPI_OEMID_at img + 6) = 0" "RSDP_RSDTAddress (mem s') p = RSDP_RSDTAddress (mem s) p"
proof -
  let ?W = "unat (TTY_Width s)" and ?g = "ACPI_OEMID_at img" and ?d = "ACPI_str_at img"
  let ?w = "if RSDP_revision (mem s) p = 0 then ''ACPI Revision 1.0'' else ''ACPI Revision >= 2.0''"
  let ?l1 = "acpi_text LOGLEVEL_INFO (bytes ''Found ACPI Tables at address '' @ pointer_out p @ bytes ''!'')"
    and ?l2 = "acpi_text LOGLEVEL_INFO (bytes ?w)"
    and ?l3 = "acpi_text LOGLEVEL_INFO (bytes ''OEM ID: '' @ text_of (load_bytes (mem s) (RSDP_OEMId p) 6))"
  have lns: "rsdp_lines (mem s) p = ([?l1] @ [?l2]) @ [?l3]" by (simp add: rsdp_lines_def)
  have fit: "lines_fit s [?l1] t" "lines_fit s [?l2] (lines_shown ?W [?l1] t)"
      "lines_fit s [?l3] (lines_shown ?W ([?l1] @ [?l2]) t)"
    using fits unfolding lns lines_fit_append by blast+
  have keep: "\<forall>b\<in>span p 20. mem s' b = mem s b" if "screen_run img (acpi_tmp img) xs t s s'" for s' xs
    using apart run_keeps [OF that] by blast
  obtain n s1 s2 where s2: "sprintf ?d (lit ''Found ACPI Tables at address %p!'') [VPtr (Addr p)] s = Some (n, s1)"
      "acpi_log img (Addr ?d) LOGLEVEL_INFO s1 = Some s2" "screen_run img (span ?d 64) [?l1] t s s2" "mcfg s2 = mcfg s"
    by (rule acpi_found [OF ok fit(1)])
  have "0 \<notin> set (bytes ?w)" "length (bytes ?w) < 80" by (simp_all add: bytes_def)
  then obtain s3 where s3: "acpi_log img (lit ?w) LOGLEVEL_INFO s2 = Some s3"
      "screen_run img {} [?l2] (lines_shown ?W [?l1] t) s2 s3" "mcfg s3 = mcfg s2"
    using acpi_says_lit [OF acpi_ok_run [OF ok s2(3)] _ _ levels(1)] fit(2) run_fits [OF s2(3)] by blast
  note run3 = run_step [OF s2(3) acpi_tmp_sub(1) s3(2) acpi_tmp_sub(4)]
  note cong2 = rsdp_cong [OF keep [OF screen_run_weaken [OF s2(3) acpi_tmp_sub(1)]]]
  note cong3 = rsdp_cong [OF keep [OF run3]]
  have "span (RSDP_OEMId p) 6 \<subseteq> span p 20" using span_sub [of 9 6 20 p] by (simp add: RSDP_OEMId_def)
  then have oem: "oem_area img \<inter> span (RSDP_OEMId p) 6 = {}" using apart by (auto simp: acpi_tmp_def oem_area_def)
  have w: "lit (''OEM ID: '' @ ''%s'') = Lit (bytes ''OEM ID: '' @ bytes ''%s'')" "plain (bytes ''OEM ID: '')"
    "length (bytes ''OEM ID: '') < 40" by (simp_all add: lit_def bytes_def plain_def)
  have fit3: "lines_fit s3 [?l3] (lines_shown ?W ([?l1] @ [?l2]) t)" using fit(3) by (simp only: run_fits [OF run3])
  obtain n' s5 s6 where s6: "sprintf ?d (lit (''OEM ID: '' @ ''%s'')) [VPtr (Addr ?g)]
        (s3\<lparr>mem := memcpy ?g (Addr (RSDP_OEMId p)) 6 (store_bytes (mem s3) ?g (replicate 7 0))\<rparr>) = Some (n', s5)"
      "acpi_log img (Addr ?d) LOGLEVEL_INFO s5 = Some s6"
      "screen_run img (oem_area img) [?l3] (lines_shown ?W ([?l1] @ [?l2]) t) s3 s6" "mcfg s6 = mcfg s3" "mem s6 (?g + 6) = 0"
    by (rule acpi_oem_cleared [OF acpi_ok_run [OF ok run3] oem w, unfolded cong3(3), OF fit3])
  have run6: "screen_run img (acpi_tmp img) (rsdp_lines (mem s) p) t s s6"
    unfolding lns by (rule run_step [OF run3 subset_refl s6(3)]) (auto simp: acpi_tmp_def oem_area_def)
  note cong6 = rsdp_cong [OF keep [OF run6]]
  have "acpi_rsdp img p s = Some s6"
    unfolding acpi_rsdp_def Let_def using s2(1,2) s3(1) s6(1,2) by (simp add: cong2 if_distrib [of lit])
  then show thesis using that [of s6] run6 s6(4,5) s3(3) s2(4) cong6(2) by simp
qed

section \<open>The root table\<close>

text \<open>Its signature in \<open>sig\<close>.\<close>

lemma acpi_sig:
  fixes s :: "'a acpi_scheme"
  assumes ok: "acpi_ok img t s" and pending: "length (pending t) < 256" and apart: "span (ACPI_sig_at img) 5 \<inter> span r 4 = {}"
  defines "m' \<equiv> memcpy (ACPI_sig_at img) (Addr r) 4 (store_bytes (mem s) (ACPI_sig_at img) (replicate 5 0))"
  shows "screen_run img (span (ACPI_sig_at img) 5) [] t s (s\<lparr>mem := m'\<rparr>)" "acpi_ok img t (s\<lparr>mem := m'\<rparr>)"
    "str_arg m' (span (ACPI_sig_at img) 5) (Addr (ACPI_sig_at img)) (text_of (load_bytes (mem s) r 4))"
    "m' (ACPI_sig_at img + 4) = 0"
proof -
  let ?g = "ACPI_sig_at img" and ?m = "store_bytes (mem s) (ACPI_sig_at img) (replicate 5 0)"
  have room: "acpi_room img (fbCon s)" using ok by (simp add: acpi_ok_def)
  note rf = room_facts [OF room]
  have keep: "?m b = mem s b" if "b \<notin> span ?g 5" for b using that by (intro store_bytes_frame) simp
  have "load_bytes ?m ?g 5 ! 4 = replicate 5 0 ! 4" using load_store_bytes [of "replicate 5 (0 :: u8)" "mem s" ?g] by simp
  then have nul: "?m (?g + of_nat 4) = 0" using nth_load_bytes [of 4 5 ?m ?g] by simp
  have g5: "span ?g (Suc 4) = span ?g 5" by (simp add: numeral_eq_Suc)
  have "span ?g (Suc 4) \<inter> span r 4 = {}" using apart by (simp only: g5)
  note copy = copy_field [where n = 4 and m = ?m, OF this nul, simplified, folded m'_def]
  have field: "load_bytes ?m r 4 = load_bytes (mem s) r 4" using apart keep by (auto intro!: load_bytes_cong)
  have "m' b = mem s b" if "b \<notin> span ?g 5" for b using copy(3) [of b] keep that by (simp add: g5)
  from memory_run [OF ok pending rf(5) this]
  show "screen_run img (span ?g 5) [] t s (s\<lparr>mem := m'\<rparr>)" "acpi_ok img t (s\<lparr>mem := m'\<rparr>)" by blast+
  show "str_arg m' (span ?g 5) (Addr ?g) (text_of (load_bytes (mem s) r 4))" using copy(4) rf(13) by (simp add: field g5 del: load_bytes.simps)
  show "m' (?g + 4) = 0" using copy(2) by simp
qed

definition padded :: "u8 list \<Rightarrow> u8 list" where
  "padded u = u @ replicate (4 - length u) 0x20"

lemma acpi_sig_report:
  fixes s :: "'a acpi_scheme"
  assumes ok: "acpi_ok img t s" and arg: "str_arg (mem s) (span (ACPI_sig_at img) 5) (Addr (ACPI_sig_at img)) u" "length u \<le> 4"
    and w: "plain w" "length w \<le> 57" and level: "unat level < 6"
    and fits: "lines_fit s [acpi_text level (w @ [0x22] @ padded u @ [0x22])] t"
  obtains n s1 s' where "sprintf (ACPI_str_at img) (Lit (w @ [0x22] @ bytes ''%-4s'' @ [0x22])) [VPtr (Addr (ACPI_sig_at img))] s = Some (n, s1)"
    "acpi_log img (Addr (ACPI_str_at img)) level s1 = Some s'"
    "screen_run img (span (ACPI_str_at img) 64) [acpi_text level (w @ [0x22] @ padded u @ [0x22])] t s s'" "mcfg s' = mcfg s"
proof -
  let ?ps = "map PChar (w @ [0x22]) @ [PStrLeft 4 u] @ map PChar [0x22]"
  have room: "acpi_room img (fbCon s)" using ok by (simp add: acpi_ok_def)
  note rf = room_facts [OF room]
  have "plain (w @ [0x22])" "plain [0x22]" using w(1) by (simp_all add: plain_def)
  then have args: "args_match (mem s) (span (ACPI_sig_at img) 5) ?ps [VPtr (Addr (ACPI_sig_at img))]"
    using arg(1) by (simp del: map_append)
  have spec: "bytes ''%-4s'' = [0x25, 0x2D, 0x34, 0x73]" by (simp add: bytes_def)
  have nz: "0 \<notin> set w" using w(1) by (auto simp: plain_def)
  have fmt: "w @ [0x22] @ bytes ''%-4s'' @ [0x22] = fmt_of ?ps" "0 \<notin> set (w @ [0x22] @ bytes ''%-4s'' @ [0x22])"
    using nz by (simp_all add: spec)
  have "0 \<notin> set u" using arg(1) by (simp add: str_arg_def cstr_def)
  then have out: "w @ [0x22] @ padded u @ [0x22] = out_of ?ps" "0 \<notin> set (w @ [0x22] @ padded u @ [0x22])"
      "length (w @ [0x22] @ padded u @ [0x22]) < 64"
    using nz arg(2) w(2) by (auto simp: padded_def)
  show thesis by (rule acpi_reports [OF ok rf(10,2,8) args fmt out level fits], rule that)
qed

text \<open>The checksum and what is said about it.\<close>

definition checksum_line :: "int \<Rightarrow> u8 list" where
  "checksum_line sm =
     (if sm = 0 then acpi_text LOGLEVEL_INFO (bytes ''ACPI RSDT Checksum passed.'')
      else acpi_text LOGLEVEL_WARN (bytes ''Checksum wrong by '' @ int_out 10 False (unat (of_int sm :: u64))))"

lemma decimal_text: "0 \<notin> set (int_out 10 False (unat (v :: u64)))" "length (int_out 10 False (unat v)) \<le> 20"
proof -
  have "unat v < 2 ^ 64" using unsigned_less [of v] by simp
  then have "unat v < 10 ^ 20" by (rule less_le_trans) simp
  then show "length (int_out 10 False (unat v)) \<le> 20" using base_digits_length [of 10 "unat v" 20] by (simp add: int_out_def)
  show "0 \<notin> set (int_out 10 False (unat v))" by (simp add: int_out_def base_digits_nonzero)
qed

lemma acpi_checksum:
  fixes s :: "'a acpi_scheme"
  assumes ok: "acpi_ok img t s" and sm: "sm = signed_sum (table_bytes (mem s) r)" and fits: "lines_fit s [checksum_line sm] t"
  obtains b s1 s' where "doChecksum img r s = Some (b, s1)"
    "(if b then acpi_log img (lit ''ACPI RSDT Checksum passed.'') LOGLEVEL_INFO s1 else Some s1) = Some s'"
    "screen_run img (span (checksum_str_at img) 64) [checksum_line sm] t s s'" "mcfg s' = mcfg s"
proof (cases "sm = 0")
  case True
  then have "doChecksum img r s = Some (True, s)" using sm by (simp add: doChecksum_def checksum_zero Let_def)
  moreover have w: "0 \<notin> set (bytes ''ACPI RSDT Checksum passed.'')" "length (bytes ''ACPI RSDT Checksum passed.'') < 80"
    by (simp_all add: bytes_def)
  have "lines_fit s [acpi_text LOGLEVEL_INFO (bytes ''ACPI RSDT Checksum passed.'')] t"
    using fits True by (simp add: checksum_line_def)
  then obtain s' where s': "acpi_log img (lit ''ACPI RSDT Checksum passed.'') LOGLEVEL_INFO s = Some s'"
      "screen_run img {} [acpi_text LOGLEVEL_INFO (bytes ''ACPI RSDT Checksum passed.'')] t s s'" "mcfg s' = mcfg s"
    by (rule acpi_says_lit [OF ok w levels(1)])
  moreover have "screen_run img (span (checksum_str_at img) 64) [checksum_line sm] t s s'"
    using screen_run_weaken [OF s'(2) empty_subsetI] True by (simp add: checksum_line_def)
  ultimately show thesis using that [of True s s'] by simp
next
  case False
  let ?v = "of_int sm :: u64" and ?w = "bytes ''Checksum wrong by ''" and ?d = "checksum_str_at img"
  let ?ps = "map PChar ?w @ [PUnsLong ?v]"
  have room: "acpi_room img (fbCon s)" using ok by (simp add: acpi_ok_def)
  note rf = room_facts [OF room]
  have "plain ?w" by (simp add: plain_def bytes_def)
  then have args: "args_match (mem s) {} ?ps [VInt ?v]" by (simp del: map_append)
  have fmt: "?w @ bytes ''%lu'' = fmt_of ?ps" "0 \<notin> set (?w @ bytes ''%lu'')" by (simp_all add: bytes_def)
  have "0 \<notin> set ?w" "length ?w = 18" by (simp_all add: bytes_def)
  then have out: "?w @ int_out 10 False (unat ?v) = out_of ?ps" "0 \<notin> set (?w @ int_out 10 False (unat ?v))"
      "length (?w @ int_out 10 False (unat ?v)) < 64"
    using decimal_text [of ?v] by auto
  have line: "checksum_line sm = acpi_text LOGLEVEL_WARN (?w @ int_out 10 False (unat ?v))" using False by (simp add: checksum_line_def)
  obtain s1 s' where s': "sprintf ?d (Lit (?w @ bytes ''%lu'')) [VInt ?v] s = Some (int (length (?w @ int_out 10 False (unat ?v))), s1)"
      "acpi_log img (Addr ?d) LOGLEVEL_WARN s1 = Some s'"
      "screen_run img (span ?d 64) [acpi_text LOGLEVEL_WARN (?w @ int_out 10 False (unat ?v))] t s s'" "mcfg s' = mcfg s"
    by (rule acpi_reports [OF ok rf(12,3) Int_empty_right args fmt out levels(2) fits [unfolded line]])
  have "lit ''Checksum wrong by %lu'' = Lit (?w @ bytes ''%lu'')" by (simp add: lit_def bytes_def)
  moreover have "checksum_loop (mem s) r 0 0 = ?v" using checksum_loop_sum [of 0 "mem s" r 0] sm by simp
  moreover have "?v \<noteq> 0" using False checksum_zero [of "mem s" r] calculation(2) sm by metis
  ultimately have "doChecksum img r s = Some (False, s')" using s'(1,2) by (simp add: doChecksum_def Let_def)
  then show thesis using that [of False s' s'] s'(3,4) by (simp add: line)
qed

text \<open>The revision.\<close>

lemma acpi_revision:
  fixes s :: "'a acpi_scheme"
  assumes ok: "acpi_ok img t s"
    and fits: "lines_fit s [acpi_text LOGLEVEL_INFO (bytes ''RSDT OEM Revision: '' @ int_out 10 False (unat (v :: u32)))] t"
  obtains n s1 s' where "sprintf (ACPI_str_at img) (lit ''RSDT OEM Revision: %u'') [VInt (ucast v)] s = Some (n, s1)"
    "acpi_log img (Addr (ACPI_str_at img)) LOGLEVEL_INFO s1 = Some s'"
    "screen_run img (span (ACPI_str_at img) 64) [acpi_text LOGLEVEL_INFO (bytes ''RSDT OEM Revision: '' @ int_out 10 False (unat v))] t s s'"
    "mcfg s' = mcfg s"
proof -
  let ?w = "bytes ''RSDT OEM Revision: ''"
  let ?ps = "map PChar ?w @ [PUns v]"
  have room: "acpi_room img (fbCon s)" using ok by (simp add: acpi_ok_def)
  note rf = room_facts [OF room]
  have "plain ?w" by (simp add: plain_def bytes_def)
  moreover have "(ucast (ucast v :: u64) :: u32) = v" by (intro bit_word_eqI) (simp add: bit_simps)
  ultimately have args: "args_match (mem s) {} ?ps [VInt (ucast v)]" by (simp del: map_append)
  have fmt: "?w @ bytes ''%u'' = fmt_of ?ps" "0 \<notin> set (?w @ bytes ''%u'')" by (simp_all add: bytes_def)
  have "unat (ucast v :: u64) = unat v" by (rule unat_ucast_32_64)
  then have "0 \<notin> set (int_out 10 False (unat v))" "length (int_out 10 False (unat v)) \<le> 20"
    using decimal_text [of "ucast v"] by simp_all
  moreover have "0 \<notin> set ?w" "length ?w = 19" by (simp_all add: bytes_def)
  ultimately have out: "?w @ int_out 10 False (unat v) = out_of ?ps" "0 \<notin> set (?w @ int_out 10 False (unat v))"
      "length (?w @ int_out 10 False (unat v)) < 64" by auto
  have f: "lit ''RSDT OEM Revision: %u'' = Lit (?w @ bytes ''%u'')" by (simp add: lit_def bytes_def)
  show thesis by (rule acpi_reports [OF ok rf(10,2) Int_empty_right args fmt out levels(1) fits], rule that, simp only: f)
qed

text \<open>What is read of the table before the loop.\<close>

definition root_area :: "memory \<Rightarrow> addr \<Rightarrow> addr set" where
  "root_area m r = span r (max 36 (unat (SDT_length m r)))"

lemma root_cong:
  assumes "\<forall>b\<in>root_area m r. m' b = m b"
  shows "load_bytes m' r 4 = load_bytes m r 4" "load_bytes m' (SDT_OEMId r) 6 = load_bytes m (SDT_OEMId r) 6"
    "SDT_OEMRevision m' r = SDT_OEMRevision m r" "table_bytes m' r = table_bytes m r" "RSDT_entries m' r = RSDT_entries m r"
    "root_area m' r = root_area m r"
proof -
  have at: "m' b = m b" if "b \<in> span (r + of_nat i) n" "i + n \<le> 36" for b i n
  proof -
    have "span (r + of_nat i) n \<subseteq> root_area m r" unfolding root_area_def using that(2) by (intro span_sub) linarith
    then show ?thesis using assms that(1) by blast
  qed
  have len: "SDT_length m' r = SDT_length m r"
    unfolding SDT_length_def using at [of _ 4 4] by (intro c32.ld_cong) simp
  show "load_bytes m' r 4 = load_bytes m r 4" using at [of _ 0 4] by (intro load_bytes_cong) simp
  show "load_bytes m' (SDT_OEMId r) 6 = load_bytes m (SDT_OEMId r) 6"
    unfolding SDT_OEMId_def using at [of _ 10 6] by (intro load_bytes_cong) simp
  show "SDT_OEMRevision m' r = SDT_OEMRevision m r"
    unfolding SDT_OEMRevision_def using at [of _ 24 4] by (intro c32.ld_cong) simp
  have "span r (unat (SDT_length m r)) \<subseteq> root_area m r" unfolding root_area_def by (intro span_mono) simp
  then show "table_bytes m' r = table_bytes m r"
    unfolding table_bytes_def len using assms by (intro load_bytes_cong) auto
  show "RSDT_entries m' r = RSDT_entries m r" by (simp add: RSDT_entries_def len)
  show "root_area m' r = root_area m r" by (simp add: root_area_def len)
qed

definition rsdt_head :: "memory \<Rightarrow> addr \<Rightarrow> u8 list list" where
  "rsdt_head m r =
     [acpi_text LOGLEVEL_INFO (bytes ''Found ACPI RSDT.  Signature: '' @ [0x22] @ padded (text_of (load_bytes m r 4)) @ [0x22]),
      checksum_line (signed_sum (table_bytes m r)),
      acpi_text LOGLEVEL_INFO (bytes ''RSDT OEM ID: '' @ text_of (load_bytes m (SDT_OEMId r) 6)),
      acpi_text LOGLEVEL_INFO (bytes ''RSDT OEM Revision: '' @ int_out 10 False (unat (SDT_OEMRevision m r)))]"

text \<open>The first two lines.\<close>

lemma rsdt_two_lines:
  fixes s :: "'a acpi_scheme"
  assumes ok: "acpi_ok img t s" and sig: "load_bytes (mem s) r 4 = bytes ''RSDT''"
    and apart: "root_area (mem s) r \<inter> (acpi_tmp img \<union> acpi_scratch img \<union> log_area img (fbCon s)) = {}"
  defines "l1 \<equiv> acpi_text LOGLEVEL_INFO (bytes ''Found ACPI RSDT.  Signature: '' @ [0x22] @ padded (text_of (load_bytes (mem s) r 4)) @ [0x22])"
    and "l2 \<equiv> checksum_line (signed_sum (table_bytes (mem s) r))"
    and "m1 \<equiv> memcpy (ACPI_sig_at img) (Addr r) 4 (store_bytes (mem s) (ACPI_sig_at img) (replicate 5 0))"
  assumes fits: "lines_fit s ([l1] @ [l2]) t"
  obtains n s2 s3 b s4 s' where
    "memcmp m1 (Addr r) (lit ''RSDT'') 4 = 0"
    "sprintf (ACPI_str_at img) (Lit (bytes ''Found ACPI RSDT.  Signature: '' @ [0x22] @ bytes ''%-4s'' @ [0x22]))
       [VPtr (Addr (ACPI_sig_at img))] (s\<lparr>mem := m1\<rparr>) = Some (n, s2)"
    "acpi_log img (Addr (ACPI_str_at img)) LOGLEVEL_INFO s2 = Some s3" "doChecksum img r s3 = Some (b, s4)"
    "(if b then acpi_log img (lit ''ACPI RSDT Checksum passed.'') LOGLEVEL_INFO s4 else Some s4) = Some s'"
    "screen_run img (span (ACPI_str_at img) 64 \<union> span (ACPI_sig_at img) 5 \<union> span (checksum_str_at img) 64) ([l1] @ [l2]) t s s'"
    "mcfg s' = mcfg s" "mem s' (ACPI_sig_at img + 4) = 0"
proof -
  let ?g = "ACPI_sig_at img" and ?d = "ACPI_str_at img" and ?W = "unat (TTY_Width s)" and ?s1 = "s\<lparr>mem := m1\<rparr>"
  let ?C = "span ?d 64 \<union> span ?g 5 \<union> span (checksum_str_at img) 64" and ?u = "text_of (load_bytes (mem s) r 4)"
  have room: "acpi_room img (fbCon s)" using ok by (simp add: acpi_ok_def)
  note rf = room_facts [OF room]
  have fit: "lines_fit s [l1] t" "lines_fit s [l2] (lines_shown ?W [l1] t)" using fits unfolding lines_fit_append by blast+
  have C: "?C \<subseteq> acpi_tmp img \<union> acpi_scratch img" by (auto simp: acpi_tmp_def acpi_scratch_def)
  have keep: "\<forall>b\<in>root_area (mem s) r. mem s' b = mem s b" if "screen_run img ?C xs t s s'" for s' xs
    using apart C run_keeps [OF that] by blast
  have "span r 4 \<subseteq> root_area (mem s) r" unfolding root_area_def by (intro span_mono) simp
  then have "span ?g 5 \<inter> span r 4 = {}" using apart by (auto simp: acpi_scratch_def)
  note sig1 = acpi_sig [OF ok fits_pending [OF fit(1) [unfolded l1_def]] this, folded m1_def]
  have run1: "screen_run img ?C [] t s ?s1" by (rule screen_run_weaken [OF sig1(1)]) blast
  have "load_bytes m1 r 4 = bytes ''RSDT''" using root_cong(1) [OF keep [OF run1]] sig by simp
  then have cmp: "memcmp m1 (Addr r) (lit ''RSDT'') 4 = 0" using memcmp_lit [of "''RSDT''" 4 m1 r] by (simp add: bytes_def)
  have arg: "str_arg (mem ?s1) (span ?g 5) (Addr ?g) ?u" "length ?u \<le> 4"
    using sig1(3) length_text_of [of "load_bytes (mem s) r 4"] by simp_all
  have w: "plain (bytes ''Found ACPI RSDT.  Signature: '')" "length (bytes ''Found ACPI RSDT.  Signature: '') \<le> 57"
    by (simp_all add: plain_def bytes_def)
  have fit1: "lines_fit ?s1 [acpi_text LOGLEVEL_INFO (bytes ''Found ACPI RSDT.  Signature: '' @ [0x22] @ padded ?u @ [0x22])] t"
    using fit(1) unfolding l1_def by (simp del: append_Cons)
  obtain n s2 s3 where s3: "sprintf ?d (Lit (bytes ''Found ACPI RSDT.  Signature: '' @ [0x22] @ bytes ''%-4s'' @ [0x22])) [VPtr (Addr ?g)] ?s1 = Some (n, s2)"
      "acpi_log img (Addr ?d) LOGLEVEL_INFO s2 = Some s3" "screen_run img (span ?d 64) [l1] t ?s1 s3" "mcfg s3 = mcfg ?s1"
    unfolding l1_def by (rule acpi_sig_report [OF sig1(2) arg w levels(1) fit1])
  have run3: "screen_run img ?C [l1] t s s3" using run_step [OF run1 subset_refl, of "span ?d 64" "[l1]" s3] s3(3) by auto
  have fit3: "lines_fit s3 [l2] (lines_shown ?W [l1] t)" using fit(2) by (simp only: run_fits [OF run3])
  have l2: "signed_sum (table_bytes (mem s) r) = signed_sum (table_bytes (mem s3) r)" using root_cong(4) [OF keep [OF run3]] by simp
  obtain b s4 s' where s': "doChecksum img r s3 = Some (b, s4)"
      "(if b then acpi_log img (lit ''ACPI RSDT Checksum passed.'') LOGLEVEL_INFO s4 else Some s4) = Some s'"
      "screen_run img (span (checksum_str_at img) 64) [l2] (lines_shown ?W [l1] t) s3 s'" "mcfg s' = mcfg s3"
    by (rule acpi_checksum [OF acpi_ok_run [OF ok run3] l2 fit3 [unfolded l2_def], folded l2_def])
  have run: "screen_run img ?C ([l1] @ [l2]) t s s'" by (rule run_step [OF run3 subset_refl s'(3)]) blast
  have g4: "?g + 4 \<in> span ?g 5" using span_nth [of 4 5 ?g] by simp
  have "mem s' (?g + 4) = mem s3 (?g + 4)"
    using g4 room rf(5) run_size [OF run3] by (intro run_keeps [OF s'(3)]) (auto simp: acpi_room_def acpi_tmp_def)
  also have "\<dots> = m1 (?g + 4)" using g4 rf(5,8) run_keeps [OF s3(3), of "?g + 4"] by auto
  finally show thesis using that [OF cmp s3(1,2) s'(1,2) run] s'(4) s3(4) sig1(4) by simp
qed

text \<open>The last two lines.\<close>

lemma rsdt_last_lines:
  fixes s :: "'a acpi_scheme"
  assumes ok: "acpi_ok img t s" and nul: "mem s (ACPI_OEMID_at img + 6) = 0"
    and apart: "span r 36 \<inter> (acpi_tmp img \<union> log_area img (fbCon s)) = {}"
  defines "l3 \<equiv> acpi_text LOGLEVEL_INFO (bytes ''RSDT OEM ID: '' @ text_of (load_bytes (mem s) (SDT_OEMId r) 6))"
    and "l4 \<equiv> acpi_text LOGLEVEL_INFO (bytes ''RSDT OEM Revision: '' @ int_out 10 False (unat (SDT_OEMRevision (mem s) r)))"
  assumes fits: "lines_fit s ([l3] @ [l4]) t"
  obtains n s1 s2 n' s3 s' where
    "sprintf (ACPI_str_at img) (lit ''RSDT OEM ID: %s'') [VPtr (Addr (ACPI_OEMID_at img))]
       (s\<lparr>mem := memcpy (ACPI_OEMID_at img) (Addr (SDT_OEMId r)) 6 (mem s)\<rparr>) = Some (n, s1)"
    "acpi_log img (Addr (ACPI_str_at img)) LOGLEVEL_INFO s1 = Some s2"
    "sprintf (ACPI_str_at img) (lit ''RSDT OEM Revision: %u'') [VInt (ucast (SDT_OEMRevision (mem s2) r))] s2 = Some (n', s3)"
    "acpi_log img (Addr (ACPI_str_at img)) LOGLEVEL_INFO s3 = Some s'"
    "screen_run img (oem_area img) ([l3] @ [l4]) t s s'" "mcfg s' = mcfg s"
proof -
  let ?o = "ACPI_OEMID_at img" and ?d = "ACPI_str_at img" and ?W = "unat (TTY_Width s)"
  have fit: "lines_fit s [l3] t" "lines_fit s [l4] (lines_shown ?W [l3] t)" using fits unfolding lines_fit_append by blast+
  have sub: "span (SDT_OEMId r) 6 \<subseteq> span r 36" "span (r + 24) 4 \<subseteq> span r 36"
    unfolding SDT_OEMId_def using span_sub [of 10 6 36 r] span_sub [of 24 4 36 r] by simp_all
  then have oem: "span ?o 7 \<inter> span (SDT_OEMId r) 6 = {}" using apart by (auto simp: acpi_tmp_def)
  have w: "lit (''RSDT OEM ID: '' @ ''%s'') = Lit (bytes ''RSDT OEM ID: '' @ bytes ''%s'')" "plain (bytes ''RSDT OEM ID: '')"
    "length (bytes ''RSDT OEM ID: '') < 40" by (simp_all add: lit_def bytes_def plain_def)
  obtain n s1 s2 where s2: "sprintf ?d (lit (''RSDT OEM ID: '' @ ''%s'')) [VPtr (Addr ?o)]
        (s\<lparr>mem := memcpy ?o (Addr (SDT_OEMId r)) 6 (mem s)\<rparr>) = Some (n, s1)"
      "acpi_log img (Addr ?d) LOGLEVEL_INFO s1 = Some s2" "screen_run img (oem_area img) [l3] t s s2" "mcfg s2 = mcfg s"
    by (rule acpi_oem [OF ok nul oem w fit(1) [unfolded l3_def], folded l3_def])
  have "mem s2 b = mem s b" if "b \<in> span (r + 24) 4" for b
    using that sub(2) apart by (intro run_keeps [OF s2(3)]) (auto simp: acpi_tmp_def oem_area_def)
  then have rev: "SDT_OEMRevision (mem s2) r = SDT_OEMRevision (mem s) r" unfolding SDT_OEMRevision_def by (intro c32.ld_cong)
  have fit2: "lines_fit s2 [l4] (lines_shown ?W [l3] t)" using fit(2) by (simp only: run_fits [OF s2(3)])
  obtain n' s3 s' where s': "sprintf ?d (lit ''RSDT OEM Revision: %u'') [VInt (ucast (SDT_OEMRevision (mem s) r))] s2 = Some (n', s3)"
      "acpi_log img (Addr ?d) LOGLEVEL_INFO s3 = Some s'" "screen_run img (span ?d 64) [l4] (lines_shown ?W [l3] t) s2 s'" "mcfg s' = mcfg s2"
    by (rule acpi_revision [OF acpi_ok_run [OF ok s2(3)] fit2 [unfolded l4_def], folded l4_def])
  have "screen_run img (oem_area img) ([l3] @ [l4]) t s s'"
    by (rule run_step [OF s2(3) subset_refl s'(3)]) (auto simp: oem_area_def)
  then show thesis using that [of n s1 s2 n' s3 s'] s2 s' by (simp add: rev)
qed

text \<open>All lines before the loop.\<close>

lemma acpi_rsdt_loop:
  fixes s :: "'a acpi_scheme"
  assumes ok: "acpi_ok img t s" and nul: "mem s (ACPI_OEMID_at img + 6) = 0" and sig: "load_bytes (mem s) r 4 = bytes ''RSDT''"
    and apart: "root_area (mem s) r \<inter> (acpi_tmp img \<union> acpi_scratch img \<union> log_area img (fbCon s)) = {}"
    and fits: "lines_fit s (rsdt_head (mem s) r) t"
  obtains s' where "acpi_rsdt img cr2 regs cpu r s = acpi_entries img r [0..<nat (RSDT_entries (mem s) r)] s'"
    "screen_run img (acpi_tmp img \<union> acpi_scratch img) (rsdt_head (mem s) r) t s s'" "mcfg s' = mcfg s"
    "mem s' (ACPI_sig_at img + 4) = 0"
proof -
  let ?g = "ACPI_sig_at img" and ?o = "ACPI_OEMID_at img" and ?d = "ACPI_str_at img" and ?W = "unat (TTY_Width s)"
  let ?C = "acpi_tmp img \<union> acpi_scratch img" and ?A = "span ?d 64 \<union> span ?g 5 \<union> span (checksum_str_at img) 64"
    and ?m1 = "memcpy ?g (Addr r) 4 (store_bytes (mem s) ?g (replicate 5 0))"
  let ?l1 = "acpi_text LOGLEVEL_INFO (bytes ''Found ACPI RSDT.  Signature: '' @ [0x22] @ padded (text_of (load_bytes (mem s) r 4)) @ [0x22])"
    and ?l2 = "checksum_line (signed_sum (table_bytes (mem s) r))"
    and ?l3 = "acpi_text LOGLEVEL_INFO (bytes ''RSDT OEM ID: '' @ text_of (load_bytes (mem s) (SDT_OEMId r) 6))"
    and ?l4 = "acpi_text LOGLEVEL_INFO (bytes ''RSDT OEM Revision: '' @ int_out 10 False (unat (SDT_OEMRevision (mem s) r)))"
  have room: "acpi_room img (fbCon s)" using ok by (simp add: acpi_ok_def)
  note rf = room_facts [OF room]
  have lns: "rsdt_head (mem s) r = ([?l1] @ [?l2]) @ ([?l3] @ [?l4])" by (simp add: rsdt_head_def)
  have fit: "lines_fit s ([?l1] @ [?l2]) t" "lines_fit s ([?l3] @ [?l4]) (lines_shown ?W ([?l1] @ [?l2]) t)"
    using fits unfolding lns lines_fit_append [of s "[?l1] @ [?l2]"] by blast+
  have keep: "\<forall>b\<in>root_area (mem s) r. mem s' b = mem s b" if "screen_run img ?C xs t s s'" for s' xs
    using apart run_keeps [OF that] by blast
  obtain n s2 s3 b s4 s5 where s5: "memcmp ?m1 (Addr r) (lit ''RSDT'') 4 = 0"
    "sprintf ?d (Lit (bytes ''Found ACPI RSDT.  Signature: '' @ [0x22] @ bytes ''%-4s'' @ [0x22])) [VPtr (Addr ?g)] (s\<lparr>mem := ?m1\<rparr>) = Some (n, s2)"
    "acpi_log img (Addr ?d) LOGLEVEL_INFO s2 = Some s3" "doChecksum img r s3 = Some (b, s4)"
    "(if b then acpi_log img (lit ''ACPI RSDT Checksum passed.'') LOGLEVEL_INFO s4 else Some s4) = Some s5"
    "screen_run img ?A ([?l1] @ [?l2]) t s s5" "mcfg s5 = mcfg s" "mem s5 (?g + 4) = 0"
    by (rule rsdt_two_lines [OF ok sig apart fit(1)])
  have run5: "screen_run img ?C ([?l1] @ [?l2]) t s s5"
    by (rule screen_run_weaken [OF s5(6)]) (auto simp: acpi_tmp_def acpi_scratch_def)
  have o6: "?o + 6 \<in> span ?o 7" using span_nth [of 6 7 ?o] by simp
  then have "?o + 6 \<notin> ?A" "?o + 6 \<notin> log_area img (fbCon s)" using room rf(6) by (auto simp: acpi_room_def acpi_tmp_def)
  then have nul5: "mem s5 (?o + 6) = 0" using nul run_keeps [OF s5(6)] by simp
  have "span r 36 \<subseteq> root_area (mem s) r" unfolding root_area_def by (intro span_mono) simp
  then have apart5: "span r 36 \<inter> (acpi_tmp img \<union> log_area img (fbCon s5)) = {}" using apart run_size [OF run5] by auto
  note cong5 = root_cong [OF keep [OF run5]]
  have fit5: "lines_fit s5 ([?l3] @ [?l4]) (lines_shown ?W ([?l1] @ [?l2]) t)" using fit(2) by (simp only: run_fits [OF run5])
  obtain n' s6 s7 n'' s8 s9 where s9: "sprintf ?d (lit ''RSDT OEM ID: %s'') [VPtr (Addr ?o)]
       (s5\<lparr>mem := memcpy ?o (Addr (SDT_OEMId r)) 6 (mem s5)\<rparr>) = Some (n', s6)" "acpi_log img (Addr ?d) LOGLEVEL_INFO s6 = Some s7"
    "sprintf ?d (lit ''RSDT OEM Revision: %u'') [VInt (ucast (SDT_OEMRevision (mem s7) r))] s7 = Some (n'', s8)"
    "acpi_log img (Addr ?d) LOGLEVEL_INFO s8 = Some s9"
    "screen_run img (oem_area img) ([?l3] @ [?l4]) (lines_shown ?W ([?l1] @ [?l2]) t) s5 s9" "mcfg s9 = mcfg s5"
    by (rule rsdt_last_lines [OF acpi_ok_run [OF ok run5] nul5 apart5, unfolded cong5(2,3), OF fit5])
  have run9: "screen_run img ?C (rsdt_head (mem s) r) t s s9"
    unfolding lns by (rule run_step [OF run5 subset_refl s9(5)]) (auto simp: acpi_tmp_def oem_area_def)
  have entries: "RSDT_entries (mem s9) r = RSDT_entries (mem s) r" by (rule root_cong(5) [OF keep [OF run9]])
  have g4: "?g + 4 \<in> span ?g 5" using span_nth [of 4 5 ?g] by simp
  then have "?g + 4 \<notin> oem_area img" "?g + 4 \<notin> log_area img (fbCon s5)"
    using room rf(5) run_size [OF run5] by (auto simp: acpi_room_def acpi_tmp_def oem_area_def)
  then have "mem s9 (?g + 4) = 0" using run_keeps [OF s9(5)] s5(8) by simp
  moreover have "acpi_rsdt img cr2 regs cpu r s = acpi_entries img r [0..<nat (RSDT_entries (mem s) r)] s9"
    unfolding acpi_rsdt_def root_sig_def Let_def using s5(1-5) s9(1-4) by (simp add: entries)
  moreover have "mcfg s9 = mcfg s" using s5(7) s9(6) by simp
  ultimately show thesis using that [of s9] run9 by blast
qed

text \<open>Another signature: the registers are dumped, the signature is shown, and the kernel panics.\<close>

definition bad_root_text :: "u8 list \<Rightarrow> u8 list" where
  "bad_root_text sg = (bytes ''ACPI RSDT signature not correct!  Expected: '' @ [0x22] @ bytes ''RSDT'' @ [0x22] @ bytes '', got: '') @
     [0x22] @ padded (text_of sg) @ [0x22]"

definition cpu_report :: "registers_t \<Rightarrow> u64 \<Rightarrow> u8 list" where
  "cpu_report cpu cr2 = panic_text (bytes ''ACPI RSDT Signature invalid'')
     [r_rax cpu, r_rbx cpu, r_rcx cpu, r_rdx cpu, r_rdi cpu, r_rsi cpu, r_rip cpu, cr2]"

lemma acpi_rsdt_bad:
  fixes s :: "'a acpi_scheme"
  assumes ok: "acpi_ok img t s" and sig: "load_bytes (mem s) r 4 \<noteq> bytes ''RSDT''"
    and apart: "span r 4 \<inter> (acpi_tmp img \<union> acpi_scratch img \<union> log_area img (fbCon s)) = {}"
    and regs: "span regs 176 \<inter> (acpi_tmp img \<union> acpi_scratch img \<union> log_area img (fbCon s)) = {}"
    and fits: "lines_fit s [acpi_text LOGLEVEL_FATAL (bad_root_text (load_bytes (mem s) r 4))] t"
  obtains s' where "memcmp (mem (root_sig img r s)) (Addr r) (lit ''RSDT'') 4 \<noteq> 0" "bad_root img regs cpu (root_sig img r s) = Some s'"
    "screen_run img (acpi_tmp img \<union> acpi_scratch img \<union> span regs 176)
       [acpi_text LOGLEVEL_FATAL (bad_root_text (load_bytes (mem s) r 4))] t s s'"
    "shown_regs (mem s') regs cr2 = [r_rax cpu, r_rbx cpu, r_rcx cpu, r_rdx cpu, r_rdi cpu, r_rsi cpu, r_rip cpu, cr2]"
proof -
  let ?g = "ACPI_sig_at img" and ?d = "ACPI_str_at img" and ?u = "text_of (load_bytes (mem s) r 4)"
  let ?C = "acpi_tmp img \<union> acpi_scratch img \<union> span regs 176"
    and ?w = "bytes ''ACPI RSDT signature not correct!  Expected: '' @ [0x22] @ bytes ''RSDT'' @ [0x22] @ bytes '', got: ''"
    and ?m1 = "memcpy ?g (Addr r) 4 (store_bytes (mem s) ?g (replicate 5 0))"
  let ?s1 = "s\<lparr>mem := ?m1\<rparr>" and ?m2 = "DUMPREGS cpu regs ?m1"
  have room: "acpi_room img (fbCon s)" using ok by (simp add: acpi_ok_def)
  note rf = room_facts [OF room]
  note pend = fits_pending [OF fits]
  have "span ?g 5 \<inter> span r 4 = {}" using apart by (auto simp: acpi_scratch_def)
  note sig1 = acpi_sig [OF ok pend this]
  have "mem ?s1 b = mem s b" if "b \<in> span r 4" for b
    using that apart run_keeps [OF sig1(1), of b] by (auto simp: acpi_scratch_def)
  then have "load_bytes ?m1 r 4 = load_bytes (mem s) r 4" by (intro load_bytes_cong) simp
  then have cmp: "memcmp ?m1 (Addr r) (lit ''RSDT'') 4 \<noteq> 0" using memcmp_lit [of "''RSDT''" 4 ?m1 r] sig by (simp add: bytes_def)
  have "?m2 b = mem ?s1 b" if "b \<notin> span regs 176" for b using DUMPREGS_frame [OF that] by simp
  moreover have "span regs 176 \<inter> log_area img (fbCon ?s1) = {}" using regs by auto
  ultimately have run2: "screen_run img (span regs 176) [] t ?s1 (s\<lparr>mem := ?m2\<rparr>)" and ok2: "acpi_ok img t (s\<lparr>mem := ?m2\<rparr>)"
    using memory_run [OF sig1(2) pend, of "span regs 176" ?m2] by simp_all
  have run: "screen_run img ?C [] t s (s\<lparr>mem := ?m2\<rparr>)"
    using run_mem_step [OF sig1(1) _ , of ?C "span regs 176" "s\<lparr>mem := ?m2\<rparr>"] run2 by (auto simp: acpi_scratch_def)
  have "?m1 b = ?m2 b" if "b \<in> span ?g 5" for b
    using that regs by (subst DUMPREGS_frame) (auto simp: acpi_scratch_def)
  moreover have len: "length ?u \<le> 4" using length_text_of [of "load_bytes (mem s) r 4"] by simp
  then have "span ?g (Suc (length ?u)) \<subseteq> span ?g 5" by (intro span_mono) simp
  ultimately have arg: "str_arg ?m2 (span ?g 5) (Addr ?g) ?u"
    using sig1(3) cstr_ptr_cong [of "Addr ?g" ?u ?m1 ?m2] by (auto simp: str_arg_def)
  have w: "plain ?w" "length ?w \<le> 57" by (simp_all add: plain_def bytes_def)
  have fit2: "lines_fit (s\<lparr>mem := ?m2\<rparr>) [acpi_text LOGLEVEL_FATAL (?w @ [0x22] @ padded ?u @ [0x22])] t"
    using fits unfolding bad_root_text_def by (simp only: fits_mem)
  obtain n s3 s' where s': "sprintf ?d (Lit (?w @ [0x22] @ bytes ''%-4s'' @ [0x22])) [VPtr (Addr ?g)] (s\<lparr>mem := ?m2\<rparr>) = Some (n, s3)"
      "acpi_log img (Addr ?d) LOGLEVEL_FATAL s3 = Some s'"
      "screen_run img (span ?d 64) [acpi_text LOGLEVEL_FATAL (?w @ [0x22] @ padded ?u @ [0x22])] t (s\<lparr>mem := ?m2\<rparr>) s'"
    by (rule acpi_sig_report [OF ok2 _ len w levels(3) fit2]) (simp add: arg)
  have result: "memcmp (mem (root_sig img r s)) (Addr r) (lit ''RSDT'') 4 \<noteq> 0" "bad_root img regs cpu (root_sig img r s) = Some s'"
    unfolding bad_root_def root_sig_def Let_def using cmp s'(1,2) by simp_all
  have "screen_run img ?C ([] @ [acpi_text LOGLEVEL_FATAL (bad_root_text (load_bytes (mem s) r 4))]) t s s'"
    unfolding bad_root_text_def by (rule run_step [OF run subset_refl, of "span ?d 64"]) (use s'(3) in \<open>auto simp: acpi_tmp_def\<close>)
  moreover have "mem s' b = ?m2 b" if "b \<in> span regs 176" for b
    using that regs run_keeps [OF s'(3), of b] by (auto simp: acpi_tmp_def)
  then have "shown_regs (mem s') regs cr2 = shown_regs ?m2 regs cr2" by (rule shown_regs_cong)
  ultimately show thesis using that [of s'] result shown_dump by simp
qed

section \<open>The whole search\<close>

text \<open>A table of the root table, apart from everything \<open>ACPI_Init\<close> writes.\<close>

definition table_clear :: "image \<Rightarrow> framebuffer_t \<Rightarrow> memory \<Rightarrow> addr \<Rightarrow> nat \<Rightarrow> bool" where
  "table_clear img f m r i \<longleftrightarrow> entry_ready img f m r i \<and>
     (span (r + sizeof_ACPISDTHeader + 4 * of_nat i) 4 \<union> span (entry_header m r i) 4) \<inter> acpi_tmp img = {}"

lemma table_clear_cong:
  assumes clear: "table_clear img f m r i" and same: "\<forall>b. b \<notin> acpi_tmp img \<union> acpi_scratch img \<union> log_area img f \<longrightarrow> m' b = m b"
  shows "entry_header m' r i = entry_header m r i" "entry_sig m' r i = entry_sig m r i" "entry_ready img f m' r i"
proof -
  have p: "m' b = m b" if "b \<in> span (r + sizeof_ACPISDTHeader + 4 * of_nat i) 4 \<union> span (entry_header m r i) 4" for b
    using that clear by (intro same [rule_format]) (auto simp: table_clear_def entry_ready_def)
  show h: "entry_header m' r i = entry_header m r i"
    unfolding entry_header_def pointerToOtherSDT_def using p by (intro arg_cong [of _ _ ucast] c32.ld_cong) simp
  show sg: "entry_sig m' r i = entry_sig m r i" unfolding entry_sig_def h using p by (intro load_bytes_cong) simp
  show "entry_ready img f m' r i" using clear by (simp add: table_clear_def entry_ready_def h sg)
qed

lemma ACPI_Init_run:
  fixes s :: "'a acpi_scheme"
  assumes ok: "acpi_ok img t s" and p: "p = rsdp_address (rsdp_at (mem s) (rsdpReq_response lm))"
    and r: "r = ucast (RSDP_RSDTAddress (mem s) p)"
    and sig: "load_bytes (mem s) p 8 = bytes ''RSD PTR ''" "load_bytes (mem s) r 4 = bytes ''RSDT''"
    and js: "js = [0..<nat (RSDT_entries (mem s) r)]" "\<forall>i\<in>set js. table_clear img (fbCon s) (mem s) r i"
    and apart: "(span p 20 \<union> root_area (mem s) r) \<inter> (acpi_tmp img \<union> acpi_scratch img \<union> log_area img (fbCon s)) = {}"
    and fits: "lines_fit s (rsdp_lines (mem s) p @ rsdt_head (mem s) r @ search_lines (mem s) r js) t"
  shows "\<exists>s'. ACPI_Init img lm cr2 regs cpu s = Some s' \<and> mcfg s' = last_mcfg (mem s) r js (mcfg s) \<and>
    screen_run img (acpi_tmp img \<union> acpi_scratch img) (rsdp_lines (mem s) p @ rsdt_head (mem s) r @ search_lines (mem s) r js) t s s'"
proof -
  let ?W = "unat (TTY_Width s)" and ?C = "acpi_tmp img \<union> acpi_scratch img"
  let ?l1 = "rsdp_lines (mem s) p" and ?l2 = "rsdt_head (mem s) r" and ?l3 = "search_lines (mem s) r js"
  have fit: "lines_fit s ?l1 t" "lines_fit s ?l2 (lines_shown ?W ?l1 t)" "lines_fit s ?l3 (lines_shown ?W (?l1 @ ?l2) t)"
    using fits unfolding append_assoc [symmetric] lines_fit_append by blast+
  have "span p 20 \<inter> (acpi_tmp img \<union> log_area img (fbCon s)) = {}" using apart by blast
  then obtain s1 where s1: "acpi_rsdp img p s = Some s1" "screen_run img (acpi_tmp img) ?l1 t s s1" "mcfg s1 = mcfg s"
      "mem s1 (ACPI_OEMID_at img + 6) = 0" "RSDP_RSDTAddress (mem s1) p = RSDP_RSDTAddress (mem s) p"
    by (rule acpi_rsdp_run [OF ok _ fit(1)])
  have run1: "screen_run img ?C ?l1 t s s1" by (rule screen_run_weaken [OF s1(2)]) blast
  have "\<forall>b\<in>root_area (mem s) r. mem s1 b = mem s b" using apart run_keeps [OF run1] by blast
  note cong1 = root_cong [OF this]
  have head1: "rsdt_head (mem s1) r = ?l2" by (simp add: rsdt_head_def cong1)
  have apart1: "root_area (mem s1) r \<inter> (?C \<union> log_area img (fbCon s1)) = {}"
    using apart run_size [OF run1] unfolding cong1(6) by auto
  have fit1: "lines_fit s1 (rsdt_head (mem s1) r) (lines_shown ?W ?l1 t)" using fit(2) unfolding head1 by (simp only: run_fits [OF run1])
  obtain s2 where s2: "acpi_rsdt img cr2 regs cpu r s1 = acpi_entries img r [0..<nat (RSDT_entries (mem s1) r)] s2"
      "screen_run img ?C (rsdt_head (mem s1) r) (lines_shown ?W ?l1 t) s1 s2" "mcfg s2 = mcfg s1" "mem s2 (ACPI_sig_at img + 4) = 0"
    by (rule acpi_rsdt_loop [OF acpi_ok_run [OF ok s1(2)] s1(4) _ apart1 fit1]) (simp add: cong1 sig(2))
  have run2: "screen_run img ?C (?l1 @ ?l2) t s s2"
    using run_step [OF run1 subset_refl s2(2) subset_refl] unfolding head1 .
  have same2: "\<forall>b. b \<notin> ?C \<union> log_area img (fbCon s) \<longrightarrow> mem s2 b = mem s b" using run_keeps [OF run2] by blast
  have cong2: "entry_header (mem s2) r i = entry_header (mem s) r i \<and> entry_sig (mem s2) r i = entry_sig (mem s) r i \<and>
      entry_ready img (fbCon s2) (mem s2) r i" if "i \<in> set js" for i
    using table_clear_cong [OF _ same2] js(2) that run_size [OF run2] by simp
  then have look: "search_lines (mem s2) r js = ?l3" "last_mcfg (mem s2) r js old = last_mcfg (mem s) r js old" for old
    using search_cong [of js "mem s2" r "mem s"] by simp_all
  have st2: "acpi_state img (lines_shown ?W (?l1 @ ?l2) t) s2"
    using acpi_ok_run [OF ok run2] s2(4) by (simp add: acpi_state_def acpi_ok_def acpi_room_def)
  have fit2: "lines_fit s2 (search_lines (mem s2) r js) (lines_shown ?W (?l1 @ ?l2) t)"
    using fit(3) unfolding look by (simp only: run_fits [OF run2])
  have "\<forall>i\<in>set js. entry_ready img (fbCon s2) (mem s2) r i" using cong2 by blast
  from acpi_entries_run [OF st2 this fit2] obtain s3 where s3: "acpi_entries img r js s2 = Some s3"
      "screen_run img (acpi_scratch img) ?l3 (lines_shown ?W (?l1 @ ?l2) t) s2 s3" "mcfg s3 = last_mcfg (mem s) r js (mcfg s2)"
    unfolding look by blast
  have "screen_run img ?C ((?l1 @ ?l2) @ ?l3) t s s3" by (rule run_step [OF run2 subset_refl s3(2)]) blast
  moreover have "memcmp (mem s) (Addr p) (lit ''RSD PTR '') 8 = 0"
    using memcmp_lit [of "''RSD PTR ''" 8 "mem s" p] sig(1) by (simp add: bytes_def)
  then have "ACPI_Init img lm cr2 regs cpu s = Some s3"
    unfolding ACPI_Init_def p [symmetric] Let_def using s1(1) s2(1) s3(1) by (simp add: s1(5) r [symmetric] cong1(5) js(1))
  ultimately show ?thesis using s3(3) s2(3) s1(3) by auto
qed

section \<open>Properties\<close>

text \<open>A root pointer at 0x300000, a root table at 0x200000 with one pointer, and an MCFG at 0x200100.\<close>

definition acpi_memory0 :: memory where
  "acpi_memory0 = (\<lambda>_. 0)(0x50090A := 0x30,
     0x300000 := 0x52, 0x300001 := 0x53, 0x300002 := 0x44, 0x300003 := 0x20, 0x300004 := 0x50, 0x300005 := 0x54,
     0x300006 := 0x52, 0x300007 := 0x20, 0x300012 := 0x20,
     0x200000 := 0x52, 0x200001 := 0x53, 0x200002 := 0x44, 0x200003 := 0x54, 0x200004 := 40, 0x200010 := 0x80, 0x200011 := 0x80,
     0x200012 := 0x80, 0x200013 := 0xFA, 0x200025 := 0x01, 0x200026 := 0x20,
     0x200100 := 0x4D, 0x200101 := 0x43, 0x200102 := 0x46, 0x200103 := 0x47)"

definition row :: "nat \<Rightarrow> terminal" where
  "row y = term0\<lparr>t_y := y\<rparr>"

lemma term_puts_row:
  "t_esc t = None \<Longrightarrow> \<forall>c\<in>set u. c \<notin> {0x1B, 0x0D, 0x08, 0x0A} \<Longrightarrow> t_x t + length u < w \<Longrightarrow>
     term_puts w u t = t\<lparr>t_x := t_x t + length u\<rparr>"
proof (induction u arbitrary: t)
  case Nil then show ?case by (simp add: term_puts_def)
next
  case (Cons c u)
  have "term_put w c t = t\<lparr>t_x := Suc (t_x t)\<rparr>" using Cons.prems by (simp add: term_put_def term_advance_def)
  then show ?case using Cons.IH [of "t\<lparr>t_x := Suc (t_x t)\<rparr>"] Cons.prems by (simp add: term_puts_def)
qed

lemma term_fits_row:
  "t_esc t = None \<Longrightarrow> \<forall>c\<in>set u. c \<notin> {0x1B, 0x0D, 0x08, 0x0A} \<Longrightarrow> t_x t + length u < unat (TTY_Width s) \<Longrightarrow>
     t_y t < unat (TTY_Height s) \<Longrightarrow> term_fits s u t"
proof (induction u arbitrary: t)
  case (Cons c u)
  have "term_put (unat (TTY_Width s)) c t = t\<lparr>t_x := Suc (t_x t)\<rparr>" using Cons.prems by (simp add: term_put_def term_advance_def)
  then show ?case using Cons.IH [of "t\<lparr>t_x := Suc (t_x t)\<rparr>"] Cons.prems by (simp add: term_ok_def pending_def)
qed simp

text \<open>An ordinary message takes one row.\<close>

lemma acpi_row:
  assumes me: "\<forall>c\<in>set me. c \<notin> {0x1B, 0x0D, 0x08, 0x0A}" "length me < 60" and y: "y < 24"
  shows "lines_shown 80 [acpi_text LOGLEVEL_INFO me] (row y) = row (Suc y)" "lines_fit console25 [acpi_text LOGLEVEL_INFO me] (row y)"
proof -
  let ?head = "log_start (bytes ''X86ACPI'') LOGLEVEL_INFO"
  let ?tail = "esc_seq ''[0m'' @ [0x0D, 0x0A]" and ?t = "(row y)\<lparr>t_x := 11, t_fg := COLOR_LGRAY, t_bold := True\<rparr>"
  have full: "acpi_text LOGLEVEL_INFO me = ?head @ me @ ?tail"
    by (simp add: log_text_def log_head_start log_tail_def LOGLEVEL_defs)
  have module: "bytes ''X86ACPI'' @ replicate (8 - length (bytes ''X86ACPI'')) 0x20 = [0x58, 0x38, 0x36, 0x41, 0x43, 0x50, 0x49, 0x20]"
    by (simp add: bytes_def)
  have level: "ansiColors ! unat LOGLEVEL_INFO = esc_seq ''[37m''" by (simp add: ansiColors_def LOGLEVEL_defs)
  let ?at = "\<lambda>x c b. \<lparr>t_x = x, t_y = y, t_fg = c, t_bg = COLOR_BLACK, t_bold = b, t_esc = None\<rparr>"
  have code: "term_puts 80 (esc_seq ''[1m'') (?at x c b) = ?at x c True" "term_puts 80 (esc_seq ''[33m'') (?at x c b) = ?at x COLOR_YELLOW b"
    "term_puts 80 (esc_seq ''[36m'') (?at x c b) = ?at x COLOR_CYAN b" "term_puts 80 (esc_seq ''[37m'') (?at x c b) = ?at x COLOR_LGRAY b"
    "term_puts 80 (esc_seq ''[0m'') (?at x c b) = ?at x COLOR_LGRAY False" for x c b
    using esc_codes [of "?at x c b" 80] by (simp_all add: term_sgr_def palette_def)
  have plain: "term_puts 80 u (?at x c b) = ?at (x + length u) c b"
    if "\<forall>c\<in>set u. c \<notin> {0x1B, 0x0D, 0x08, 0x0A}" "x + length u < 80" for u x c b
    using term_puts_row [of "?at x c b" u 80] that by simp
  have t: "row y = ?at 0 COLOR_LGRAY False" "?t = ?at 11 COLOR_LGRAY True" "row (Suc y) = (?at 0 COLOR_LGRAY False)\<lparr>t_y := Suc y\<rparr>"
    by (simp_all add: row_def term0_def)
  have head: "term_puts 80 ?head (row y) = ?t"
    unfolding log_start_codes module level term_puts_append t by (simp add: code plain)
  have head_fits: "term_fits console25 ?head (row y)"
    using y by (simp add: log_start_def text_defs ansiColors_def LOGLEVEL_defs term_eval row_def term0_def console25_size)
  have mid: "term_puts 80 me ?t = ?t\<lparr>t_x := 11 + length me\<rparr>" using term_puts_row [of ?t me 80] me by (simp add: row_def term0_def)
  have mid_fits: "term_fits console25 me ?t" using term_fits_row [of ?t me console25] me y by (simp add: row_def term0_def console25_size)
  have tail: "term_puts 80 ?tail (?t\<lparr>t_x := 11 + length me\<rparr>) = row (Suc y)"
  proof -
    have "?t\<lparr>t_x := 11 + length me\<rparr> = ?at (11 + length me) COLOR_LGRAY True" by (simp add: row_def term0_def)
    moreover have "term_puts 80 [0x0D, 0x0A] (?at x c b) = (?at 0 c b)\<lparr>t_y := Suc y\<rparr>" for x c b
      by (simp add: term_puts_def term_put_def)
    ultimately show ?thesis unfolding term_puts_append t(3) by (simp only: code)
  qed
  have tail_fits: "term_fits console25 ?tail (?t\<lparr>t_x := 11 + length me\<rparr>)"
    using y me by (simp add: text_defs term_eval row_def term0_def console25_size)
  have pre: "log_prefix (row y) = []" by (simp add: log_prefix_def row_def term0_def)
  show "lines_shown 80 [acpi_text LOGLEVEL_INFO me] (row y) = row (Suc y)"
    using tail unfolding lines_shown.simps pre full append_Nil term_puts_append head mid .
  show "lines_fit console25 [acpi_text LOGLEVEL_INFO me] (row y)"
    using head_fits mid_fits tail_fits
    unfolding lines_fit.simps pre full append_Nil term_fits_append console25_size head mid by blast
qed

lemma acpi_rows:
  assumes "\<forall>me\<in>set mes. (\<forall>c\<in>set me. c \<notin> {0x1B, 0x0D, 0x08, 0x0A}) \<and> length me < 60" and "y + length mes \<le> 24"
  shows "lines_shown 80 (map (acpi_text LOGLEVEL_INFO) mes) (row y) = row (y + length mes) \<and>
    lines_fit console25 (map (acpi_text LOGLEVEL_INFO) mes) (row y)"
  using assms
proof (induction mes arbitrary: y)
  case (Cons me mes)
  have one: "lines_shown 80 [acpi_text LOGLEVEL_INFO me] (row y) = row (Suc y)"
    "lines_fit console25 [acpi_text LOGLEVEL_INFO me] (row y)"
    using Cons.prems by (intro acpi_row; simp)+
  have "map (acpi_text LOGLEVEL_INFO) (me # mes) = [acpi_text LOGLEVEL_INFO me] @ map (acpi_text LOGLEVEL_INFO) mes" by simp
  moreover have "lines_shown 80 (map (acpi_text LOGLEVEL_INFO) mes) (row (Suc y)) = row (Suc y + length mes) \<and>
      lines_fit console25 (map (acpi_text LOGLEVEL_INFO) mes) (row (Suc y))"
    using Cons.prems by (intro Cons.IH) simp_all
  ultimately show ?case using one by (simp only: lines_shown_append lines_fit_append console25_size) simp
qed simp

text \<open>The tables lie between 2 and 4 MiB, and everything \<open>ACPI_Init\<close> writes lies elsewhere.\<close>

abbreviation (input) "table_range \<equiv> region 0x200000 0x400000"

lemma table_range_clear:
  "table_range \<inter> (acpi_tmp image0 \<union> acpi_scratch image0 \<union> log_area image0 (fbCon console25)) = {}"
proof -
  have "acpi_tmp image0 = span 0x115000 64 \<union> span 0x115040 7 \<union> span 0x116000 64" by (simp add: acpi_tmp_def image0_def)
  moreover have "span 0x115000 64 \<union> span 0x115040 7 \<union> span 0x116000 64 \<union> span 0x115048 5 \<union> span 0x115080 64 \<union> span 0x101000 256 \<union>
      span 0x111000 256 \<union> span 0x113000 256 \<subseteq> region 0x101000 0x117000" "span 0x800000000 1024000 \<subseteq> region 0x800000000 0x8000FA000"
    by (intro Un_least span_region; simp)+
  moreover have "table_range \<inter> region 0x101000 0x117000 = {}" "table_range \<inter> region 0x800000000 0x8000FA000 = {}"
    by (simp_all add: region_disjoint)
  ultimately show ?thesis unfolding acpi_areas0 by blast
qed

lemma acpi_ok0:
  assumes "m (0x115048 + 4) = 0" and "m 0x101000 = 0"
  shows "acpi_ok image0 (row 0) (ahci25\<lparr>mem := m\<rparr>)"
proof -
  let ?s = "ahci25\<lparr>mem := m\<rparr>"
  have f: "fbCon ?s = fbCon console25" "TTY_Width ?s = TTY_Width console25" "TTY_Height ?s = TTY_Height console25"
    by (simp_all add: ahci25_def console25_def)
  have "log_layout image0 ?s" using console25_layout by (simp only: log_layout_def console_layout_def f simp_thms)
  moreover have "term_rel image0 ?s (row 0)"
    using ahci25_console(3) assms(2) by (simp add: term_rel_def esc_text_def row_def term0_def pending_def)
  moreover have "acpi_room image0 (fbCon ?s)"
  proof -
    have at: "ACPI_str_at image0 = 0x115000" "ACPI_OEMID_at image0 = 0x115040" "checksum_str_at image0 = 0x116000"
      "ACPI_sig_at image0 = 0x115048" by (simp_all add: image0_def)
    have "span (0x115000 :: addr) 64 \<inter> span 0x800000000 1024000 = {}" "span (0x115040 :: addr) 7 \<inter> span 0x800000000 1024000 = {}"
      "span (0x116000 :: addr) 64 \<inter> span 0x800000000 1024000 = {}" "span (0x115040 :: addr) 7 \<inter> span 0x115048 5 = {}"
      "span (0x115000 :: addr) 64 \<inter> span 0x115048 5 = {}" "span (0x115040 :: addr) 7 \<inter> span 0x116000 64 = {}"
      by (rule span_disjI, simp_all)+
    moreover have "span (0x115000 :: addr) 64 \<inter> span 0x101000 256 = {}" "span (0x115040 :: addr) 7 \<inter> span 0x101000 256 = {}"
      "span (0x116000 :: addr) 64 \<inter> span 0x101000 256 = {}" "span (0x115000 :: addr) 64 \<inter> span 0x111000 256 = {}"
      "span (0x115040 :: addr) 7 \<inter> span 0x111000 256 = {}" "span (0x116000 :: addr) 64 \<inter> span 0x111000 256 = {}"
      "span (0x115000 :: addr) 64 \<inter> span 0x113000 256 = {}" "span (0x115040 :: addr) 7 \<inter> span 0x113000 256 = {}"
      "span (0x116000 :: addr) 64 \<inter> span 0x113000 256 = {}" "span (0x116000 :: addr) 64 \<inter> span 0x115048 5 = {}"
      "span (0x115040 :: addr) 7 \<inter> span 0x115000 64 = {}"
      by (rule span_disjI', simp_all)+
    ultimately show ?thesis
      unfolding acpi_room_def acpi_tmp_def f acpi_areas0 at Int_Un_distrib Int_Un_distrib2 using acpi_image0 by simp
  qed
  ultimately show ?thesis by (simp add: acpi_ok_def)
qed

lemma acpi_fields0:
  "rsdp_address (rsdp_at acpi_memory0 (rsdpReq_response limine0)) = 0x300000" "RSDP_RSDTAddress acpi_memory0 0x300000 = 0x200000"
  "load_bytes acpi_memory0 0x300000 8 = bytes ''RSD PTR ''" "load_bytes acpi_memory0 0x200000 4 = bytes ''RSDT''"
  "SDT_length acpi_memory0 0x200000 = 40" "RSDT_entries acpi_memory0 0x200000 = 1"
  "entry_header acpi_memory0 0x200000 0 = 0x200100" "entry_sig acpi_memory0 0x200000 0 = bytes ''MCFG''"
proof -
  show "rsdp_address (rsdp_at acpi_memory0 (rsdpReq_response limine0)) = 0x300000"
    by (simp add: limine_fields limine0_def load64_def mem_eval acpi_memory0_def)
  show "RSDP_RSDTAddress acpi_memory0 0x300000 = 0x200000" by (simp add: RSDP_RSDTAddress_def load32_def mem_eval acpi_memory0_def)
  show "load_bytes acpi_memory0 0x300000 8 = bytes ''RSD PTR ''" by (simp add: mem_eval acpi_memory0_def bytes_def)
  show "load_bytes acpi_memory0 0x200000 4 = bytes ''RSDT''" by (simp add: mem_eval acpi_memory0_def bytes_def)
  show len: "SDT_length acpi_memory0 0x200000 = 40" by (simp add: SDT_length_def load32_def mem_eval acpi_memory0_def)
  show "RSDT_entries acpi_memory0 0x200000 = 1" by (simp add: RSDT_entries_def len sizeof_ACPISDTHeader_def)
  have "load32 acpi_memory0 0x200024 = 0x200100" by (simp add: load32_def mem_eval acpi_memory0_def)
  then show h: "entry_header acpi_memory0 0x200000 0 = 0x200100"
    by (simp add: entry_header_def pointerToOtherSDT_def sizeof_ACPISDTHeader_def)
  have "load_bytes acpi_memory0 0x200100 4 = bytes ''MCFG''" by (simp add: mem_eval acpi_memory0_def bytes_def)
  then show "entry_sig acpi_memory0 0x200000 0 = bytes ''MCFG''" by (simp only: entry_sig_def h)
qed

definition cpu0 :: registers_t where
  "cpu0 = \<lparr>r_rdi = 0, r_rsi = 0, r_rbp = 0, r_rbx = 0x5, r_rdx = 0, r_rcx = 0, r_rax = 0x200000, r_r8 = 0, r_r9 = 0, r_r10 = 0,
     r_r11 = 0, r_r12 = 0, r_r13 = 0, r_r14 = 0, r_r15 = 0, r_intNo = 0, r_errCode = 0, r_rip = 0x1234, r_cs = 0, r_rflags = 0,
     r_rsp = 0, r_ss = 0\<rparr>"

definition acpi_messages0 :: "u8 list list" where
  "acpi_messages0 =
     [bytes ''Found ACPI Tables at address '' @ pointer_out 0x300000 @ bytes ''!'', bytes ''ACPI Revision 1.0'', bytes ''OEM ID: '',
      bytes ''Found ACPI RSDT.  Signature: '' @ [0x22] @ bytes ''RSDT'' @ [0x22], bytes ''ACPI RSDT Checksum passed.'',
      bytes ''RSDT OEM ID: '', bytes ''RSDT OEM Revision: 0'', entry_text (bytes ''MCFG'')]"

lemma acpi_lines0:
  "rsdp_lines acpi_memory0 0x300000 @ rsdt_head acpi_memory0 0x200000 @ search_lines acpi_memory0 0x200000 [0] =
     map (acpi_text LOGLEVEL_INFO) acpi_messages0"
  "\<forall>me\<in>set acpi_messages0. (\<forall>c\<in>set me. c \<notin> {0x1B, 0x0D, 0x08, 0x0A}) \<and> length me < 60"
proof -
  have rev: "RSDP_revision acpi_memory0 0x300000 = 0" by (simp add: RSDP_revision_def acpi_memory0_def)
  have oem: "text_of (load_bytes acpi_memory0 (RSDP_OEMId 0x300000) 6) = []"
    "text_of (load_bytes acpi_memory0 (SDT_OEMId 0x200000) 6) = []"
    by (simp_all add: RSDP_OEMId_def SDT_OEMId_def text_of_def mem_eval acpi_memory0_def)
  have sg: "padded (text_of (load_bytes acpi_memory0 0x200000 4)) = bytes ''RSDT''"
    by (simp add: acpi_fields0 padded_def text_of_def bytes_def)
  have sm: "signed_sum (table_bytes acpi_memory0 0x200000) = 0"
    unfolding signed_sum_def table_bytes_def acpi_fields0 by (simp add: mem_eval acpi_memory0_def)
  have old: "int_out 10 False (unat (SDT_OEMRevision acpi_memory0 0x200000)) = bytes ''0''"
    by (simp add: SDT_OEMRevision_def load32_def mem_eval acpi_memory0_def int_out_def base_digits.simps upper_digits_def bytes_def)
  have "bytes ''MCFG'' \<noteq> bytes ''FACP''" by (simp add: bytes_def)
  then have "search_lines acpi_memory0 0x200000 [0] = [acpi_text LOGLEVEL_INFO (entry_text (bytes ''MCFG''))]"
    by (simp add: search_lines_def acpi_fields0 entry_lines_def)
  moreover have "bytes ''RSDT OEM Revision: '' @ bytes ''0'' = bytes ''RSDT OEM Revision: 0''" by (simp add: bytes_def)
  ultimately show "rsdp_lines acpi_memory0 0x300000 @ rsdt_head acpi_memory0 0x200000 @ search_lines acpi_memory0 0x200000 [0] =
      map (acpi_text LOGLEVEL_INFO) acpi_messages0"
    unfolding rsdp_lines_def rsdt_head_def rev oem sg sm old acpi_messages0_def checksum_line_def by simp
  show "\<forall>me\<in>set acpi_messages0. (\<forall>c\<in>set me. c \<notin> {0x1B, 0x0D, 0x08, 0x0A}) \<and> length me < 60"
    by (simp add: acpi_messages0_def bytes_def entry_text_def pointer_out_def base_digits.simps upper_digits_def)
qed

lemma acpi_clear0: "table_clear image0 (fbCon console25) acpi_memory0 0x200000 0"
proof -
  have "span 0x200024 4 \<subseteq> table_range" "span 0x200100 4 \<subseteq> table_range" by (rule span_region, simp, simp, simp)+
  moreover have "0 \<notin> set (bytes ''MCFG'')" by (simp add: bytes_def)
  ultimately show ?thesis
    using table_range_clear unfolding table_clear_def entry_ready_def acpi_fields0
    by (auto simp: sizeof_ACPISDTHeader_def)
qed

text \<open>
  C14: \<open>ACPI_Init\<close> as a whole, on a root pointer and a root table with their signatures: the address, the revision
  and the OEM fields, the verdict of the checksum and the name of every table appear in this order on the screen
  and on the debug port; \<open>mcfg\<close> is left at the last table with the signature MCFG, or as it was; and nothing but
  the buffers of the function and the console changes.  A wrong checksum does not stop the search.
\<close>

theorem ACPI_Init_finds_mcfg:
  fixes s :: "'a acpi_scheme"
  assumes "acpi_ok img t s" and "p = rsdp_address (rsdp_at (mem s) (rsdpReq_response lm))"
    and "r = ucast (RSDP_RSDTAddress (mem s) p)"
    and "load_bytes (mem s) p 8 = bytes ''RSD PTR ''" "load_bytes (mem s) r 4 = bytes ''RSDT''"
    and "js = [0..<nat (RSDT_entries (mem s) r)]" "\<forall>i\<in>set js. table_clear img (fbCon s) (mem s) r i"
    and "(span p 20 \<union> root_area (mem s) r) \<inter> (acpi_tmp img \<union> acpi_scratch img \<union> log_area img (fbCon s)) = {}"
    and lns: "lns = rsdp_lines (mem s) p @ rsdt_head (mem s) r @ search_lines (mem s) r js" and "lines_fit s lns t"
  shows "\<exists>s'. ACPI_Init img lm cr2 regs cpu s = Some s' \<and> mcfg s' = last_mcfg (mem s) r js (mcfg s) \<and>
    term_rel img s' (lines_shown (unat (TTY_Width s)) lns t) \<and> trace s' = trace s @ map (Out8 0xE9) (concat lns) \<and>
    (\<forall>b. b \<notin> acpi_tmp img \<union> acpi_scratch img \<union> log_area img (fbCon s) \<longrightarrow> mem s' b = mem s b)"
  using ACPI_Init_run [OF assms(1-8) assms(10) [unfolded lns]] unfolding lns screen_run_def by blast

theorem ACPI_Init_finds_mcfg_witness:
  "\<exists>s'. ACPI_Init image0 limine0 0 0 cpu0 (ahci25\<lparr>mem := acpi_memory0\<rparr>) = Some s' \<and> mcfg s' = 0x200100"
proof -
  let ?s = "ahci25\<lparr>mem := acpi_memory0\<rparr>" and ?lns = "map (acpi_text LOGLEVEL_INFO) acpi_messages0"
  have f: "fbCon ?s = fbCon console25" "TTY_Width ?s = TTY_Width console25" "TTY_Height ?s = TTY_Height console25"
    "mem ?s = acpi_memory0"
    by (simp_all add: ahci25_def console25_def)
  have ok: "acpi_ok image0 (row 0) ?s" by (rule acpi_ok0) (simp_all add: acpi_memory0_def)
  have at: "0x300000 = rsdp_address (rsdp_at (mem ?s) (rsdpReq_response limine0))"
    "0x200000 = (ucast (RSDP_RSDTAddress (mem ?s) 0x300000) :: addr)" "load_bytes (mem ?s) 0x300000 8 = bytes ''RSD PTR ''"
    "load_bytes (mem ?s) 0x200000 4 = bytes ''RSDT''"
    unfolding f acpi_fields0 by simp_all
  have js: "[0] = [0..<nat (RSDT_entries (mem ?s) 0x200000)]" "\<forall>i\<in>set [0]. table_clear image0 (fbCon ?s) (mem ?s) 0x200000 i"
    unfolding f acpi_fields0 using acpi_clear0 by simp_all
  have "span 0x300000 20 \<subseteq> table_range" "span 0x200000 40 \<subseteq> table_range" by (rule span_region, simp, simp, simp)+
  then have apart: "(span 0x300000 20 \<union> root_area (mem ?s) 0x200000) \<inter>
      (acpi_tmp image0 \<union> acpi_scratch image0 \<union> log_area image0 (fbCon ?s)) = {}"
    using table_range_clear unfolding f root_area_def acpi_fields0 by auto
  have lns: "?lns = rsdp_lines (mem ?s) 0x300000 @ rsdt_head (mem ?s) 0x200000 @ search_lines (mem ?s) 0x200000 [0]"
    unfolding f acpi_lines0(1) ..
  have fit: "lines_fit ?s ?lns (row 0)"
    using acpi_rows [OF acpi_lines0(2), of 0] unfolding lines_fit_size [OF f(2,3)] by (simp add: acpi_messages0_def)
  have "last_mcfg acpi_memory0 0x200000 [0] old = 0x200100" for old by (simp add: last_mcfg_def acpi_fields0)
  then show ?thesis
    using ACPI_Init_finds_mcfg [OF ok at js apart lns fit, of 0 0 cpu0] unfolding f by auto
qed


text \<open>A root table with another last character in its signature.\<close>

definition bad_memory0 :: memory where
  "bad_memory0 = acpi_memory0(0x200003 := 0x58)"

lemma bad_fields0:
  "rsdp_address (rsdp_at bad_memory0 (rsdpReq_response limine0)) = 0x300000" "RSDP_RSDTAddress bad_memory0 0x300000 = 0x200000"
  "load_bytes bad_memory0 0x300000 8 = bytes ''RSD PTR ''" "load_bytes bad_memory0 0x200000 4 = bytes ''RSDX''"
  "rsdp_lines bad_memory0 0x300000 = map (acpi_text LOGLEVEL_INFO) (take 3 acpi_messages0)"
proof -
  have same: "\<forall>b. b \<noteq> 0x200003 \<longrightarrow> bad_memory0 b = acpi_memory0 b" by (simp add: bad_memory0_def)
  show "rsdp_address (rsdp_at bad_memory0 (rsdpReq_response limine0)) = 0x300000"
    by (simp add: limine_fields limine0_def load64_def mem_eval bad_memory0_def acpi_memory0_def)
  show "RSDP_RSDTAddress bad_memory0 0x300000 = 0x200000"
    by (simp add: RSDP_RSDTAddress_def load32_def mem_eval bad_memory0_def acpi_memory0_def)
  show "load_bytes bad_memory0 0x300000 8 = bytes ''RSD PTR ''" by (simp add: mem_eval bad_memory0_def acpi_memory0_def bytes_def)
  show "load_bytes bad_memory0 0x200000 4 = bytes ''RSDX''" by (simp add: mem_eval bad_memory0_def acpi_memory0_def bytes_def)
  have "RSDP_revision bad_memory0 0x300000 = 0" by (simp add: RSDP_revision_def bad_memory0_def acpi_memory0_def)
  moreover have "text_of (load_bytes bad_memory0 (RSDP_OEMId 0x300000) 6) = []"
    by (simp add: RSDP_OEMId_def text_of_def mem_eval bad_memory0_def acpi_memory0_def)
  ultimately show "rsdp_lines bad_memory0 0x300000 = map (acpi_text LOGLEVEL_INFO) (take 3 acpi_messages0)"
    by (simp add: rsdp_lines_def acpi_messages0_def)
qed

lemma bad_line0:
  defines "l \<equiv> log_text (bytes ''X86ACPI'') LOGLEVEL_FATAL (bad_root_text (bytes ''RSDX''))"
  shows "term_puts 80 l (row 3) = row 5" "term_fits console25 l (row 3)"
proof -
  note eval = l_def bad_root_text_def padded_def text_of_def log_text_def log_head_def log_tail_def text_defs ansiColors_def
    LOGLEVEL_defs term_eval row_def term0_def console25_size
  have codes: "attr_code [0x30] = 0" "attr_code [0x31] = 1" "attr_code [0x33, 0x31] = 31" "attr_code [0x33, 0x33] = 33"
    "attr_code [0x33, 0x36] = 36"
    by (simp_all add: attr_code_def atoi_step_def)
  show "term_puts 80 l (row 3) = row 5" by (simp add: eval term_puts_def codes) (simp add: term_sgr_def palette_def)
  show "term_fits console25 l (row 3)" by (simp add: eval)
qed

lemma bad_report0: "term_fits console25 (cpu_report cpu0 0) (row 5)"
  by (simp add: cpu_report_def cpu0_def panic_text_def panic_pieces_def debug_pieces_def reg_names_def reg_pieces_def text_defs int_out_def
      base_digits.simps upper_digits_def term_eval row_def term0_def console25_size)




end
