(* ===== verification/Idle.thy ===== *)
theory Idle
  imports Interrupts
begin

text \<open>
  The idle loop of \<open>_start\<close> (\<open>kernel/kernel.c\<close>) and the interrupts that end a \<open>hlt\<close>: the processor finds the
  handler in the table that \<open>create_idt\<close> left in memory, the handler runs to its end with interrupts off, and
  the loop goes on.
\<close>

section \<open>Interrupts\<close>

text \<open>
  The handlers by their addresses in the image.  \<open>frame\<close> is what the processor pushed; an address of no handler
  does not come back.
\<close>

definition run_handler ::
    "image \<Rightarrow> device \<Rightarrow> u64 \<Rightarrow> addr \<Rightarrow> u64 \<Rightarrow> 'a interrupts_scheme \<Rightarrow> 'a interrupts_scheme option" where
  "run_handler img dev cr2 frame h s =
     (if h = PageFault_Handler_at img then PageFault_Handler img cr2 frame s
      else if h = DivideByZero_Handler_at img then DivideByZero_Handler img cr2 frame s
      else if h = DoubleFault_Handler_at img then DoubleFault_Handler img cr2 frame s
      else if h = GPFault_Handler_at img then GPFault_Handler img cr2 frame s
      else if h = Keyboard_Handler_at img then Keyboard_Handler img dev s
      else if h = Test_Handler_at img then Test_Handler img s
      else None)"

text \<open>
  An interrupt with vector \<open>n\<close>: an entry within the table's limit with its present bit set leads to its handler; a
  vector without one is a fault in the delivery, which ends in the double fault handler or a reset.
\<close>

definition interrupt ::
    "image \<Rightarrow> device \<Rightarrow> u64 \<Rightarrow> addr \<Rightarrow> int \<Rightarrow> 'a interrupts_scheme \<Rightarrow> 'a interrupts_scheme option" where
  "interrupt img dev cr2 frame n s =
     (let entry = snd (idtr s) + of_int n * sizeof_InterruptEntry
      in if 0 \<le> n \<and> n * 16 + 15 \<le> uint (fst (idtr s)) \<and> bit (mem s (entry + 5)) 7
         then run_handler img dev cr2 frame (get_interrupt_offset (mem s) entry) s else None)"

text \<open>The loop: what is left of the state after the interrupts with the vectors \<open>ns\<close>, one per \<open>hlt\<close>.\<close>

fun idle ::
    "image \<Rightarrow> device \<Rightarrow> u64 \<Rightarrow> addr \<Rightarrow> int list \<Rightarrow> 'a interrupts_scheme \<Rightarrow> 'a interrupts_scheme option" where
  "idle img dev cr2 frame [] s = Some s"
| "idle img dev cr2 frame (n # ns) s =
     (if interrupt_flag s then Option.bind (interrupt img dev cr2 frame n s) (idle img dev cr2 frame ns) else None)"

lemma idle_append: "idle img dev cr2 fr (ms @ ns) s = Option.bind (idle img dev cr2 fr ms s) (idle img dev cr2 fr ns)"
  by (induction ms arbitrary: s) (auto split: bind_splits)

section \<open>Switched off\<close>

text \<open>
  \<open>disablePIC\<close> of \<open>gdtasm.asm\<close> masks every line of both controllers; \<open>halt\<close> of \<open>kernel.c\<close> stops with interrupts off,
  so that nothing ends its \<open>hlt\<close>.
\<close>

definition disablePIC :: "'a machine_scheme \<Rightarrow> 'a machine_scheme" where
  "disablePIC s = outb 0x21 0xFF (outb 0xA1 0xFF s)"

definition halt :: "'a interrupts_scheme \<Rightarrow> 'a interrupts_scheme option" where
  "halt s = halt_loop (s\<lparr>interrupt_flag := False\<rparr>)"

lemma disablePIC_masks:
  "\<exists>es. disablePIC s = s\<lparr>trace := trace s @ es\<rparr> \<and>
     (\<forall>p. pic_step p = 0 \<longrightarrow> pic_run 0x20 es p = p\<lparr>pic_mask := 0xFF\<rparr> \<and> pic_run 0xA0 es p = p\<lparr>pic_mask := 0xFF\<rparr>)"
  by (rule exI [of _ "[Out8 0xA1 0xFF, Out8 0x21 0xFF]"]) (simp add: disablePIC_def outb_def emit_def pic_data_def)

lemma halt_never_returns: "halt s = None"
  by (simp add: halt_def)

section \<open>The gates\<close>

definition handlers_distinct :: "image \<Rightarrow> bool" where
  "handlers_distinct img \<longleftrightarrow> distinct (map snd (idt_vectors img))"

definition idt_ready :: "image \<Rightarrow> 'a interrupts_scheme \<Rightarrow> bool" where
  "idt_ready img s \<longleftrightarrow> interrupt_flag s \<and> idtr s = (0x0FFF, idt_page_at img) \<and>
     list_all (\<lambda>(n, h). gate_at (mem s) (entry_at (idt_page_at img) n) h) (idt_vectors img)"

lemma interrupt_gate:
  assumes "idt_ready img s" and "(n, h) \<in> set (idt_vectors img)"
  shows "interrupt img dev cr2 fr n s = run_handler img dev cr2 fr h s"
proof -
  have "gate_at (mem s) (entry_at (idt_page_at img) n) h" using assms by (auto simp: idt_ready_def list_all_iff)
  moreover have "bit int_ta_gate 7" by (simp add: int_ta_gate_def)
  moreover have "0 \<le> n" "n * 16 + 15 \<le> 0xFFF"
    using assms(2) idt_vectors_ok [of img] by (auto simp: vectors_ok_def list_all_iff)
  ultimately show ?thesis
    using assms(1) by (simp add: interrupt_def idt_ready_def gate_at_def entry_at_def sizeof_InterruptEntry_def)
qed

lemma interrupt_keyboard:
  "idt_ready img s \<Longrightarrow> handlers_distinct img \<Longrightarrow> interrupt img dev cr2 fr 0x21 s = Keyboard_Handler img dev s"
  using interrupt_gate [of img s "0x21" "Keyboard_Handler_at img"]
  by (auto simp: idt_vectors_def handlers_distinct_def run_handler_def)

text \<open>The message of a fault.\<close>

definition fault_message :: "int \<Rightarrow> string option" where
  "fault_message n =
     (if n = 0xE then Some ''Page Fault Detected'' else if n = 0x0 then Some ''You can't divide by 0 silly :P''
      else if n = 0x8 then Some ''Double Fault Detected'' else if n = 0xD then Some ''General Protection Fault Detected''
      else None)"

lemma interrupt_fault:
  assumes "idt_ready img s" "handlers_distinct img" "fault_message n = Some w"
  shows "interrupt img dev cr2 fr n s = panic img cr2 (lit w) fr s"
proof -
  have "n \<in> {0xE, 0x0, 0x8, 0xD}" using assms(3) by (auto simp: fault_message_def split: if_splits)
  then show ?thesis
    using assms interrupt_gate [OF assms(1), of n] 
    by (auto simp: idt_vectors_def handlers_distinct_def run_handler_def fault_message_def PageFault_Handler_def
        DivideByZero_Handler_def DoubleFault_Handler_def GPFault_Handler_def)
qed

section \<open>Keys\<close>

text \<open>The table lies apart from what the keyboard and the console write.\<close>

definition idt_apart :: "image \<Rightarrow> 'a console_scheme \<Rightarrow> bool" where
  "idt_apart img s \<longleftrightarrow> span (idt_page_at img) 4096 \<inter> (console_area img (fbCon s) \<union> span (input_at img) 100) = {}"

lemma entry_in_table: "0 \<le> n \<Longrightarrow> n < 256 \<Longrightarrow> span (entry_at a n) 16 \<subseteq> span a 4096"
  using span_sub [of "16 * nat n" 16 4096 a] by (simp add: entry_at_def mult.commute)

lemma idt_ready_frame:
  assumes ready: "idt_ready img s" and apart: "idt_apart img s" and frame: "key_frame img s s'"
  shows "idt_ready img s'"
proof -
  have more: "interrupt_flag s' = interrupt_flag s" "idtr s' = idtr s"
    using frame by (cases s, cases s', simp add: key_frame_def)+
  have "gate_at (mem s') (entry_at (idt_page_at img) n) h = gate_at (mem s) (entry_at (idt_page_at img) n) h"
    if "(n, h) \<in> set (idt_vectors img)" for n h
  proof (rule gate_at_cong)
    fix b assume "b \<in> span (entry_at (idt_page_at img) n) 16"
    moreover have "0 \<le> n" "n < 256" using that idt_vectors_ok [of img] by (auto simp: vectors_ok_def list_all_iff)
    ultimately have "b \<in> span (idt_page_at img) 4096" using entry_in_table by blast
    then show "mem s' b = mem s b" using apart frame by (auto simp: idt_apart_def key_frame_def)
  qed
  then show ?thesis using ready more by (auto simp: idt_ready_def list_all_iff)
qed

lemma idt_apart_frame: "key_frame img s s' \<Longrightarrow> idt_apart img s' = idt_apart img s"
  by (simp add: idt_apart_def key_frame_def)

text \<open>The accesses of one keyboard interrupt, and the device that answers with the keys \<open>ks\<close>.\<close>

definition key_io :: "u8 \<Rightarrow> io_event list" where
  "key_io k = [In8 0x60 k, Out8 0x20 0x20, Out8 0x20 0x20]"

fun keys_arrive :: "device \<Rightarrow> io_event list \<Rightarrow> u8 list \<Rightarrow> bool" where
  "keys_arrive dev tr [] \<longleftrightarrow> True"
| "keys_arrive dev tr (k # ks) \<longleftrightarrow> k = ucast (dev tr 0x60) \<and> keys_arrive dev (tr @ key_io k) ks"

lemma idle_keys:
  assumes "idt_ready img s" "handlers_distinct img" "idt_apart img s" "key_layout img s" "line_rel img s e"
    "term_rel img s t" "keys_fit s ks e t" "keys_arrive dev (trace s) ks"
  shows "\<exists>s'. idle img dev cr2 fr (replicate (length ks) 0x21) s = Some s' \<and>
    line_rel img s' (fst (key_run (unat (TTY_Width s)) ks (e, t))) \<and>
    term_rel img s' (snd (key_run (unat (TTY_Width s)) ks (e, t))) \<and> key_frame img s s' \<and>
    trace s' = trace s @ concat (map key_io ks) \<and> idt_ready img s'"
  using assms
proof (induction ks arbitrary: s e t)
  case (Cons k ks)
  let ?w = "unat (TTY_Width s)"
  note prems = Cons.prems
  have k: "k = ucast (dev (trace s) 0x60)" "keys_arrive dev (trace s @ key_io k) ks" using prems(8) unfolding keys_arrive.simps by blast+
  have fit: "keys_fit s [k] e t" using prems(7) by simp
  obtain s1 where s1: "Keyboard_Handler img dev s = Some s1" "line_rel img s1 (fst (key_step k e))"
      "term_rel img s1 (term_puts ?w (snd (key_step k e)) t)" "key_frame img s s1" "trace s1 = trace s @ key_io k"
    using keyboard_interrupt [of k dev s img e t, OF k(1) prems(4-6) fit] by (auto simp: key_io_def)
  have w: "unat (TTY_Width s1) = ?w" using s1(4) by (simp add: key_frame_def)
  have next_key: "idt_ready img s1" "idt_apart img s1" "key_layout img s1"
    "keys_fit s1 ks (fst (key_step k e)) (term_puts ?w (snd (key_step k e)) t)" "keys_arrive dev (trace s1) ks"
    using prems(3,4,7) k(2) s1(5) idt_ready_frame [OF prems(1,3) s1(4)]
    by (simp_all add: idt_apart_frame [OF s1(4)] key_layout_frame [OF s1(4)] keys_fit_frame [OF s1(4)])
  have "interrupt_flag s" using prems(1) by (simp add: idt_ready_def)
  moreover have "interrupt img dev cr2 fr 0x21 s = Some s1" using interrupt_keyboard [OF prems(1,2)] s1(1) by simp
  ultimately show ?case
    using Cons.IH [OF next_key(1) prems(2) next_key(2,3) s1(2,3) next_key(4,5)] s1(5) key_frame_trans [OF s1(4)]
    unfolding w by auto
qed simp

section \<open>The table that \<open>create_idt\<close> made\<close>

lemma install_shape: "\<exists>m. install es s = s\<lparr>mem := m\<rparr>"
proof (induction es arbitrary: s)
  case Nil
  have "s = s\<lparr>mem := mem s\<rparr>" by simp
  then show ?case unfolding install_simps by blast
next
  case (Cons e es)
  obtain n h where e: "e = (n, h)" by (cases e)
  have "\<exists>m. CreateEntry n h s = s\<lparr>mem := m\<rparr>" by (auto simp: CreateEntry_def Let_def)
  then obtain m where "CreateEntry n h s = s\<lparr>mem := m\<rparr>" by blast
  then show ?case using Cons.IH [of "s\<lparr>mem := m\<rparr>"] e by auto
qed

lemma create_idt_shape:
  "\<exists>m tr. create_idt img dev s =
     s\<lparr>mem := m, trace := tr, idt_limit := 0x0FFF, idt_offset := idt_page_at img, idtr := (0x0FFF, idt_page_at img),
       interrupt_flag := True\<rparr>"
proof -
  let ?s0 = "s\<lparr>idt_limit := 0x0FFF, idt_offset := idt_page_at img\<rparr>"
  obtain m where m: "install (idt_vectors img) ?s0 = ?s0\<lparr>mem := m\<rparr>" using install_shape by blast
  obtain a b where rm: "remap_interrupts_for_io dev ((?s0\<lparr>mem := m\<rparr>)\<lparr>idtr := (0x0FFF, idt_page_at img)\<rparr>) =
      ((?s0\<lparr>mem := m\<rparr>)\<lparr>idtr := (0x0FFF, idt_page_at img)\<rparr>)\<lparr>trace := trace s @ pic_history a b\<rparr>"
    using remap_history [of dev "(?s0\<lparr>mem := m\<rparr>)\<lparr>idtr := (0x0FFF, idt_page_at img)\<rparr>"] by auto
  have "create_idt img dev s =
      s\<lparr>mem := m, trace := trace s @ pic_history a b @ [Out8 0x21 0xF9, Out8 0xA1 0xEF], idt_limit := 0x0FFF,
        idt_offset := idt_page_at img, idtr := (0x0FFF, idt_page_at img), interrupt_flag := True\<rparr>"
    unfolding create_idt_state m rm by (simp add: outb_def emit_def pic_defs)
  then show ?thesis by blast
qed

lemma create_idt_keeps:
  assumes apart: "idt_apart img s" and lay: "key_layout img s" and rel: "line_rel img s e" "term_rel img s t"
    and pending: "length (pending t) < 256" and s1_def: "s1 = create_idt img dev s"
  shows "idt_ready img s1" "idt_apart img s1" "key_layout img s1" "line_rel img s1 e" "term_rel img s1 t"
    "fbCon s1 = fbCon s" "TTY_Width s1 = TTY_Width s" "TTY_Height s1 = TTY_Height s"
    "\<And>b. b \<notin> span (idt_page_at img) 4096 \<Longrightarrow> mem s1 b = mem s b"
proof -
  have eff: "idtr s1 = (0x0FFF, idt_page_at img)" "interrupt_flag s1"
    "list_all (\<lambda>(n, h). gate_at (mem s1) (entry_at (idt_page_at img) n) h) (idt_vectors img)"
    "b \<notin> span (idt_page_at img) 4096 \<Longrightarrow> mem s1 b = mem s b" for b
    using create_idt_effect [of s1 img dev s] unfolding s1_def by blast+
  obtain m tr where s1: "s1 = s\<lparr>mem := m, trace := tr, idt_limit := 0x0FFF, idt_offset := idt_page_at img,
      idtr := (0x0FFF, idt_page_at img), interrupt_flag := True\<rparr>"
    unfolding s1_def using create_idt_shape by blast
  show "idt_ready img s1" using eff by (simp add: idt_ready_def)
  show "idt_apart img s1" using apart by (simp add: s1 idt_apart_def)
  show "key_layout img s1" using lay by (simp add: s1 key_layout_def console_layout_def)
  have "input_holds img (mem s1) (le_text e) = input_holds img (mem s) (le_text e)"
    using apart eff(4) by (intro input_cong) (auto simp: idt_apart_def)
  then show "line_rel img s1 e" using rel(1) by (simp add: s1 line_rel_def)
  have "mem s1 b = mem s b" if "b \<in> console_area img (fbCon s)" for b
    using apart eff(4) that by (auto simp: idt_apart_def)
  then show "term_rel img s1 t" using term_rel_cong [of s1 s img t] rel(2) pending by (simp add: s1)
  show "fbCon s1 = fbCon s" "TTY_Width s1 = TTY_Width s" "TTY_Height s1 = TTY_Height s" by (simp_all add: s1)
  show "mem s1 b = mem s b" if "b \<notin> span (idt_page_at img) 4096" for b using eff(4) that .
qed

text \<open>A fault on a screen that shows \<open>t\<close>.\<close>

lemma idle_panics:
  assumes img: "handlers_distinct img" and ready: "idt_ready img s" and rel: "term_rel img s t" and lay: "console_layout img s"
    and fault: "fault_message v = Some w" and regs: "frame \<noteq> 0" "span frame 176 \<inter> console_area img (fbCon s) = {}"
    and fits: "term_fits s (panic_text (bytes w) (shown_regs (mem s) frame cr2)) t"
  shows "interrupt img dev cr2 frame v s = None \<and>
    (\<exists>s'. panic_screen img cr2 (lit w) frame s = Some s' \<and>
       term_rel img s' (term_puts (unat (TTY_Width s)) (panic_text (bytes w) (shown_regs (mem s) frame cr2)) t))"
proof -
  have w: "0 \<notin> set (bytes w)" "length (bytes w) < 1000"
    using fault by (auto simp: fault_message_def bytes_def split: if_splits)
  have "str_arg (mem s) {} (lit w) (bytes w)"
    using fault by (auto simp: fault_message_def str_arg_def lit_def bytes_def split: if_splits)
  from panic_report [OF lay rel this _ regs fits panic_text_ok [OF length_shown_regs w]]
  show ?thesis using interrupt_fault [OF ready img fault] panic_never_returns by fastforce
qed

section \<open>Properties\<close>

definition interrupts25 :: interrupts where
  "interrupts25 = keyboard.extend (console.extend console25 (keyboard.fields 0 0 0)) (interrupts.fields 0 0 (0, 0) (0, 0) 0 0 False)"

definition editor0 :: line_editor where
  "editor0 = \<lparr>le_left = False, le_right = False, le_text = []\<rparr>"

lemma interrupts25_fields:
  "mem interrupts25 = (\<lambda>_. 0)" "fbCon interrupts25 = fbCon console25" "unat (TTY_Width interrupts25) = 80"
  "unat (TTY_Height interrupts25) = 25" "TTY_Width interrupts25 = TTY_Width console25"
  "TTY_Height interrupts25 = TTY_Height console25"
  by (simp_all add: interrupts25_def console25_def console0_def console.defs keyboard.defs interrupts.defs)

lemma interrupts25_rel: "term_rel image0 interrupts25 term0" "line_rel image0 interrupts25 editor0"
proof -
  note i25 = interrupts25_def console25_def console0_def console.defs keyboard.defs interrupts.defs
  show "term_rel image0 interrupts25 term0" by (simp add: term_rel_def i25 term0_def esc_text_def pending_def)
  have "load_bytes (\<lambda>_. 0) a n = replicate n 0" for a n by (induction n arbitrary: a) simp_all
  then show "line_rel image0 interrupts25 editor0" by (simp add: line_rel_def input_holds_def i25 editor0_def)
qed

lemma area25: "console_area image0 (fbCon interrupts25) = span 0x800000000 1024000 \<union> span 0x101000 256 \<union> span 0x111000 256"
  unfolding console_area_def interrupts25_fields console25_bytes by (simp add: image0_def)

lemma interrupts25_layout: "key_layout image0 interrupts25" "idt_apart image0 interrupts25" "handlers_distinct image0"
proof -
  have at: "input_at image0 = 0x102040" "idt_page_at image0 = 0x104000" by (simp_all add: image0_def)
  have "span (0x102040 :: addr) 100 \<inter> span 0x800000000 1024000 = {}" by (rule span_disjI) simp_all
  moreover have "span (0x102040 :: addr) 100 \<inter> span 0x101000 256 = {}" by (rule span_disjI') simp_all
  moreover have "span (0x102040 :: addr) 100 \<inter> span 0x111000 256 = {}" by (rule span_disjI) simp_all
  moreover have "console_layout image0 interrupts25"
    using console25_layout interrupts25_fields by (simp add: log_layout_def console_layout_def)
  ultimately show "key_layout image0 interrupts25" unfolding key_layout_def area25 at by (simp add: Int_Un_distrib)
  have "span (0x104000 :: addr) 4096 \<inter> span 0x800000000 1024000 = {}" by (rule span_disjI) simp_all
  moreover have "span (0x104000 :: addr) 4096 \<inter> span 0x101000 256 = {}" by (rule span_disjI') simp_all
  moreover have "span (0x104000 :: addr) 4096 \<inter> span 0x111000 256 = {}" by (rule span_disjI) simp_all
  moreover have "span (0x104000 :: addr) 4096 \<inter> span 0x102040 100 = {}" by (rule span_disjI') simp_all
  ultimately show "idt_apart image0 interrupts25" unfolding idt_apart_def area25 at by (simp add: Int_Un_distrib)
  show "handlers_distinct image0" by (simp add: handlers_distinct_def idt_vectors_def image0_def)
qed

text \<open>The key A on the empty line.\<close>

lemma key_A:
  "keys_fit interrupts25 [0x1E] editor0 term0" "keys_arrive (\<lambda>_ _. 0x1E) tr [0x1E]" "length (pending term0) < 256"
  "key_run 80 [0x1E] (editor0, term0) = (editor0\<lparr>le_text := [0x61]\<rparr>, term0\<lparr>t_x := 1\<rparr>)"
proof -
  have typed: "typed 0x1E \<lparr>le_left = False, le_right = False, le_text = []\<rparr> = 0x61"
    by (simp add: typed_def key_char_def key_rows_def)
  show "keys_fit interrupts25 [0x1E] editor0 term0" "length (pending term0) < 256"
    by (simp_all add: key_ok_def typed key_step_def term_ok_def interrupts25_fields console25_size pending_def term0_def editor0_def)
  show "keys_arrive (\<lambda>_ _. 0x1E) tr [0x1E]" by simp
  show "key_run 80 [0x1E] (editor0, term0) = (editor0\<lparr>le_text := [0x61]\<rparr>, term0\<lparr>t_x := 1\<rparr>)"
    by (simp add: key_step_def typed term_puts_def term_put_def term_advance_def term0_def editor0_def)
qed

text \<open>
  C17: Keyboard to screen through the idle loop: after \<open>create_idt\<close>, whatever scan codes the keyboard answers on
  its interrupts, each runs the driver through gate 0x21 and gives control back; the line and the screen are the
  ones of the line editor, each interrupt is read once and acknowledged twice, and the gates still stand at the end.
\<close>

theorem idle_serves_keys:
  assumes img: "handlers_distinct img" and apart: "idt_apart img s" and lay: "key_layout img s"
    and rel: "line_rel img s e" "term_rel img s t" and pending: "length (pending t) < 256"
    and keys: "keys_fit s ks e t" "keys_arrive dev (trace (create_idt img dev s)) ks"
  shows "\<exists>s'. idle img dev cr2 frame (replicate (length ks) 0x21) (create_idt img dev s) = Some s' \<and>
    line_rel img s' (fst (key_run (unat (TTY_Width s)) ks (e, t))) \<and>
    term_rel img s' (snd (key_run (unat (TTY_Width s)) ks (e, t))) \<and>
    trace s' = trace (create_idt img dev s) @ concat (map key_io ks) \<and> idt_ready img s'"
proof -
  note keeps = create_idt_keeps [OF apart lay rel pending refl, where dev = dev]
  have "keys_fit (create_idt img dev s) ks e t" using keys(1) keys_fit_size [OF keeps(7,8)] by simp
  from idle_keys [OF keeps(1) img keeps(2-5) this keys(2)] show ?thesis by (auto simp: keeps(7))
qed

theorem idle_serves_keys_witness:
  "\<exists>s'. idle image0 (\<lambda>_ _. 0x1E) 0 0 [0x21] (create_idt image0 (\<lambda>_ _. 0x1E) interrupts25) = Some s' \<and>
     input_holds image0 (mem s') [0x61] \<and> unat (TTY_CursorX s') = 1"
  using idle_serves_keys [OF interrupts25_layout(3,2,1) interrupts25_rel(2,1) key_A(3,1,2), of 0 0]
  unfolding interrupts25_fields(3) key_A(4) by (auto simp: line_rel_def term_rel_def simp del: idle.simps)



end
