(* ===== verification/Listing.thy ===== *)
theory Listing
  imports Ramfs
begin

text \<open>
  \<open>ls\<close> of \<open>kernel/fs/ramfs.c\<close>: the names it prints.  A path is split twice at its first slash, and the part between
  the two slashes is compared with that of the entry before.
\<close>

section \<open>Paths\<close>

definition path_head :: "u8 list \<Rightarrow> u8 list" where
  "path_head p = takeWhile (\<lambda>c. c \<noteq> 0x2F) p"

definition path_rest :: "u8 list \<Rightarrow> u8 list" where
  "path_rest p = tl (dropWhile (\<lambda>c. c \<noteq> 0x2F) p)"

definition second_name :: "u8 list \<Rightarrow> u8 list" where
  "second_name p = path_head (path_rest p)"

lemma path_parts:
  "path_head p @ dropWhile (\<lambda>c. c \<noteq> 0x2F) p = p" "0x2F \<notin> set (path_head p)"
  "dropWhile (\<lambda>c. c \<noteq> 0x2F) p = [] \<or> hd (dropWhile (\<lambda>c. c \<noteq> 0x2F) p) = 0x2F"
  "length (path_head p) \<le> length p" "length (path_rest p) \<le> length p"
  "set (path_head p) \<subseteq> set p" "set (path_rest p) \<subseteq> set p"
proof -
  show "path_head p @ dropWhile (\<lambda>c. c \<noteq> 0x2F) p = p" by (simp add: path_head_def)
  show "0x2F \<notin> set (path_head p)" unfolding path_head_def using set_takeWhileD by fastforce
  show "dropWhile (\<lambda>c. c \<noteq> 0x2F) p = [] \<or> hd (dropWhile (\<lambda>c. c \<noteq> 0x2F) p) = 0x2F"
    using hd_dropWhile [of "\<lambda>c. c \<noteq> 0x2F" p] by blast
  show "length (path_head p) \<le> length p" by (simp add: path_head_def length_takeWhile_le)
  show "length (path_rest p) \<le> length p"
    unfolding path_rest_def using length_dropWhile_le [of "\<lambda>c. c \<noteq> 0x2F" p] by simp
  show "set (path_head p) \<subseteq> set p" unfolding path_head_def using set_takeWhileD by fastforce
  have "set (tl xs) \<subseteq> set xs" for xs :: "u8 list" by (cases xs) auto
  from this [of "dropWhile (\<lambda>c. c \<noteq> 0x2F) p"] show "set (path_rest p) \<subseteq> set p"
    unfolding path_rest_def by (blast dest: set_dropWhileD)
qed

lemma second_name_set: "set (second_name p) \<subseteq> set p" "length (second_name p) \<le> length p"
  using path_parts(4-7) [of p] path_parts(4-7) [of "path_rest p"] by (auto simp: second_name_def)

section \<open>One split\<close>

lemma strsplit_sizes:
  "strsplit p1 p2 str c m = Some (ts, m') \<Longrightarrow> length (ts_a ts) = 128 \<and> length (ts_b ts) = 128"
  by (auto simp: strsplit_def Let_def bind_eq_Some_conv simp del: load_bytes.simps)

lemma cstr_load_array:
  "load_bytes m a n = bs \<Longrightarrow> length (array_str bs) < n \<Longrightarrow> cstr m (Addr a) (array_str bs)"
proof (induction n arbitrary: a bs)
  case (Suc n)
  then obtain cs where bs: "bs = m a # cs" "load_bytes m (a + 1) n = cs" by auto
  then have "cstr m (Addr (a + 1)) (array_str cs)" if "m a \<noteq> 0"
    using Suc.IH [OF bs(2)] Suc.prems(2) that by (simp add: array_str_def)
  then have "cstr m (Addr a) (array_str bs)" if "m a \<noteq> 0" using bs(1) that by (simp add: array_str_def cstr_Cons)
  moreover have "cstr m (Addr a) (array_str bs)" if "m a = 0" using bs(1) that by (simp add: array_str_def)
  ultimately show ?case by blast
qed simp

definition split_area :: "image \<Rightarrow> addr set" where
  "split_area L = span (strsplit_p1_at L) 128 \<union> span (strsplit_p2_at L) 128"

lemma split_into_parts:
  assumes p: "cstr m (Addr a) p" "length p < 128"
    and sep: "span (strsplit_p1_at L) 128 \<inter> span (strsplit_p2_at L) 128 = {}" "split_area L \<inter> span a 128 = {}"
  obtains m' where "split_into L d a m = Some m'" "cstr m' (Addr d) (path_head p)" "cstr m' (Addr (d + 128)) (path_rest p)"
    "\<forall>b. b \<notin> split_area L \<union> span d 256 \<longrightarrow> m' b = m b"
proof -
  note pp = path_parts [of p]
  have sub: "span a (Suc (length p)) \<subseteq> span a 128" using p(2) by (intro span_mono) simp
  have "separate (span (strsplit_p1_at L) 128) (span (strsplit_p2_at L) 128) (ptr_span (Addr a) (Suc (length p)))"
    using sep sub by (auto simp: separate_def split_area_def)
  then obtain ts m1 where ts: "strsplit (strsplit_p1_at L) (strsplit_p2_at L) (Addr a) 0x2F m = Some (ts, m1)"
      "array_str (ts_a ts) = path_head p" "array_str (ts_b ts) = path_rest p"
      "\<forall>b. b \<notin> span (strsplit_p1_at L) 128 \<and> b \<notin> span (strsplit_p2_at L) 128 \<longrightarrow> m1 b = m b"
    using strsplit_result [of m "Addr a" "path_head p" "dropWhile (\<lambda>c. c \<noteq> 0x2F) p" "0x2F" "strsplit_p1_at L" "strsplit_p2_at L"]
      p pp by (auto simp: path_rest_def)
  let ?m = "store_bytes m1 d (ts_a ts @ ts_b ts)"
  have len: "length (ts_a ts) = 128" "length (ts_b ts) = 128" using strsplit_sizes [OF ts(1)] by simp_all
  have "load_bytes ?m d (128 + 128) = ts_a ts @ ts_b ts" using load_store_bytes [of "ts_a ts @ ts_b ts" m1 d] len by simp
  then have ld: "load_bytes ?m d 128 = ts_a ts" "load_bytes ?m (d + 128) 128 = ts_b ts"
    unfolding load_bytes_append using len by (simp_all del: load_bytes.simps)
  have "cstr ?m (Addr d) (path_head p)" "cstr ?m (Addr (d + 128)) (path_rest p)"
    using cstr_load_array [OF ld(1)] cstr_load_array [OF ld(2)] ts(2,3) pp(4,5) p(2) by simp_all
  moreover have "split_into L d a m = Some ?m" using ts(1) by (simp add: split_into_def)
  moreover have "?m b = m b" if "b \<notin> split_area L \<union> span d 256" for b
    using that ts(4) store_bytes_frame [of b d "ts_a ts @ ts_b ts" m1] len by (simp add: split_area_def)
  ultimately show thesis using that by blast
qed

text \<open>The two splits of an entry, the second one of what the first one left.\<close>

lemma split_twice:
  assumes p: "cstr m (Addr a) p" "length p < 128"
    and sep: "span (strsplit_p1_at L) 128 \<inter> span (strsplit_p2_at L) 128 = {}" "split_area L \<inter> span a 128 = {}"
      "split_area L \<inter> span d1 256 = {}"
  obtains m1 m2 where "split_into L d1 a m = Some m1" "split_into L d2 (d1 + 128) m1 = Some m2"
    "cstr m2 (Addr d2) (second_name p)"
    "\<forall>b. b \<notin> split_area L \<union> span d1 256 \<union> span d2 256 \<longrightarrow> m2 b = m b"
proof -
  obtain m1 where m1: "split_into L d1 a m = Some m1" "cstr m1 (Addr (d1 + 128)) (path_rest p)"
      "\<forall>b. b \<notin> split_area L \<union> span d1 256 \<longrightarrow> m1 b = m b"
    by (rule split_into_parts [OF p sep(1,2)])
  have len: "length (path_rest p) < 128" using path_parts(5) [of p] p(2) by simp
  have "span (d1 + of_nat 128) 128 \<subseteq> span d1 256" by (rule span_sub) simp
  then have "split_area L \<inter> span (d1 + 128) 128 = {}" using sep(3) by auto
  then obtain m2 where m2: "split_into L d2 (d1 + 128) m1 = Some m2" "cstr m2 (Addr d2) (path_head (path_rest p))"
      "\<forall>b. b \<notin> split_area L \<union> span d2 256 \<longrightarrow> m2 b = m1 b"
    by (rule split_into_parts [OF m1(2) len sep(1)])
  show thesis by (rule that [OF m1(1) m2(1)]) (use m2(2,3) m1(3) in \<open>auto simp: second_name_def\<close>)
qed

section \<open>The directory\<close>

definition header_at :: "image \<Rightarrow> memory \<Rightarrow> nat \<Rightarrow> addr" where
  "header_at L m k = load64 m (headers_at L + 8 * of_nat k)"

text \<open>The paths in the headers of the table, and the empty header behind them.\<close>

definition dir_table :: "image \<Rightarrow> memory \<Rightarrow> u8 list list \<Rightarrow> bool" where
  "dir_table L m ps \<longleftrightarrow> (\<forall>k<length ps. cstr m (Addr (header_at L m k)) (ps ! k) \<and> length (ps ! k) < 128 \<and> ps ! k \<noteq> []) \<and>
     m (header_at L m (length ps)) = 0"

definition dir_area :: "image \<Rightarrow> memory \<Rightarrow> nat \<Rightarrow> addr set" where
  "dir_area L m n = span (headers_at L) (8 * Suc n) \<union> (\<Union>k<n. span (header_at L m k) 128) \<union> {header_at L m n}"

definition names_area :: "image \<Rightarrow> addr set" where
  "names_area L = split_area L \<union> span (fullName_at L) 256 \<union> span (nameInPath_at L) 256 \<union>
     span (oldFullName_at L) 256 \<union> span (oldNameInPath_at L) 256"

lemma header_at_cong:
  assumes "\<forall>b\<in>dir_area L m n. m' b = m b" and "k \<le> n"
  shows "header_at L m' k = header_at L m k"
proof -
  have "span (headers_at L + of_nat (8 * k)) 8 \<subseteq> dir_area L m n"
    unfolding dir_area_def Un_assoc using assms(2) by (intro le_supI1 span_sub) simp
  then show ?thesis unfolding header_at_def using assms(1) by (intro c64.ld_cong) auto
qed

lemma dir_table_cong:
  assumes same: "\<forall>b\<in>dir_area L m (length ps). m' b = m b" and dir: "dir_table L m ps"
  shows "dir_table L m' ps" "dir_area L m' (length ps) = dir_area L m (length ps)"
proof -
  note h = header_at_cong [OF same]
  show "dir_area L m' (length ps) = dir_area L m (length ps)" unfolding dir_area_def using h by auto
  have at: "m' b = m b" if "k < length ps" "b \<in> span (header_at L m k) 128" for k b
    using same that by (auto simp: dir_area_def)
  have "cstr m' (Addr (header_at L m' k)) (ps ! k)" if k: "k < length ps" for k
  proof -
    have p: "cstr m (Addr (header_at L m k)) (ps ! k)" "length (ps ! k) < 128" using dir k by (simp_all add: dir_table_def)
    have "span (header_at L m k) (Suc (length (ps ! k))) \<subseteq> span (header_at L m k) 128" using p(2) by (intro span_mono) simp
    then have "cstr m (Addr (header_at L m k)) (ps ! k) = cstr m' (Addr (header_at L m k)) (ps ! k)"
      using at [of k] k by (intro cstr_ptr_cong) auto
    then show ?thesis using p(1) h [of k] k by simp
  qed
  moreover have "m' (header_at L m' (length ps)) = m (header_at L m (length ps))"
    using same h [of "length ps"] by (simp add: dir_area_def)
  ultimately show "dir_table L m' ps" using dir by (simp add: dir_table_def)
qed

text \<open>What \<open>ls\<close> prints.\<close>

definition entry_line :: "u8 list list \<Rightarrow> nat \<Rightarrow> u8 list" where
  "entry_line ps k = (if k = 1 \<or> second_name (ps ! (k - 1)) = second_name (ps ! k) then second_name (ps ! k) @ nl else [])"

definition ls_text :: "u8 list list \<Rightarrow> nat \<Rightarrow> u8 list" where
  "ls_text ps k = concat (map (entry_line ps) [k..<length ps])"

lemma ls_text_step: "k < length ps \<Longrightarrow> ls_text ps k = entry_line ps k @ ls_text ps (Suc k)"
  by (simp add: ls_text_def upt_conv_Cons)

text \<open>Where the buffers of \<open>ls\<close> may lie.\<close>

definition ls_image :: "image \<Rightarrow> framebuffer_t \<Rightarrow> bool" where
  "ls_image L f \<longleftrightarrow> span (strsplit_p1_at L) 128 \<inter> span (strsplit_p2_at L) 128 = {} \<and>
     split_area L \<inter> (span (fullName_at L) 256 \<union> span (oldFullName_at L) 256) = {} \<and> nameInPath_at L \<noteq> 0 \<and>
     span (nameInPath_at L) 256 \<inter> (split_area L \<union> span (oldFullName_at L) 256 \<union> span (oldNameInPath_at L) 256) = {} \<and>
     names_area L \<inter> console_area L f = {}"

lemma clear_names_frame: "b \<notin> names_area L \<Longrightarrow> clear_names L m b = m b"
proof -
  assume out: "b \<notin> names_area L"
  have "b \<notin> span a 100 \<and> b \<notin> span (a + 128) 100" if "b \<notin> span a 256" for a
    using that span_mono [of 100 256 a] span_sub [of 128 100 256 a] by auto
  then show ?thesis using out by (simp add: clear_names_def names_area_def store_bytes_frame)
qed


section \<open>One entry\<close>

definition ls_ready :: "image \<Rightarrow> u8 list list \<Rightarrow> terminal \<Rightarrow> 'a ramfs_scheme \<Rightarrow> bool" where
  "ls_ready L ps t s \<longleftrightarrow> console_layout L s \<and> term_rel L s t \<and> t_esc t = None \<and> ls_image L (fbCon s) \<and>
     dir_table L (mem s) ps \<and> dir_area L (mem s) (length ps) \<inter> (names_area L \<union> console_area L (fbCon s)) = {}"

definition ls_run :: "image \<Rightarrow> 'a ramfs_scheme \<Rightarrow> 'a ramfs_scheme \<Rightarrow> bool" where
  "ls_run L s s' \<longleftrightarrow> same_screen s s' \<and> (\<forall>b. b \<notin> names_area L \<union> console_area L (fbCon s) \<longrightarrow> mem s' b = mem s b)"

lemma ls_run_trans: "ls_run L s s' \<Longrightarrow> ls_run L s' s'' \<Longrightarrow> ls_run L s s''"
  unfolding ls_run_def using same_screen_trans [of s s' s''] by (auto simp: same_screen_def)

lemma ls_ready_run:
  assumes ready: "ls_ready L ps t s" and run: "ls_run L s s'" and shown: "term_rel L s' t'" "t_esc t' = None"
  shows "ls_ready L ps t' s'"
proof -
  have same: "\<forall>b\<in>dir_area L (mem s) (length ps). mem s' b = mem s b" and f: "fbCon s' = fbCon s"
    using ready run by (auto simp: ls_ready_def ls_run_def same_screen_def)
  have dir: "dir_table L (mem s) ps" using ready by (simp add: ls_ready_def)
  have "console_layout L s' = console_layout L s" using run by (intro console_layout_cong) (simp add: ls_run_def)
  then show ?thesis
    using ready shown dir_table_cong [OF same dir] by (simp add: ls_ready_def f)
qed

lemma ls_ready_mem:
  assumes ready: "ls_ready L ps t s" and m: "\<forall>b. b \<notin> names_area L \<longrightarrow> m b = mem s b"
  shows "ls_ready L ps t (s\<lparr>mem := m\<rparr>)" "ls_run L s (s\<lparr>mem := m\<rparr>)"
proof -
  show run: "ls_run L s (s\<lparr>mem := m\<rparr>)" using m by (simp add: ls_run_def same_screen_def)
  have "names_area L \<inter> console_area L (fbCon s) = {}" "length (pending t) < 256" "term_rel L s t"
    using ready by (simp_all add: ls_ready_def ls_image_def pending_def)
  then have "term_rel L (s\<lparr>mem := m\<rparr>) t" using m by (intro term_rel_mem [of L s t "names_area L"]) auto
  then show "ls_ready L ps t (s\<lparr>mem := m\<rparr>)" using ready by (intro ls_ready_run [OF ready run]) (simp_all add: ls_ready_def)
qed

lemma term_puts_no_escape: "t_esc t = None \<Longrightarrow> 0x1B \<notin> set u \<Longrightarrow> t_esc (term_puts w u t) = None"
proof (induction u arbitrary: t)
  case (Cons c u)
  then have "t_esc (term_put w c t) = None" by (auto simp: term_put_def term_advance_def)
  then show ?case using Cons by (simp add: term_puts_def)
qed (simp add: term_puts_def)

lemma print_name_shows:
  fixes s :: "'a ramfs_scheme"
  assumes ready: "ls_ready L ps t s" and u: "cstr (mem s) (Addr (nameInPath_at L)) u" "length u < 128" "0x1B \<notin> set u"
    and fits: "term_fits s (u @ nl) t"
  obtains s' where "print_name L s = Some s'" "ls_ready L ps (term_puts (unat (TTY_Width s)) (u @ nl) t) s'" "ls_run L s s'"
proof -
  let ?K = "span (nameInPath_at L) 128" and ?ps = "[PStr u, PChar 0x0A]"
  have img: "nameInPath_at L \<noteq> 0" "names_area L \<inter> console_area L (fbCon s) = {}"
    and lay: "console_layout L s" "term_rel L s t" "t_esc t = None"
    using ready by (simp_all add: ls_ready_def ls_image_def)
  have "?K \<subseteq> span (nameInPath_at L) 256" by (rule span_mono) simp
  then have K: "?K \<inter> console_area L (fbCon s) = {}" using img(2) by (auto simp: names_area_def)
  have "span (nameInPath_at L) (Suc (length u)) \<subseteq> ?K" using u(2) by (intro span_mono) simp
  then have args: "args_match (mem s) ?K ?ps [VPtr (Addr (nameInPath_at L))]" using u img(1) by (simp add: str_arg_def)
  have nz: "0 \<notin> set u" using u(1) by (rule cstr_nonzero)
  have fmt: "Lit (bytes ''%s'' @ nl) = Lit (fmt_of ?ps)" by (simp add: fmt_of_def bytes_def nl_def)
  have rest: "at_rest (mem s) ?K (Lit (fmt_of ?ps)) (fmt_of ?ps)" by (simp add: at_rest_def fmt_of_def)
  have out: "out_of ?ps = u @ nl" by (simp add: nl_def)
  have fits': "term_fits s (out_of ?ps) t" "0 \<notin> set (out_of ?ps)" "length (out_of ?ps) < 2 ^ 31"
    unfolding out using fits nz u(2) by (simp_all add: nl_def)
  obtain s' where s': "printf L (Lit (fmt_of ?ps)) [VPtr (Addr (nameInPath_at L))] s = Some (int (length (out_of ?ps)), s')"
      "term_rel L s' (term_puts (unat (TTY_Width s)) (out_of ?ps) t)" "same_screen s s'" "console_frame L s s'"
    using printf_pieces [OF args rest lay(1,2) fits' K] by blast
  have run: "ls_run L s s'" using s'(3,4) by (simp add: ls_run_def console_frame_def)
  have "t_esc (term_puts (unat (TTY_Width s)) (u @ nl) t) = None"
    using lay(3) u(3) by (intro term_puts_no_escape) (simp_all add: nl_def)
  then have "ls_ready L ps (term_puts (unat (TTY_Width s)) (u @ nl) t) s'"
    using s'(2) unfolding out by (intro ls_ready_run [OF ready run])
  moreover have "print_name L s = Some s'" unfolding print_name_def fmt using s'(1) by simp
  ultimately show thesis using run that by blast
qed

text \<open>The name of an entry, by two splits.\<close>

lemma ls_name:
  fixes s :: "'a ramfs_scheme"
  assumes ready: "ls_ready L ps t s" and k: "k < length ps"
    and d1: "split_area L \<inter> span d1 256 = {}" "span d1 256 \<union> span d2 256 \<subseteq> names_area L"
  obtains m1 m2 where "split_into L d1 (header_at L (mem s) k) (mem s) = Some m1" "split_into L d2 (d1 + 128) m1 = Some m2"
    "cstr m2 (Addr d2) (second_name (ps ! k))" "\<forall>b. b \<notin> split_area L \<union> span d1 256 \<union> span d2 256 \<longrightarrow> m2 b = mem s b"
    "ls_ready L ps t (s\<lparr>mem := m2\<rparr>)" "ls_run L s (s\<lparr>mem := m2\<rparr>)"
proof -
  have p: "cstr (mem s) (Addr (header_at L (mem s) k)) (ps ! k)" "length (ps ! k) < 128"
    using ready k by (simp_all add: ls_ready_def dir_table_def)
  have sep: "span (strsplit_p1_at L) 128 \<inter> span (strsplit_p2_at L) 128 = {}" using ready by (simp add: ls_ready_def ls_image_def)
  have "span (header_at L (mem s) k) 128 \<subseteq> dir_area L (mem s) (length ps)" using k by (auto simp: dir_area_def)
  then have apart: "split_area L \<inter> span (header_at L (mem s) k) 128 = {}"
    using ready by (auto simp: ls_ready_def names_area_def)
  obtain m1 m2 where m: "split_into L d1 (header_at L (mem s) k) (mem s) = Some m1" "split_into L d2 (d1 + 128) m1 = Some m2"
      "cstr m2 (Addr d2) (second_name (ps ! k))" "\<forall>b. b \<notin> split_area L \<union> span d1 256 \<union> span d2 256 \<longrightarrow> m2 b = mem s b"
    by (rule split_twice [OF p sep apart d1(1)])
  have "split_area L \<subseteq> names_area L" by (auto simp: names_area_def)
  then have "\<forall>b. b \<notin> names_area L \<longrightarrow> m2 b = mem s b" using m(4) d1(2) by blast
  note ls_ready_mem [OF ready this]
  then show thesis using that [OF m] by blast
qed


lemma ls_header_at: "k < 2 ^ 31 \<Longrightarrow> ls_header s L (of_nat k) = header_at L (mem s) k"
  by (simp add: ls_header_def header_at_def scast_of_nat_32_64)

text \<open>What \<open>ls_entry\<close> has done when it comes to print: the name is in \<open>nameInPath.a\<close>.\<close>

lemma ls_entry_first:
  fixes s :: "'a ramfs_scheme"
  assumes ready: "ls_ready L ps t s" and k: "k < length ps" "length ps < 2 ^ 31"
  obtains s2 where "cstr (mem s2) (Addr (nameInPath_at L)) (second_name (ps ! k))" "ls_ready L ps t s2" "ls_run L s s2"
    "k = 1 \<longrightarrow> ls_entry L (of_nat k) s = print_name L s2"
    "1 < k \<longrightarrow> ls_entry L (of_nat k) s =
       do { m \<leftarrow> split_into L (oldFullName_at L) (ls_header s2 L (of_nat k - 1)) (mem s2);
            m \<leftarrow> split_into L (oldNameInPath_at L) (oldFullName_at L + 128) m;
            d \<leftarrow> strcmp m (Addr (oldNameInPath_at L)) (Addr (nameInPath_at L));
            if d = 0 then print_name L (s2\<lparr>mem := m\<rparr>) else Some (s2\<lparr>mem := m\<rparr>) }"
proof -
  let ?s0 = "s\<lparr>mem := clear_names L (mem s)\<rparr>" and ?N = "nameInPath_at L"
  have img: "ls_image L (fbCon s)" using ready by (simp add: ls_ready_def)
  have "\<forall>b. b \<notin> names_area L \<longrightarrow> clear_names L (mem s) b = mem s b" by (simp add: clear_names_frame)
  note ready0 = ls_ready_mem [OF ready this]
  have d1: "split_area L \<inter> span (fullName_at L) 256 = {}" "span (fullName_at L) 256 \<union> span ?N 256 \<subseteq> names_area L"
    using img by (auto simp: ls_image_def names_area_def)
  obtain m1 m2 where m: "split_into L (fullName_at L) (header_at L (mem ?s0) k) (mem ?s0) = Some m1"
      "split_into L ?N (fullName_at L + 128) m1 = Some m2" "cstr m2 (Addr ?N) (second_name (ps ! k))"
      "ls_ready L ps t (?s0\<lparr>mem := m2\<rparr>)" "ls_run L ?s0 (?s0\<lparr>mem := m2\<rparr>)"
    by (rule ls_name [OF ready0(1) k(1) d1])
  have head: "ls_header ?s0 L (of_nat k) = header_at L (mem ?s0) k" using k by (intro ls_header_at) simp
  have i: "sint (of_nat k :: u32) = int k" using k by (simp add: sint_of_nat32)
  show thesis
  proof (rule that [of "s\<lparr>mem := m2\<rparr>"])
    show "cstr (mem (s\<lparr>mem := m2\<rparr>)) (Addr ?N) (second_name (ps ! k))" "ls_ready L ps t (s\<lparr>mem := m2\<rparr>)" using m(3,4) by simp_all
    show "ls_run L s (s\<lparr>mem := m2\<rparr>)" using ls_run_trans [OF ready0(2) m(5)] by simp
  qed (unfold ls_entry_def Let_def head filename_def m(1), use m(2) i in \<open>simp_all cong: if_cong\<close>)
qed

text \<open>The comparison with the entry before.\<close>

lemma ls_entry_again:
  fixes s :: "'a ramfs_scheme"
  assumes ready: "ls_ready L ps t s" and k: "1 < k" "k < length ps" "length ps < 2 ^ 31"
    and name: "cstr (mem s) (Addr (nameInPath_at L)) u" "length u < 128"
  obtains m3 m4 where "split_into L (oldFullName_at L) (ls_header s L (of_nat k - 1)) (mem s) = Some m3"
    "split_into L (oldNameInPath_at L) (oldFullName_at L + 128) m3 = Some m4"
    "strcmp m4 (Addr (oldNameInPath_at L)) (Addr (nameInPath_at L)) = Some (str_diff (second_name (ps ! (k - 1))) u)"
    "str_diff (second_name (ps ! (k - 1))) u = 0 \<longleftrightarrow> second_name (ps ! (k - 1)) = u"
    "cstr m4 (Addr (nameInPath_at L)) u" "ls_ready L ps t (s\<lparr>mem := m4\<rparr>)" "ls_run L s (s\<lparr>mem := m4\<rparr>)"
proof -
  let ?N = "nameInPath_at L" and ?O = "oldNameInPath_at L" and ?v = "second_name (ps ! (k - 1))"
  have img: "ls_image L (fbCon s)" and k1: "k - 1 < length ps" using ready k by (simp_all add: ls_ready_def)
  have d2: "split_area L \<inter> span (oldFullName_at L) 256 = {}" "span (oldFullName_at L) 256 \<union> span ?O 256 \<subseteq> names_area L"
    using img by (auto simp: ls_image_def names_area_def)
  obtain m3 m4 where m: "split_into L (oldFullName_at L) (header_at L (mem s) (k - 1)) (mem s) = Some m3"
      "split_into L ?O (oldFullName_at L + 128) m3 = Some m4" "cstr m4 (Addr ?O) ?v"
      "\<forall>b. b \<notin> split_area L \<union> span (oldFullName_at L) 256 \<union> span ?O 256 \<longrightarrow> m4 b = mem s b"
      "ls_ready L ps t (s\<lparr>mem := m4\<rparr>)" "ls_run L s (s\<lparr>mem := m4\<rparr>)"
    by (rule ls_name [OF ready k1 d2])
  have "span ?N (Suc (length u)) \<subseteq> span ?N 256" using name(2) by (intro span_mono) simp
  then have out: "b \<notin> split_area L \<union> span (oldFullName_at L) 256 \<union> span ?O 256" if "b \<in> span ?N (Suc (length u))" for b
    using that img unfolding ls_image_def by blast
  have "mem s b = m4 b" if "b \<in> span ?N (Suc (length u))" for b using m(4) [rule_format, OF out [OF that]] by simp
  then have kept: "cstr m4 (Addr ?N) u" using name(1) cstr_ptr_cong [of "Addr ?N" u "mem s" m4] by simp
  have "of_nat k - 1 = (of_nat (k - 1) :: u32)" using k(1) by (simp add: of_nat_diff)
  then have head: "ls_header s L (of_nat k - 1) = header_at L (mem s) (k - 1)" using k ls_header_at [of "k - 1" s L] by simp
  show thesis
    by (rule that [OF _ m(2) strcmp_cstr [OF m(3) kept] str_diff_0_iff [OF cstr_nonzero [OF m(3)] cstr_nonzero [OF kept]] kept m(5,6)])
      (use m(1) head in simp)
qed

lemma ls_entry_shows:
  fixes s :: "'a ramfs_scheme"
  assumes ready: "ls_ready L ps t s" and k: "0 < k" "k < length ps" "length ps < 2 ^ 31"
    and plain: "\<forall>p\<in>set ps. 0x1B \<notin> set p" and fits: "term_fits s (entry_line ps k) t"
  obtains s' where "ls_entry L (of_nat k) s = Some s'"
    "ls_ready L ps (term_puts (unat (TTY_Width s)) (entry_line ps k) t) s'" "ls_run L s s'"
proof -
  note finish = that
  let ?u = "second_name (ps ! k)" and ?v = "second_name (ps ! (k - 1))"
  have u: "length ?u < 128" "0x1B \<notin> set ?u"
    using second_name_set [of "ps ! k"] plain ready k(2) by (auto simp: ls_ready_def dir_table_def dest: nth_mem)
  obtain s2 where s2: "cstr (mem s2) (Addr (nameInPath_at L)) ?u" "ls_ready L ps t s2" "ls_run L s s2"
      "k = 1 \<longrightarrow> ls_entry L (of_nat k) s = print_name L s2"
      "1 < k \<longrightarrow> ls_entry L (of_nat k) s =
         do { m \<leftarrow> split_into L (oldFullName_at L) (ls_header s2 L (of_nat k - 1)) (mem s2);
              m \<leftarrow> split_into L (oldNameInPath_at L) (oldFullName_at L + 128) m;
              d \<leftarrow> strcmp m (Addr (oldNameInPath_at L)) (Addr (nameInPath_at L));
              if d = 0 then print_name L (s2\<lparr>mem := m\<rparr>) else Some (s2\<lparr>mem := m\<rparr>) }"
    by (rule ls_entry_first [OF ready k(2,3)])
  have printed: thesis if line: "entry_line ps k = ?u @ nl" and s3: "ls_entry L (of_nat k) s = print_name L s3"
      "cstr (mem s3) (Addr (nameInPath_at L)) ?u" "ls_ready L ps t s3" "ls_run L s s3" for s3
  proof -
    have same: "same_screen s s3" and w: "TTY_Width s3 = TTY_Width s" using s3(4) by (simp_all add: ls_run_def same_screen_def)
    have "term_fits s3 (?u @ nl) t" using fits unfolding line by (simp only: term_fits_cong [OF same])
    then obtain s' where "print_name L s3 = Some s'" "ls_ready L ps (term_puts (unat (TTY_Width s3)) (?u @ nl) t) s'" "ls_run L s3 s'"
      by (rule print_name_shows [OF s3(3,2) u])
    then show thesis using finish [of s'] s3(1) ls_run_trans [OF s3(4)] unfolding line w by simp
  qed
  show thesis
  proof (cases "k = 1")
    case True
    then show thesis using printed [OF _ s2(4) [rule_format]] s2(1-3) by (simp add: entry_line_def)
  next
    case False
    then have k1: "1 < k" using k(1) by simp
    obtain m3 m4 where m: "split_into L (oldFullName_at L) (ls_header s2 L (of_nat k - 1)) (mem s2) = Some m3"
        "split_into L (oldNameInPath_at L) (oldFullName_at L + 128) m3 = Some m4"
        "strcmp m4 (Addr (oldNameInPath_at L)) (Addr (nameInPath_at L)) = Some (str_diff ?v ?u)" "str_diff ?v ?u = 0 \<longleftrightarrow> ?v = ?u"
        "cstr m4 (Addr (nameInPath_at L)) ?u" "ls_ready L ps t (s2\<lparr>mem := m4\<rparr>)" "ls_run L s2 (s2\<lparr>mem := m4\<rparr>)"
      by (rule ls_entry_again [OF s2(2) k1 k(2,3) s2(1) u(1)])
    have run: "ls_entry L (of_nat k) s = (if ?v = ?u then print_name L (s2\<lparr>mem := m4\<rparr>) else Some (s2\<lparr>mem := m4\<rparr>))"
      unfolding s2(5) [rule_format, OF k1] using m(1-4) by simp
    note run4 = ls_run_trans [OF s2(3) m(7)]
    show thesis
    proof (cases "?v = ?u")
      case True
      then show thesis using printed [OF _ _ _ m(6) run4] run m(5) by (simp add: entry_line_def)
    next
      case False
      then have "entry_line ps k = []" using k1 by (simp add: entry_line_def)
      then show thesis using finish [of "s2\<lparr>mem := m4\<rparr>"] run run4 m(6) False by (simp add: term_puts_def)
    qed
  qed
qed

section \<open>The listing\<close>

lemma ls_loop_shows:
  fixes s :: "'a ramfs_scheme"
  assumes "ls_ready L ps t s" and "0 < k" "k \<le> length ps" "length ps < 2 ^ 31"
    and "\<forall>p\<in>set ps. 0x1B \<notin> set p" and "term_fits s (ls_text ps k) t"
  shows "\<exists>s'. ls_loop L (of_nat k) s = Some s' \<and> ls_ready L ps (term_puts (unat (TTY_Width s)) (ls_text ps k) t) s' \<and> ls_run L s s'"
  using assms
proof (induction "length ps - k" arbitrary: k s t)
  case 0
  then have k: "k = length ps" by simp
  then have "mem s (filename (ls_header s L (of_nat k))) = 0"
    using 0 by (simp add: filename_def ls_header_at ls_ready_def dir_table_def)
  moreover have "ls_run L s s" by (simp add: ls_run_def)
  ultimately show ?case using 0 k by (subst ls_loop.simps) (simp add: ls_text_def term_puts_def)
next
  case (Suc n)
  then have k: "k < length ps" by simp
  let ?W = "unat (TTY_Width s)"
  note text_k = ls_text_step [OF k]
  have fits: "term_fits s (entry_line ps k) t" "term_fits s (ls_text ps (Suc k)) (term_puts ?W (entry_line ps k) t)"
    using Suc.prems(6) unfolding text_k term_fits_append by simp_all
  obtain s1 where s1: "ls_entry L (of_nat k) s = Some s1" "ls_ready L ps (term_puts ?W (entry_line ps k) t) s1" "ls_run L s s1"
    by (rule ls_entry_shows [OF Suc.prems(1,2) k Suc.prems(4,5) fits(1)])
  have same: "same_screen s s1" and w: "TTY_Width s1 = TTY_Width s" using s1(3) by (simp_all add: ls_run_def same_screen_def)
  have "\<exists>s'. ls_loop L (of_nat (Suc k)) s1 = Some s' \<and>
      ls_ready L ps (term_puts (unat (TTY_Width s1)) (ls_text ps (Suc k)) (term_puts ?W (entry_line ps k) t)) s' \<and> ls_run L s1 s'"
    using Suc.hyps Suc.prems k fits(2) s1(2) term_fits_cong [OF same] by (intro Suc.hyps(1)) auto
  then obtain s' where s': "ls_loop L (of_nat (Suc k)) s1 = Some s'"
      "ls_ready L ps (term_puts ?W (ls_text ps k) t) s'" "ls_run L s1 s'"
    unfolding text_k term_puts_append w by blast
  have "cstr (mem s) (Addr (header_at L (mem s) k)) (ps ! k)" "ps ! k \<noteq> []"
    using Suc.prems(1) k by (simp_all add: ls_ready_def dir_table_def)
  then have "mem s (filename (ls_header s L (of_nat k))) \<noteq> 0"
    using k Suc.prems(4) cstr_nonzero by (cases "ps ! k") (fastforce simp: filename_def ls_header_at cstr_Cons)+
  then have "ls_loop L (of_nat k) s = Some s'" using s1(1) s'(1) by (subst ls_loop.simps) (simp add: add.commute)
  then show ?case using s'(2) ls_run_trans [OF s1(3) s'(3)] by blast
qed


text \<open>The headers of an archive, and what \<open>parse\<close> leaves of them in the table.\<close>

lemma archive_headers:
  "archive m a szs \<Longrightarrow> k < length szs \<Longrightarrow>
     m (of_nat (header_addresses a szs ! k)) \<noteq> 0 \<and> span (of_nat (header_addresses a szs ! k)) 128 \<subseteq> archive_area a szs"
proof (induction szs arbitrary: a k)
  case (Cons sz szs)
  show ?case
  proof (cases k)
    case 0
    have "span (of_nat a) 128 \<subseteq> archive_area a (sz # szs)"
      unfolding archive_area_def by (intro span_mono) (simp add: archive_bytes_def entry_bytes_def)
    then show ?thesis using Cons.prems 0 by simp
  next
    case (Suc j)
    then show ?thesis using Cons.IH [of "a + entry_bytes sz" j] Cons.prems archive_area_tail [of a sz szs] by auto
  qed
qed simp

lemma archive_end:
  "archive m a szs \<Longrightarrow> m (of_nat (header_addresses a szs ! length szs)) = 0 \<and>
     of_nat (header_addresses a szs ! length szs) \<in> archive_area a szs"
proof (induction szs arbitrary: a)
  case (Cons sz szs)
  then show ?case using Cons.IH [of "a + entry_bytes sz"] archive_area_tail [of a sz szs] by auto
qed (use archive_area_head [of _ "[]"] in simp)

lemma parsed_dir:
  assumes arch: "archive m a szs" and ps: "length ps = length szs"
    and names: "\<forall>k<length szs. cstr m (Addr (of_nat (header_addresses a szs ! k))) (ps ! k) \<and> length (ps ! k) < 128"
    and slots: "\<forall>k\<le>length szs. header_at L m k = of_nat (header_addresses a szs ! k)"
  shows "dir_table L m ps" "dir_area L m (length ps) \<subseteq> span (headers_at L) (8 * Suc (length szs)) \<union> archive_area a szs"
proof -
  note h = archive_headers [OF arch] and e = archive_end [OF arch]
  have "ps ! k \<noteq> []" if "k < length szs" for k
    using names [rule_format, OF that] h [OF that] by auto
  then show "dir_table L m ps" using names slots e ps by (simp add: dir_table_def)
  show "dir_area L m (length ps) \<subseteq> span (headers_at L) (8 * Suc (length szs)) \<union> archive_area a szs"
    using h e slots ps unfolding dir_area_def by fastforce
qed


section \<open>Properties\<close>

text \<open>
  C13: \<open>ls\<close> after \<open>parse\<close>, on an archive with at least one entry: it prints the part between the first two slashes of
  the second entry's path, and of every later path whose part equals that of the path before it; every other entry
  is left out, though it has another name.  The screen shows these lines, and nothing but the table of headers, the
  arrays of \<open>ls\<close> and the console changes.
\<close>

theorem ls_lists_archive:
  fixes s :: "'a ramfs_scheme"
  assumes arch: "module_address s = of_nat a" "archive (mem s) a szs" "\<forall>sz\<in>set szs. sz < 2 ^ 32"
      "a + archive_bytes szs \<le> 2 ^ 32" "length szs < 2 ^ 31" "0 < length szs"
    and names: "length ps = length szs"
      "\<forall>k<length szs. cstr (mem s) (Addr (of_nat (header_addresses a szs ! k))) (ps ! k) \<and> length (ps ! k) < 128"
      "\<forall>p\<in>set ps. 0x1B \<notin> set p"
    and table: "span (headers_at L) (8 * Suc (length szs)) \<inter> archive_area a szs = {}"
    and apart: "(span (headers_at L) (8 * Suc (length szs)) \<union> archive_area a szs) \<inter> (names_area L \<union> console_area L (fbCon s)) = {}"
    and screen: "ls_image L (fbCon s)" "console_layout L s" "term_rel L s t" "t_esc t = None" "term_fits s (ls_text ps 1) t"
  shows "\<exists>s1 s2. parse L s = Some (of_nat (length szs), s1) \<and> ls L s1 = Some s2 \<and>
    term_rel L s2 (term_puts (unat (TTY_Width s)) (ls_text ps 1) t) \<and> same_screen s s2 \<and>
    (\<forall>b. b \<notin> span (headers_at L) (8 * Suc (length szs)) \<union> names_area L \<union> console_area L (fbCon s) \<longrightarrow> mem s2 b = mem s b)"
proof -
  let ?T = "span (headers_at L) (8 * Suc (length szs))" and ?W = "unat (TTY_Width s)"
  obtain s1 where s1: "parse L s = Some (of_nat (length szs), s1)"
      "\<forall>k\<le>length szs. load64 (mem s1) (headers_at L + 8 * of_nat k) = of_nat (header_addresses a szs ! k)"
      "s1 = s\<lparr>mem := mem s1\<rparr>" "\<forall>b. b \<notin> ?T \<longrightarrow> mem s1 b = mem s b"
    using parse_archive [OF arch(1-5) table] by blast
  have same: "same_screen s s1" using arg_cong [OF s1(3), of "same_screen s"] by (simp add: same_screen_def)
  then have f: "fbCon s1 = fbCon s" "TTY_Width s1 = TTY_Width s" by (simp_all add: same_screen_def)
  have kept: "mem s1 b = mem s b" if "b \<in> archive_area a szs" for b using that s1(4) table by blast
  have arch1: "archive (mem s1) a szs" using arch(2) archive_cong [of a szs "mem s1" "mem s"] kept by blast
  have name: "cstr (mem s1) (Addr (of_nat (header_addresses a szs ! k))) (ps ! k) \<and> length (ps ! k) < 128" if k: "k < length szs" for k
  proof -
    have "span (of_nat (header_addresses a szs ! k)) (Suc (length (ps ! k))) \<subseteq> span (of_nat (header_addresses a szs ! k)) 128"
      using names(2) k by (intro span_mono) (simp add: Suc_le_eq)
    then have "mem s b = mem s1 b" if "b \<in> ptr_span (Addr (of_nat (header_addresses a szs ! k))) (Suc (length (ps ! k)))" for b
      using that archive_headers [OF arch(2) k] kept by auto
    then show ?thesis using names(2) k cstr_ptr_cong [of "Addr (of_nat (header_addresses a szs ! k))" "ps ! k" "mem s" "mem s1"] by blast
  qed
  have slots: "\<forall>k\<le>length szs. header_at L (mem s1) k = of_nat (header_addresses a szs ! k)" using s1(2) by (simp add: header_at_def)
  have "\<forall>k<length szs. cstr (mem s1) (Addr (of_nat (header_addresses a szs ! k))) (ps ! k) \<and> length (ps ! k) < 128" using name by blast
  note dir = parsed_dir [OF arch1 names(1) this slots]
  have "term_rel L (s\<lparr>mem := mem s1\<rparr>) t"
    using screen(3,4) apart s1(4) by (intro term_rel_mem [of L s t ?T]) (auto simp: pending_def)
  then have "ls_ready L ps t s1"
    using screen(1,2,4) dir apart console_layout_cong [OF same, of L] s1(3) unfolding ls_ready_def f by auto
  moreover have "term_fits s1 (ls_text ps 1) t" using screen(5) term_fits_cong [OF same] by simp
  ultimately obtain s2 where s2: "ls L s1 = Some s2" "ls_ready L ps (term_puts ?W (ls_text ps 1) t) s2" "ls_run L s1 s2"
    using ls_loop_shows [of L ps t s1 1] arch(5,6) names(1,3) by (auto simp: ls_def f Suc_le_eq)
  have "mem s2 b = mem s b" if "b \<notin> ?T \<union> names_area L \<union> console_area L (fbCon s)" for b
    using that s1(4) s2(3) by (simp add: ls_run_def f)
  moreover have "same_screen s s2" using same_screen_trans [OF same] s2(3) by (simp add: ls_run_def)
  ultimately show ?thesis using s1(1) s2(1,2) by (auto simp: ls_ready_def)
qed

text \<open>A directory with two files of different names, of which only the first is listed.\<close>

definition archive1 :: memory where
  "archive1 = (\<lambda>b. if b - 0x20007C < 11 \<or> b - 0x20027C < 11 \<or> b - 0x20047C < 11 then 0x30
     else ((\<lambda>_. 0)(0x30000A := 0x20, 0x200000 := 0x64, 0x200001 := 0x2F, 0x200200 := 0x64, 0x200201 := 0x2F,
       0x200202 := 0x61, 0x200400 := 0x64, 0x200401 := 0x2F, 0x200402 := 0x62)) b)"

definition ramfs25 :: ramfs where
  "ramfs25 = ramfs0\<lparr>TTY_Width := 80, TTY_Height := 25, mem := archive1,
     fbCon := \<lparr>fb_width = 640, fb_height = 400, fb_mode = FB_MODE_RGBA, fb_ptr = 0x800000000\<rparr>\<rparr>"

lemma archive1_entries:
  "archive archive1 0x200000 [0, 0, 0]" "cstr archive1 (Addr 0x200000) (bytes ''d/'')"
  "cstr archive1 (Addr 0x200200) (bytes ''d/a'')" "cstr archive1 (Addr 0x200400) (bytes ''d/b'')"
proof -
  let ?z = "[0, 0, 0, 0, 0, 0, 0, 0, 0, 0, 0] :: nat list"
  have "octal_text archive1 (Addr 0x20007C) ?z" "octal_text archive1 (Addr 0x20027C) ?z" "octal_text archive1 (Addr 0x20047C) ?z"
    by (simp_all add: octal_text_def all_less_11 archive1_def)
  moreover have "octal ?z = 0" by (simp add: octal_def)
  moreover have "archive1 0x200000 \<noteq> 0" "archive1 0x200200 \<noteq> 0" "archive1 0x200400 \<noteq> 0" "archive1 0x200600 = 0"
    by (simp_all add: archive1_def)
  ultimately show "archive archive1 0x200000 [0, 0, 0]" by (auto simp: entry_bytes_def)
  show "cstr archive1 (Addr 0x200000) (bytes ''d/'')" "cstr archive1 (Addr 0x200200) (bytes ''d/a'')"
    "cstr archive1 (Addr 0x200400) (bytes ''d/b'')"
    by (simp_all add: cstr_Cons bytes_def archive1_def)
qed


lemma listing_room0:
  "ls_image image0 (fbCon console25)" "span (headers_at image0) 32 \<inter> archive_area 0x200000 [0, 0, 0] = {}"
  "(span (headers_at image0) 32 \<union> archive_area 0x200000 [0, 0, 0]) \<inter> (names_area image0 \<union> console_area image0 (fbCon console25)) = {}"
proof -
  let ?A = "archive_area 0x200000 [0, 0, 0]"
  have area: "?A = span 0x200000 1537" by (simp add: archive_area_def archive_bytes_def entry_bytes_def)
  have image: "strsplit_p1_at image0 = 0x112000" "strsplit_p2_at image0 = 0x112080" "headers_at image0 = 0x103000"
    "fullName_at image0 = 0x107000" "nameInPath_at image0 = 0x107100" "oldFullName_at image0 = 0x107200" "oldNameInPath_at image0 = 0x107300"
    by (simp_all add: image0_def)
  have con: "console_area image0 (fbCon console25) = span 0x800000000 1024000 \<union> span 0x101000 256 \<union> span 0x111000 256"
    unfolding console_area_def console25_bytes by (simp add: image0_def)
  have sub: "span 0x103000 32 \<subseteq> region 0x103000 0x103020" "?A \<subseteq> region 0x200000 0x200601"
    "split_area image0 \<subseteq> region 0x112000 0x112100" "span 0x107000 256 \<subseteq> region 0x107000 0x107100"
    "span 0x107100 256 \<subseteq> region 0x107100 0x107200" "span 0x107200 256 \<subseteq> region 0x107200 0x107300"
    "span 0x107300 256 \<subseteq> region 0x107300 0x107400"
    "console_area image0 (fbCon console25) \<subseteq> region 0x101000 0x101100 \<union> region 0x111000 0x111100 \<union> region 0x800000000 0x8000FA000"
    unfolding area con split_area_def image by (intro Un_least le_supI1 le_supI2 span_region; simp; fail)+
  let ?S = "region 0x112000 0x112100" and ?C = "region 0x101000 0x101100 \<union> region 0x111000 0x111100 \<union> region 0x800000000 0x8000FA000"
  let ?F = "region 0x107000 0x107100" and ?N = "region 0x107100 0x107200" and ?O = "region 0x107200 0x107300" and ?P = "region 0x107300 0x107400"
  have all: "names_area image0 \<subseteq> ?S \<union> ?F \<union> ?N \<union> ?O \<union> ?P" unfolding names_area_def image using sub(3-7) by blast
  have reg: "(?S \<union> ?F \<union> ?N \<union> ?O \<union> ?P) \<inter> ?C = {}" "?S \<inter> (?F \<union> ?O) = {}" "?N \<inter> (?S \<union> ?O \<union> ?P) = {}"
    "(region 0x103000 0x103020 \<union> region 0x200000 0x200601) \<inter> (?S \<union> ?F \<union> ?N \<union> ?O \<union> ?P \<union> ?C) = {}"
    "region 0x103000 0x103020 \<inter> region 0x200000 0x200601 = {}"
    by (simp_all add: Int_Un_distrib Int_Un_distrib2 region_disjoint)
  have "span (0x112000 :: addr) 128 \<inter> span 0x112080 128 = {}" by (rule span_disjI) simp_all
  moreover have "split_area image0 \<inter> (span 0x107000 256 \<union> span 0x107200 256) = {}" using sub(3,4,6) reg(2) by blast
  moreover have "span 0x107100 256 \<inter> (split_area image0 \<union> span 0x107200 256 \<union> span 0x107300 256) = {}" using sub(3,5-7) reg(3) by blast
  moreover have "names_area image0 \<inter> console_area image0 (fbCon console25) = {}" using all sub(8) reg(1) by blast
  ultimately show "ls_image image0 (fbCon console25)" unfolding ls_image_def image by simp
  show "span (headers_at image0) 32 \<inter> ?A = {}" unfolding image using sub(1,2) reg(5) by blast
  show "(span (headers_at image0) 32 \<union> ?A) \<inter> (names_area image0 \<union> console_area image0 (fbCon console25)) = {}"
    unfolding image using sub(1,2,8) all reg(4) by blast
qed

theorem ls_lists_archive_witness:
  "\<exists>s1 s2. parse image0 ramfs25 = Some (3, s1) \<and> ls image0 s1 = Some s2 \<and> term_rel image0 s2 (term0\<lparr>t_y := 1\<rparr>)"
proof -
  let ?ps = "[bytes ''d/'', bytes ''d/a'', bytes ''d/b'']" and ?szs = "[0, 0, 0] :: nat list" and ?A = "archive_area 0x200000 [0, 0, 0]"
  have f: "fbCon ramfs25 = fbCon console25" "TTY_Width ramfs25 = TTY_Width console25" "TTY_Height ramfs25 = TTY_Height console25"
    "mem ramfs25 = archive1"
    by (simp_all add: ramfs25_def console25_def)
  have "initramfs ramfs25 = 0x300000" by (simp add: ramfs25_def ramfs0_def interrupts.defs ramfs.defs)
  then have module: "module_address ramfs25 = of_nat 0x200000"
    unfolding module_address_def f(4) by (simp add: archive1_def load32_bytes)
  have arch: "archive (mem ramfs25) 0x200000 ?szs" unfolding f by (rule archive1_entries(1))
  have size: "\<forall>sz\<in>set ?szs. sz < 2 ^ 32" "0x200000 + archive_bytes ?szs \<le> 2 ^ 32" "length ?szs < 2 ^ 31" "0 < length ?szs"
    by (simp_all add: archive_bytes_def entry_bytes_def)
  have names: "\<forall>k<length ?szs. cstr (mem ramfs25) (Addr (of_nat (header_addresses 0x200000 ?szs ! k))) (?ps ! k) \<and> length (?ps ! k) < 128"
    unfolding f using archive1_entries(2-4) by (auto simp: less_Suc_eq entry_bytes_def bytes_def)
  have plain: "length ?ps = length ?szs" "\<forall>p\<in>set ?ps. 0x1B \<notin> set p" by (simp_all add: bytes_def)
  have table: "span (headers_at image0) (8 * Suc (length ?szs)) \<inter> ?A = {}" and img: "ls_image image0 (fbCon ramfs25)"
    and apart: "(span (headers_at image0) (8 * Suc (length ?szs)) \<union> ?A) \<inter> (names_area image0 \<union> console_area image0 (fbCon ramfs25)) = {}"
    using listing_room0 by (simp_all add: f)
  have lines: "ls_text ?ps 1 = [0x61, 0x0A]"
    by (simp add: ls_text_def upt_rec entry_line_def second_name_def path_head_def path_rest_def bytes_def nl_def)
  have lay: "console_layout image0 ramfs25" using console25_layout by (simp only: log_layout_def console_layout_def f simp_thms)
  have rel: "term_rel image0 ramfs25 term0"
    by (simp add: term_rel_def esc_text_def term0_def pending_def ramfs25_def ramfs0_def interrupts.defs ramfs.defs interrupts0_def
        keyboard.defs keyboard0_def console.defs console0_def)
  have fits: "term_fits ramfs25 (ls_text ?ps 1) term0"
    unfolding term_fits_size [OF f(2,3)] lines by (simp add: term_eval console25_size term0_def)
  have "term_puts 80 (ls_text ?ps 1) term0 = term0\<lparr>t_y := 1\<rparr>"
    unfolding lines by (simp add: term_puts_def term_put_def term_advance_def term0_def)
  then show ?thesis
    using ls_lists_archive [OF module arch size plain(1) names plain(2) table apart img lay rel _ fits]
    by (auto simp: f console25_size term0_def)
qed


end
