(* ===== verification/Spec2Isabelle.thy ===== *)
theory Spec2Isabelle
  imports PrintfProps Rtc Cursor Startup AcpiInit Idle Listing
begin

text \<open>
  A verification library for SeshOS, the kernel under \<open>src/kernel\<close> and \<open>src/include\<close>.

  \<^bold>\<open>The program.\<close>  The Limine boot loader starts \<open>_start\<close> (\<open>kernel.c\<close>) with the answers to the kernel's
  requests in memory.  \<open>_start\<close> calls \<open>init\<close> (\<open>init.c\<close>), prints two greetings and idles.  \<open>init\<close> sends all
  output to the debug port, asks who booted it (\<open>boot/checkLoader.c\<close>), moves the output to the frame buffer
  (\<open>FBCON_Init\<close>), gives the usable memory to the heap (\<open>memory/malloc.c\<close>), loads the descriptor tables
  (\<open>gdt\<close>, \<open>idt\<close>), reads the tar archive in the boot module (\<open>fs/ramfs.c\<close>), searches the ACPI tables
  (\<open>acpi/acpi.c\<close>) and walks the PCI buses (\<open>pci\<close>), which starts the AHCI driver (\<open>disks/sata.c\<close>) for a disk
  controller.  Everything reports through \<open>log\<close> or \<open>printf\<close>; these reach \<open>puts\<close> and \<open>putchar\<close>, then
  \<open>TTY_Write\<close>, which calls the current write function: \<open>COM_LogWrapper\<close> (port 0xE9) or \<open>FBCON_Write\<close>, which
  draws glyphs and hands escape sequences to \<open>TTY_HandleEsc\<close>.  Interrupts enter through the gates that
  \<open>create_idt\<close> installs: faults end in \<open>panic\<close>, keys in the keyboard driver.

  \<^bold>\<open>State.\<close>  Every component extends the record of the ones below it, so that its operations run on the state of
  the whole kernel: \<open>machine\<close> (byte memory, history of port accesses) - \<open>heap\<close> - \<open>ansi\<close> - \<open>console\<close> -
  \<open>keyboard\<close> - \<open>interrupts\<close> - \<open>ramfs\<close> - \<open>acpi\<close> - \<open>ahci\<close> - \<open>kernel\<close>.  Scalar globals are fields with the name they
  have in C.  Arrays, structures and the buffers on the stack live in the byte memory, little-endian and
  packed as the headers say, at addresses that are fields of \<open>image\<close>; so writes that run past an array
  reach what lies behind it, as they do in C.  Integers are words of their C width; \<open>int\<close> has 32 bits and
  \<open>char\<close> is signed where the source compares or extends it.

  \<^bold>\<open>Control.\<close>  An operation that may not give control back returns an option.  \<open>None\<close> is an endless loop
  (\<open>panic\<close>, the idle loop, a wait for a device, a search for a NUL that is not there) or a jump through a null
  write function.  Loops that may not end are \<open>partial_function (option)\<close>, all others end by a measure; no fuel
  is used anywhere.

  \<^bold>\<open>Parameters.\<close>  \<open>image\<close>: link-time addresses, the generated font, and the bytes the linker puts behind two
  tables.  \<open>limine\<close>: where the boot loader put its answers.  \<open>device\<close>: what a port read answers, a function of
  the history of accesses.  \<open>hba\<close>: what the disk adapter does to the memory between two reads of its registers.
  The order in which the compiler evaluates the arguments of one \<open>printf\<close>; what the registers of the processor
  hold when \<open>DUMPREGS\<close> stores them, and CR2.  \<open>platform\<close> collects them for \<open>init\<close>.

  \<^bold>\<open>Theories.\<close>  In the order of their imports:

  \<^item> \<open>Prelude\<close>: integer names, memory, C pointers and strings, the locale \<open>cell_store\<close> (a load and a store of
    cells of n bytes: read back, frame, disjointness, folds of stores) with its interpretations for 1, 2, 4 and 8
    bytes, the lemma collections \<open>ld_st\<close> and \<open>frame\<close>.
  \<^item> \<open>Machine\<close> (\<open>io.c\<close>), \<open>Serial\<close> (\<open>serial/comout.c\<close>), \<open>CMem\<close> (\<open>memory/mem.c\<close>), \<open>CString\<close> (\<open>string.c\<close>): each
    routine against the list function it is meant to be - copies, comparisons, first occurrences, splits, round
    trips between numbers and text.
  \<^item> \<open>Heap\<close> (\<open>memory/malloc.c\<close>): the chain of block headers as an invariant over all histories of \<open>malloc\<close> and
    \<open>free\<close>; the locale \<open>allocator\<close> is what clients rely on and is interpreted on \<open>malloc\<close>.
  \<^item> \<open>Ansi\<close> (\<open>video/ansi.c\<close>) and \<open>Console\<close> (\<open>tty.c\<close>, \<open>video/fbcon.c\<close>, \<open>video/renderer.c\<close>, the pixel operations of
    \<open>video/video.c\<close>): the pixels of a glyph, and the refinement of an abstract \<open>terminal\<close> (cursor, colours,
    pending escape text) by \<open>term_rel\<close>; \<open>Cursor\<close>: what holds without any bound on the text; \<open>Video\<close>: the
    operations of \<open>video.c\<close> that print.
  \<^item> \<open>Printf\<close>, \<open>PrintfProps\<close> (\<open>video/printf.c\<close>): the formatter as the configuration in \<open>printf.h\<close> compiles it.  The
    locale \<open>char_sink\<close> states what the formatter needs of an output gadget; its interpretations are the buffer
    and the console.  Formats as lists of \<open>piece\<close>s give the text; safety holds for every format.
  \<^item> \<open>Limine\<close> (\<open>include/limine.h\<close>): the requests in the kernel's image, told apart by their identifiers, and the
    structures of the answers as the kernel reads them.
  \<^item> \<open>Log\<close> (\<open>log.c\<close>, \<open>panic.c\<close>, \<open>DUMPREGS\<close>) and \<open>ComLog\<close>: a message on the screen and, before there is one, on the port.
  \<^item> \<open>Keyboard\<close> (\<open>userinput/keyboard.c\<close>): a line editor refined by the driver, over sequences of keys.
    \<open>Interrupts\<close> (\<open>gdt\<close>, \<open>idt\<close>): the gates, the two interrupt controllers as a state machine fed with the port
    history, the handlers.  \<open>Idle\<close>: the loop at the end of \<open>_start\<close> under any sequence of interrupts - keys keep
    the line editor and the table, a fault ends in its panic.  \<open>Rtc\<close> (\<open>time.c\<close>, \<open>audio/pcspk.c\<close>): clock and speaker.
  \<^item> \<open>Ramfs\<close>, \<open>Listing\<close> (\<open>fs/ramfs.c\<close>): the headers of an abstract archive, and the names \<open>ls\<close> shows of it.  \<open>Acpi\<close>, \<open>AcpiTables\<close>, \<open>AcpiInit\<close>
    (\<open>acpi/acpi.c\<close>): the checksum, the loop over the tables, and \<open>ACPI_Init\<close> as a whole - its messages, the MCFG
    it leaves, the panic of a root table with another signature.  \<open>Sata\<close> (\<open>disks/sata.c\<close>): slots, command frames, and \<open>Read\<close> for every behaviour of
    the adapter.  \<open>PciDesc\<close>, \<open>Pci\<close> (\<open>pci\<close>): names, the lines shown, and which buses are skipped.
  \<^item> \<open>Boot\<close> (\<open>boot\<close>, \<open>init.c\<close>, \<open>kernel.c\<close>, \<open>FBCON_Init\<close>) and \<open>Startup\<close>: the boot loader's names, the memory map,
    and how console and heap come up when the pieces are composed as \<open>init\<close> composes them.

  \<^bold>\<open>Hypotheses.\<close>  Most properties on memory ask that buffers, frame buffer and arguments do not overlap
  (\<open>console_layout\<close>, \<open>log_layout\<close>, \<open>boot_image\<close>, ...) and that texts fit the fixed buffers of the source and the
  screen (\<open>term_fits\<close>), because the code does not check either; what happens otherwise is stated where it can
  be (the rows below the screen, the line buffer of the keyboard, the 64 bytes of a name, the table of headers).
  Every such hypothesis is met by the example states of the witnesses (\<open>image0\<close>, \<open>console25\<close>, \<open>kernel0\<close>, ...).

  \<^bold>\<open>Not modelled.\<close>  The floating-point part of \<open>printf.c\<close>, which the configuration leaves out; the parts of the
  Limine protocol header that no code reads; \<open>gpt.c\<close>, which has no code; the tools, the linker script and the fonts.  Interrupts
  arrive in the idle loop; their arrival between two steps of other code is not modelled.  Reads outside
  every object return whatever the memory holds, and caches, paging and the processor's registers appear only
  where an operation sets them.  \<open>init\<close> is a definition, run
  by theorems up to the heap and, for the ACPI search, on its own; the enumeration after it is stated per function
  and per bus, since its course depends on every port the devices answer.
\<close>

end
